(* ===== verification/Omnipath_Prelude.thy ===== *)
theory Omnipath_Prelude
  imports Main "HOL-Library.Word" "HOL-Library.Monad_Syntax"
begin

unbundle bit_operations_syntax

text \<open>
  The shared vocabulary of the development: the machine integers of the Rust sources, the
  \<open>Result\<close> type with the combinators the sources use (\<open>map\<close>, \<open>map_err\<close>, the
  question-mark operator, \<open>unwrap\<close>), the outcome of polling an asynchronous function,
  decimal formatting and \<open>join\<close>, and the lemmas on nibbles, digits and lists that the
  component theories rest on.

  Conventions.  A pure function that may panic returns an \<open>option\<close>, \<open>None\<close> being the
  panic.  An asynchronous function that may also wait for its environment returns a value of
  the type \<open>fut\<close>.  A Rust \<open>String\<close> or \<open>str\<close> is a \<open>string\<close>, one \<open>char\<close> per
  byte of its UTF-8 text.
\<close>

subsection \<open>Machine integers\<close>

type_synonym u8 = "8 word"
type_synonym u16 = "16 word"
type_synonym u32 = "32 word"
type_synonym u64 = "64 word"
type_synonym usize = "64 word"
type_synonym bytes = "u8 list"

named_theorems convert_simps \<open>equations of the NGAP/SBI conversions\<close>
named_theorems step_intros \<open>introduction rules of the step relations\<close>

subsection \<open>Results and panics\<close>

datatype ('a, 'e) result = Ok 'a | Err 'e

primrec map_ok :: "('a \<Rightarrow> 'b) \<Rightarrow> ('a, 'e) result \<Rightarrow> ('b, 'e) result" where
  "map_ok f (Ok x) = Ok (f x)"
| "map_ok f (Err e) = Err e"

primrec map_err :: "('e \<Rightarrow> 'f) \<Rightarrow> ('a, 'e) result \<Rightarrow> ('a, 'f) result" where
  "map_err f (Ok x) = Ok x"
| "map_err f (Err e) = Err (f e)"

text \<open>The question-mark operator: go on with the value of an \<open>Ok\<close>, return an \<open>Err\<close>.\<close>

primrec and_then :: "('a, 'e) result \<Rightarrow> ('a \<Rightarrow> ('b, 'e) result) \<Rightarrow> ('b, 'e) result" where
  "and_then (Ok x) f = f x"
| "and_then (Err e) f = Err e"

primrec is_ok :: "('a, 'e) result \<Rightarrow> bool" where
  "is_ok (Ok x) = True"
| "is_ok (Err e) = False"

primrec unwrap :: "('a, 'e) result \<Rightarrow> 'a option" where
  "unwrap (Ok x) = Some x"
| "unwrap (Err e) = None"

text \<open>\<open>Option::ok_or\<close> and \<open>Result::ok\<close>.\<close>

definition ok_or :: "'e \<Rightarrow> 'a option \<Rightarrow> ('a, 'e) result" where
  "ok_or e x = (case x of None \<Rightarrow> Err e | Some v \<Rightarrow> Ok v)"

text \<open>\<open>Option::unwrap_or\<close>.\<close>

definition the_default :: "'a \<Rightarrow> 'a option \<Rightarrow> 'a" where
  "the_default d x = (case x of None \<Rightarrow> d | Some v \<Rightarrow> v)"

lemma map_ok_eq_Ok [simp]: "map_ok f r = Ok y \<longleftrightarrow> (\<exists>x. r = Ok x \<and> y = f x)"
  by (cases r) auto

lemma map_err_eq_Ok [simp]: "map_err f r = Ok y \<longleftrightarrow> r = Ok y"
  by (cases r) auto

lemma and_then_eq_Ok: "and_then r f = Ok y \<longleftrightarrow> (\<exists>x. r = Ok x \<and> f x = Ok y)"
  by (cases r) auto

lemma and_then_eq_Err:
  "and_then r f = Err e \<longleftrightarrow> r = Err e \<or> (\<exists>x. r = Ok x \<and> f x = Err e)"
  by (cases r) auto

lemma unwrap_eq_Some [simp]: "unwrap r = Some x \<longleftrightarrow> r = Ok x"
  by (cases r) auto

subsection \<open>Asynchronous outcomes\<close>

text \<open>
  \<open>Ready v\<close>: the function returned \<open>v\<close>.  \<open>Pending\<close>: it still waits for its
  environment.  \<open>Panicked\<close>: the task that ran it was aborted.
\<close>

datatype 'a fut = Ready 'a | Pending | Panicked

primrec fut_bind :: "'a fut \<Rightarrow> ('a \<Rightarrow> 'b fut) \<Rightarrow> 'b fut" where
  "fut_bind (Ready x) f = f x"
| "fut_bind Pending f = Pending"
| "fut_bind Panicked f = Panicked"

definition no_panic :: "'a option \<Rightarrow> 'a fut" where
  "no_panic x = (case x of None \<Rightarrow> Panicked | Some v \<Rightarrow> Ready v)"

lemma no_panic_simps [simp]:
  "no_panic (Some v) = Ready v" "no_panic None = Panicked"
  by (simp_all add: no_panic_def)

lemma fut_bind_eq_Ready:
  "fut_bind m f = Ready y \<longleftrightarrow> (\<exists>x. m = Ready x \<and> f x = Ready y)"
  by (cases m) auto

subsection \<open>Decimal text and join\<close>

definition digit_char :: "nat \<Rightarrow> char" where
  "digit_char n = char_of (48 + n)"

fun show_nat :: "nat \<Rightarrow> string" where
  "show_nat n = (if n < 10 then [digit_char n] else show_nat (n div 10) @ [digit_char (n mod 10)])"

declare show_nat.simps [simp del]

text \<open>\<open>[String]::join\<close>.\<close>

fun join :: "string \<Rightarrow> string list \<Rightarrow> string" where
  "join sep [] = []"
| "join sep [x] = x"
| "join sep (x # y # xs) = x @ sep @ join sep (y # xs)"

text \<open>\<open>str::as_bytes\<close>, and the byte literal of an ASCII character.\<close>

definition byte_of :: "char \<Rightarrow> u8" where
  "byte_of c = word_of_nat (of_char c)"

definition as_bytes :: "string \<Rightarrow> bytes" where
  "as_bytes s = map byte_of s"

definition is_digit :: "char \<Rightarrow> bool" where
  "is_digit c \<longleftrightarrow> 48 \<le> (of_char c :: nat) \<and> (of_char c :: nat) \<le> 57"

lemma length_as_bytes [simp]: "length (as_bytes s) = length s"
  by (simp add: as_bytes_def)

lemma as_bytes_Cons [simp]: "as_bytes (c # s) = byte_of c # as_bytes s"
  by (simp add: as_bytes_def)

lemma as_bytes_Nil [simp]: "as_bytes [] = []"
  by (simp add: as_bytes_def)

lemma show_nat_digit: "n < 10 \<Longrightarrow> show_nat n = [digit_char n]"
  by (simp add: show_nat.simps)

lemma of_char_digit_char [simp]: "n < 10 \<Longrightarrow> (of_char (digit_char n) :: nat) = 48 + n"
  by (simp add: digit_char_def)

lemma is_digit_iff: "is_digit c \<longleftrightarrow> (\<exists>n<10. c = digit_char n)"
proof
  assume "is_digit c"
  then have "of_char c - 48 < (10 :: nat)" and "c = digit_char (of_char c - 48)"
    by (auto simp: is_digit_def digit_char_def)
  then show "\<exists>n<10. c = digit_char n"
    by blast
next
  assume "\<exists>n<10. c = digit_char n"
  then show "is_digit c"
    by (auto simp: is_digit_def)
qed

lemma is_digit_digit_char [simp]: "n < 10 \<Longrightarrow> is_digit (digit_char n)"
  by (auto simp: is_digit_iff)

lemma digit_char_inject [simp]:
  "m < 10 \<Longrightarrow> n < 10 \<Longrightarrow> digit_char m = digit_char n \<longleftrightarrow> m = n"
  by (metis add_left_cancel of_char_digit_char)

lemma byte_of_digit_char: "n < 10 \<Longrightarrow> byte_of (digit_char n) = 48 + word_of_nat n"
  by (simp add: byte_of_def)

text \<open>Reading decimal text back, hence that distinct numbers have distinct texts.\<close>

definition read_nat :: "string \<Rightarrow> nat" where
  "read_nat s = foldl (\<lambda>n c. 10 * n + (of_char c - 48)) 0 s"

lemma read_show_nat [simp]: "read_nat (show_nat n) = n"
proof (induction n rule: show_nat.induct)
  case (1 n)
  then show ?case
    by (subst show_nat.simps) (auto simp: read_nat_def)
qed

lemma show_nat_inject [simp]: "show_nat m = show_nat n \<longleftrightarrow> m = n"
  by (metis read_show_nat)

subsection \<open>Related lists\<close>

lemma list_all2_in_left: "list_all2 P xs ys \<Longrightarrow> x \<in> set xs \<Longrightarrow> \<exists>y \<in> set ys. P x y"
  by (induction rule: list_all2_induct) auto

lemma list_all2_in_right: "list_all2 P xs ys \<Longrightarrow> y \<in> set ys \<Longrightarrow> \<exists>x \<in> set xs. P x y"
  by (induction rule: list_all2_induct) auto

subsection \<open>Nibbles\<close>

lemma word_lt_16_bits: "(b :: u8) < 16 \<Longrightarrow> take_bit 4 b = b"
  by (simp add: word_unat_eq_iff unsigned_take_bit_eq take_bit_nat_eq_self word_less_nat_alt)

lemma low_nibble [simp]: "(b :: u8) < 16 \<Longrightarrow> (push_bit 4 a OR b) AND 15 = b"
proof -
  assume "b < 16"
  then have b: "take_bit 4 b = b"
    by (rule word_lt_16_bits)
  have "(push_bit 4 a OR b) AND 15 = take_bit 4 (push_bit 4 a OR b)"
    by (simp add: take_bit_eq_mask mask_eq_exp_minus_1)
  also have "\<dots> = b"
    by (simp add: b take_bit_or take_bit_push_bit)
  finally show ?thesis .
qed

lemma drop_nibble [simp]: "(b :: u8) < 16 \<Longrightarrow> drop_bit 4 b = 0"
  by (drule word_lt_16_bits) (metis drop_bit_take_bit diff_self_eq_0 take_bit_0)

lemma drop_push_nibble [simp]:
  assumes "(a :: u8) < 16"
  shows "drop_bit 4 (push_bit 4 a) = a"
proof (rule bit_word_eqI)
  fix n
  from assms have "bit a n \<Longrightarrow> n < 4"
    by (metis bit_take_bit_iff word_lt_16_bits)
  then show "bit (drop_bit 4 (push_bit 4 a)) n \<longleftrightarrow> bit a n"
    by (auto simp: bit_simps)
qed

lemma nibble_and_15: "(x :: u8) AND 15 < 16"
  by (rule le_less_trans [OF word_and_le1]) simp

lemma nibble_drop_4: "drop_bit 4 (x :: u8) < 16"
proof -
  have "unat (drop_bit 4 x) = unat x div 16"
    by (simp add: unat_div drop_bit_eq_div)
  also have "\<dots> < 16"
    using unsigned_less [of x, where 'a = nat] by simp
  finally show ?thesis
    by (simp add: word_less_nat_alt)
qed

lemma nibbles_join: "push_bit 4 (drop_bit 4 x) OR (x AND 15) = (x :: u8)"
proof (rule bit_word_eqI)
  fix n
  assume "n < LENGTH(8)"
  have "(15 :: u8) = mask 4"
    by (simp add: mask_eq_exp_minus_1)
  then have "bit (15 :: u8) n \<longleftrightarrow> n < 4 \<and> n < LENGTH(8)"
    by (simp only: bit_mask_iff) (auto simp: bit_simps)
  with \<open>n < LENGTH(8)\<close> show "bit (push_bit 4 (drop_bit 4 x) OR (x AND 15)) n \<longleftrightarrow> bit x n"
    by (auto simp: bit_or_iff bit_and_iff bit_push_bit_iff bit_drop_bit_eq)
qed

end
