(* ===== verification/Id_Counter.thy ===== *)
theory Id_Counter
  imports Omnipath_Prelude
begin

text \<open>
  The atomic identifier counters of \<open>utils/counter/src/lib.rs\<close>.  The macro
  \<open>define_counter!\<close> makes one type per width; here the width is the type parameter, so
  \<open>CounterU32\<close> is \<open>32 counter\<close>, and \<open>CounterU64\<close> and \<open>CounterUsize\<close> are
  \<open>64 counter\<close>.  \<open>fetch_add\<close> is one atomic step and wraps around, whatever its memory
  ordering: the sequence of values handed out by one counter does not depend on which task
  asks for them.

  The locale \<open>id_source\<close> is what the clients of a counter (TNLA associations, AMF UE
  identifiers, token identifiers) rely on; the counter is an instance of it.
\<close>

type_synonym 'w counter = "'w word"

definition counter_new :: "('w :: len) counter" where
  "counter_new = 1"

definition counter_default :: "('w :: len) counter" where [simp]:
  "counter_default = counter_new"

definition increment :: "('w :: len) counter \<Rightarrow> 'w word \<times> 'w counter" where
  "increment v = (v, v + 1)"

text \<open>The values of \<open>n\<close> successive calls, in the order of the calls.\<close>

fun take_ids :: "('g \<Rightarrow> 'i \<times> 'g) \<Rightarrow> nat \<Rightarrow> 'g \<Rightarrow> 'i list \<times> 'g" where
  "take_ids next_id 0 g = ([], g)"
| "take_ids next_id (Suc n) g =
     (let (i, g') = next_id g; (is, g'') = take_ids next_id n g' in (i # is, g''))"

subsection \<open>The interface of a source of fresh identifiers\<close>

text \<open>
  \<open>stamp\<close> orders the identifiers, \<open>clock\<close> reads how far a source has come and
  \<open>cap\<close> is how far it may go before it wraps around.
\<close>

locale id_source =
  fixes next_id :: "'g \<Rightarrow> 'i \<times> 'g"
    and stamp :: "'i \<Rightarrow> nat"
    and clock :: "'g \<Rightarrow> nat"
    and cap :: nat
  assumes stamp_next: "clock g < cap \<Longrightarrow> stamp (fst (next_id g)) = clock g"
    and clock_next: "clock g < cap \<Longrightarrow> clock (snd (next_id g)) = Suc (clock g)"
begin

lemma next_fresh:
  assumes "clock g < cap" and "\<forall>i \<in> used. stamp i < clock g"
  shows "fst (next_id g) \<notin> used"
  using assms stamp_next by fastforce

lemma used_next:
  assumes "clock g < cap" and "\<forall>i \<in> used. stamp i < clock g"
  shows "\<forall>i \<in> insert (fst (next_id g)) used. stamp i < clock (snd (next_id g))"
  using assms by (auto simp: stamp_next clock_next less_SucI)

lemma take_ids_stamps:
  assumes "clock g + n \<le> cap"
  shows "map stamp (fst (take_ids next_id n g)) = [clock g ..< clock g + n]"
  using assms
proof (induction n arbitrary: g)
  case 0
  then show ?case by simp
next
  case (Suc n)
  then have "clock g < cap" by simp
  moreover from this Suc.prems
  have "map stamp (fst (take_ids next_id n (snd (next_id g)))) = [Suc (clock g) ..< Suc (clock g) + n]"
    by (metis Suc.IH add_Suc add_Suc_right clock_next)
  ultimately show ?case
    by (simp add: split_beta stamp_next upt_conv_Cons)
qed

lemma take_ids_distinct: "clock g + n \<le> cap \<Longrightarrow> distinct (fst (take_ids next_id n g))"
  by (metis distinct_map distinct_upt take_ids_stamps)

end

lemma unat_succ:
  fixes v :: "'w::len word"
  assumes "unat v < 2 ^ LENGTH('w) - 1"
  shows "unat (v + 1) = Suc (unat v)"
  using assms by (simp add: unat_word_ariths)

interpretation ctr: id_source
  increment unat "unat :: 'w::len counter \<Rightarrow> nat" "2 ^ LENGTH('w) - 1"
  by unfold_locales (simp_all add: increment_def unat_succ)

subsection \<open>What a counter hands out\<close>

lemma take_ids_increment:
  "take_ids increment n v = (map (\<lambda>i. v + word_of_nat i) [0 ..< n], v + word_of_nat n)"
proof (induction n arbitrary: v)
  case 0
  then show ?case by simp
next
  case (Suc n)
  have "map (\<lambda>i. v + word_of_nat i) [0 ..< Suc n] =
      v # map (\<lambda>i. v + 1 + word_of_nat i) [0 ..< n]"
    by (simp add: upt_conv_Cons map_Suc_upt [symmetric] comp_def add.assoc del: upt_Suc)
  then show ?case
    by (simp add: Suc.IH increment_def [of v] add.assoc del: upt_Suc)
qed

lemma word_of_nat_inj_on: "inj_on (\<lambda>i. (v :: 'w::len word) + word_of_nat i) {0 ..< 2 ^ LENGTH('w)}"
  by (rule inj_onI) (simp add: word_of_nat_eq_iff take_bit_nat_eq_self)

text \<open>
  C26: a counter of width \<open>w\<close> hands out pairwise distinct identifiers for its first
  \<open>2 ^ w\<close> increments and no longer: the next increment repeats the first value.
\<close>

theorem counter_distinct_iff:
  "distinct (fst (take_ids increment n (counter_new :: 'w::len counter))) \<longleftrightarrow> n \<le> 2 ^ LENGTH('w)"
proof
  assume d: "distinct (fst (take_ids increment n (counter_new :: 'w counter)))"
  show "n \<le> 2 ^ LENGTH('w)"
  proof (rule ccontr)
    assume "\<not> n \<le> 2 ^ LENGTH('w)"
    then have "2 ^ LENGTH('w) < n" by simp
    then have "fst (take_ids increment n (counter_new :: 'w counter)) ! 0 =
        fst (take_ids increment n (counter_new :: 'w counter)) ! (2 ^ LENGTH('w))"
      by (simp add: take_ids_increment)
    moreover have "length (fst (take_ids increment n (counter_new :: 'w counter))) = n"
      by (simp add: take_ids_increment)
    ultimately show False
      using nth_eq_iff_index_eq [OF d, of 0 "2 ^ LENGTH('w)"] \<open>2 ^ LENGTH('w) < n\<close> by simp
  qed
next
  assume "n \<le> 2 ^ LENGTH('w)"
  then have "inj_on (\<lambda>i. (counter_new :: 'w counter) + word_of_nat i) {0 ..< n}"
    by (intro inj_on_subset [OF word_of_nat_inj_on]) auto
  then show "distinct (fst (take_ids increment n (counter_new :: 'w counter)))"
    by (simp add: take_ids_increment distinct_map)
qed

end
