(* ===== verification/Scc_Map.thy ===== *)
theory Scc_Map
  imports Omnipath_Prelude
begin

text \<open>
  The concurrent hash map of the third-party crate \<open>scc\<close>, which the context manager, the
  gNB table and the token store are built on.  Its code is not part of the repository, so the
  operations the sources call are the fields of a record that every definition using such a
  map takes as an argument, and what the crate documents of them is the locale
  \<open>scc_hash_map\<close>: a capacity is a hint, every operation takes effect atomically, \<open>insert_async\<close> refuses a key
  that is present and hands key and value back, \<open>remove_async\<close> returns what it removed,
  \<open>upsert_async\<close> overwrites and \<open>update_async\<close> changes a value only where there is one.
  \<open>entries\<close> reads the contents of a map as a partial function.
\<close>

record ('k, 'v, 'm) scc_ops =
  with_hasher :: 'm
  with_capacity_and_hasher :: "nat \<Rightarrow> 'm"
  map_len :: "'m \<Rightarrow> nat"
  insert_async :: "'k \<Rightarrow> 'v \<Rightarrow> 'm \<Rightarrow> (unit, 'k \<times> 'v) result \<times> 'm"
  remove_async :: "'k \<Rightarrow> 'm \<Rightarrow> ('k \<times> 'v) option \<times> 'm"
  read_async :: "'k \<Rightarrow> 'm \<Rightarrow> 'v option"
  contains_async :: "'k \<Rightarrow> 'm \<Rightarrow> bool"
  get_async :: "'k \<Rightarrow> 'm \<Rightarrow> 'v option"
  upsert_async :: "'k \<Rightarrow> 'v \<Rightarrow> 'm \<Rightarrow> 'm"
  update_async :: "'k \<Rightarrow> ('v \<Rightarrow> 'v) \<Rightarrow> 'm \<Rightarrow> 'm"

locale scc_hash_map =
  fixes ops :: "('k, 'v, 'm) scc_ops"
    and entries :: "'m \<Rightarrow> 'k \<Rightarrow> 'v option"
  assumes entries_new [simp]: "entries (with_hasher ops) = Map.empty"
    and entries_with_capacity [simp]: "entries (with_capacity_and_hasher ops n) = Map.empty"
    and len_eq: "map_len ops m = card (dom (entries m))"
    and insert_vacant [simp]:
      "entries m k = None \<Longrightarrow> fst (insert_async ops k v m) = Ok ()"
    and entries_insert_vacant [simp]:
      "entries m k = None \<Longrightarrow> entries (snd (insert_async ops k v m)) = (entries m)(k \<mapsto> v)"
    and insert_occupied [simp]:
      "entries m k = Some w \<Longrightarrow> fst (insert_async ops k v m) = Err (k, v)"
    and entries_insert_occupied [simp]:
      "entries m k = Some w \<Longrightarrow> entries (snd (insert_async ops k v m)) = entries m"
    and remove_fst [simp]:
      "fst (remove_async ops k m) = map_option (Pair k) (entries m k)"
    and entries_remove [simp]:
      "entries (snd (remove_async ops k m)) = (entries m)(k := None)"
    and read_eq [simp]: "read_async ops k m = entries m k"
    and contains_iff [simp]: "contains_async ops k m \<longleftrightarrow> entries m k \<noteq> None"
    and get_eq [simp]: "get_async ops k m = entries m k"
    and entries_upsert [simp]:
      "entries (upsert_async ops k v m) = (entries m)(k \<mapsto> v)"
    and entries_update [simp]:
      "entries (update_async ops k f m) = (entries m)(k := map_option f (entries m k))"
begin

lemma insert_Ok_iff: "fst (insert_async ops k v m) = Ok () \<longleftrightarrow> entries m k = None"
  by (cases "entries m k") auto

lemma dom_insert: "dom (entries (snd (insert_async ops k v m))) = insert k (dom (entries m))"
  by (cases "entries m k") auto

lemma insert_remove_roundtrip:
  assumes "entries m k = None"
  shows "entries (snd (remove_async ops k (snd (insert_async ops k v m)))) = entries m"
    and "fst (remove_async ops k (snd (insert_async ops k v m))) = Some (k, v)"
  using assms by auto

end

subsection \<open>The reference instance\<close>

text \<open>Partial functions with these operations satisfy the documented laws.\<close>

definition map_ops :: "('k, 'v, 'k \<rightharpoonup> 'v) scc_ops" where
  "map_ops = \<lparr>
     with_hasher = Map.empty,
     with_capacity_and_hasher = (\<lambda>_. Map.empty),
     map_len = (\<lambda>m. card (dom m)),
     insert_async = (\<lambda>k v m. if m k = None then (Ok (), m(k \<mapsto> v)) else (Err (k, v), m)),
     remove_async = (\<lambda>k m. (map_option (Pair k) (m k), m(k := None))),
     read_async = (\<lambda>k m. m k),
     contains_async = (\<lambda>k m. m k \<noteq> None),
     get_async = (\<lambda>k m. m k),
     upsert_async = (\<lambda>k v m. m(k \<mapsto> v)),
     update_async = (\<lambda>k f m. m(k := map_option f (m k)))\<rparr>"

interpretation map_scc: scc_hash_map map_ops "\<lambda>m. m"
  by unfold_locales (simp_all add: map_ops_def)

lemma map_ops_simps [simp]:
  "with_hasher map_ops = Map.empty" "with_capacity_and_hasher map_ops n = Map.empty"
  "map_len map_ops m = card (dom m)"
  "insert_async map_ops k v m = (if m k = None then (Ok (), m(k \<mapsto> v)) else (Err (k, v), m))"
  "remove_async map_ops k m = (map_option (Pair k) (m k), m(k := None))"
  "read_async map_ops k m = m k"
  "contains_async map_ops k m \<longleftrightarrow> m k \<noteq> None"
  "get_async map_ops k m = m k"
  "upsert_async map_ops k v m = m(k \<mapsto> v)"
  "update_async map_ops k f m = m(k := map_option f (m k))"
  by (simp_all add: map_ops_def)

end
