(* ===== verification/Context_Queue.thy ===== *)
theory Context_Queue
  imports Omnipath_Prelude
begin

text \<open>
  \<open>ngap/manager/context_queue.rs\<close>: a context behind a write lock and a queue of futures
  that one processor task awaits in order.  The first part has the struct and its methods as
  functions on it; the second part is the step relation of a queue with any number of
  clients, in which one step is what a task does between two points where it may be
  suspended.

  A queued future is a closure on the context with the one-shot channel its result goes to.
  The closure takes the write guard of the context by value and keeps it until it returns, so
  it acts on the context in one piece; \<open>None\<close> is a closure that panics.
\<close>

record ('c, 'o) job =
  ticket :: nat
  closure :: "'c \<Rightarrow> 'c \<times> 'o option"

record ('c, 'o) context_queue =
  inner :: 'c
  queue :: "('c, 'o) job list"
  processor_active :: bool

definition context_queue_new :: "'c \<Rightarrow> ('c, 'o) context_queue" where
  "context_queue_new context = \<lparr>inner = context, queue = [], processor_active = False\<rparr>"

text \<open>
  \<open>into_inner\<close> consumes a queue nobody else refers to; every queued future holds a clone of
  the \<open>Arc\<close> around the context, and then \<open>Arc::into_inner\<close> gives \<open>None\<close>.
\<close>

definition into_inner :: "('c, 'o) context_queue \<Rightarrow> 'c option" where
  "into_inner q = (if queue q = [] then Some (inner q) else None)"

text \<open>\<open>push_future\<close>: the second component says that a processor task was spawned.\<close>

definition push_future ::
  "('c, 'o) job \<Rightarrow> ('c, 'o) context_queue \<Rightarrow> ('c, 'o) context_queue \<times> bool" where
  "push_future fut q =
     (let q' = q\<lparr>queue := queue q @ [fut]\<rparr>
      in if \<not> processor_active q then (q'\<lparr>processor_active := True\<rparr>, True) else (q', False))"

text \<open>
  One turn of the loop of \<open>process_queue\<close> up to the point where the future is awaited: the
  empty queue ends the loop, otherwise the front is taken out.
\<close>

definition pop_or_stop ::
  "('c, 'o) context_queue \<Rightarrow> ('c, 'o) context_queue \<times> ('c, 'o) job option" where
  "pop_or_stop q =
     (case queue q of
        [] \<Rightarrow> (q\<lparr>processor_active := False\<rparr>, None)
      | fut # rest \<Rightarrow> (q\<lparr>queue := rest\<rparr>, Some fut))"

text \<open>
  The future built by \<open>enqueue_and_get_result\<close>: run the closure on the context and hand its
  output to the channel.
\<close>

definition run_future ::
  "('c, 'o) job \<Rightarrow> ('c, 'o) context_queue \<Rightarrow> ('c, 'o) context_queue \<times> 'o option" where
  "run_future fut q = (let (c, out) = closure fut (inner q) in (q\<lparr>inner := c\<rparr>, out))"

text \<open>
  \<open>process_queue\<close> with nobody pushing meanwhile, with what it sent on which channel.  A
  closure that panics aborts the processor task on the spot.
\<close>

function process_queue ::
  "('c, 'o) context_queue \<Rightarrow> ('c, 'o) context_queue \<times> (nat \<times> 'o) list" where
  "process_queue q =
     (case pop_or_stop q of
        (q', None) \<Rightarrow> (q', [])
      | (q', Some fut) \<Rightarrow>
          (case run_future fut q' of
             (q'', None) \<Rightarrow> (q'', [])
           | (q'', Some out) \<Rightarrow>
               (let (q3, sent) = process_queue q'' in (q3, (ticket fut, out) # sent))))"
  by pat_completeness auto
termination
  by (relation "measure (\<lambda>q. length (queue q))")
    (auto simp: pop_or_stop_def run_future_def split: list.splits prod.splits)

declare process_queue.simps [simp del]

lemma process_queue_empty:
  "queue q = [] \<Longrightarrow> process_queue q = (q\<lparr>processor_active := False\<rparr>, [])"
  by (subst process_queue.simps) (simp add: pop_or_stop_def)

lemma process_queue_front:
  "queue q = fut # rest \<Longrightarrow> process_queue q =
     (case run_future fut (q\<lparr>queue := rest\<rparr>) of
        (q', None) \<Rightarrow> (q', [])
      | (q', Some out) \<Rightarrow> (let (q2, sent) = process_queue q' in (q2, (ticket fut, out) # sent)))"
  by (subst process_queue.simps) (simp add: pop_or_stop_def)

text \<open>
  \<open>schedule_and_wait\<close> by the only client of a queue: make the future, push it, let the
  spawned processor run and take the value from the channel.  \<open>None\<close> is the panic of
  \<open>rx.await.unwrap()\<close>, or waiting for ever where no processor was spawned.
\<close>

definition schedule_and_wait ::
  "('c \<Rightarrow> 'c \<times> 'o option) \<Rightarrow> ('c, 'o) context_queue \<Rightarrow> 'o option \<times> ('c, 'o) context_queue" where
  "schedule_and_wait f q =
     (let (q', spawned) = push_future \<lparr>ticket = 0, closure = f\<rparr> q
      in if spawned then let (q'', sent) = process_queue q' in (map_of sent 0, q'')
         else (None, q'))"

subsection \<open>The queue with concurrent clients\<close>

datatype ('c, 'o) processor = LoopHead | Running "('c, 'o) job"

datatype 'o oneshot = Waiting | Sent 'o | SenderDropped

text \<open>
  \<open>queue_locked\<close> is the \<open>Mutex\<close> around the \<open>VecDeque\<close>: \<open>process_queue\<close> keeps its
  guard while it awaits the future.  \<open>pushed\<close> and \<open>finished\<close> record the jobs pushed so
  far and how many of them have run.
\<close>

record ('c, 'o) queue_sys =
  cq :: "('c, 'o) context_queue"
  processors :: "('c, 'o) processor list"
  queue_locked :: bool
  channels :: "nat \<rightharpoonup> 'o oneshot"
  pushed :: "('c, 'o) job list"
  finished :: nat
  crashed :: bool

definition queue_sys_init :: "'c \<Rightarrow> ('c, 'o) queue_sys" where
  "queue_sys_init context =
     \<lparr>cq = context_queue_new context, processors = [], queue_locked = False,
      channels = Map.empty, pushed = [], finished = 0, crashed = False\<rparr>"

inductive queue_step :: "('c, 'o) queue_sys \<Rightarrow> ('c, 'o) queue_sys \<Rightarrow> bool" where
  push: "\<lbrakk>\<not> queue_locked s; fut = \<lparr>ticket = length (pushed s), closure = f\<rparr>;
      push_future fut (cq s) = (q', spawned)\<rbrakk> \<Longrightarrow>
    queue_step s (s\<lparr>cq := q',
      processors := (if spawned then processors s @ [LoopHead] else processors s),
      channels := (channels s)(ticket fut \<mapsto> Waiting), pushed := pushed s @ [fut]\<rparr>)"
| take: "\<lbrakk>\<not> queue_locked s; processors s = ps @ LoopHead # ps';
      pop_or_stop (cq s) = (q', Some fut)\<rbrakk> \<Longrightarrow>
    queue_step s (s\<lparr>cq := q', processors := ps @ Running fut # ps', queue_locked := True\<rparr>)"
| stop: "\<lbrakk>\<not> queue_locked s; processors s = ps @ LoopHead # ps';
      pop_or_stop (cq s) = (q', None)\<rbrakk> \<Longrightarrow>
    queue_step s (s\<lparr>cq := q', processors := ps @ ps'\<rparr>)"
| finish: "\<lbrakk>processors s = ps @ Running fut # ps'; run_future fut (cq s) = (q', Some out)\<rbrakk> \<Longrightarrow>
    queue_step s (s\<lparr>cq := q', processors := ps @ LoopHead # ps', queue_locked := False,
      channels := (channels s)(ticket fut \<mapsto> Sent out), finished := Suc (finished s)\<rparr>)"
| panic: "\<lbrakk>processors s = ps @ Running fut # ps'; run_future fut (cq s) = (q', None)\<rbrakk> \<Longrightarrow>
    queue_step s (s\<lparr>cq := q', processors := ps @ ps', queue_locked := False,
      channels := (channels s)(ticket fut \<mapsto> SenderDropped), finished := Suc (finished s),
      crashed := True\<rparr>)"

inductive_cases queue_stepE: "queue_step s t"

inductive queue_reachable :: "'c \<Rightarrow> ('c, 'o) queue_sys \<Rightarrow> bool" for c0 where
  init: "queue_reachable c0 (queue_sys_init c0)"
| step: "queue_reachable c0 s \<Longrightarrow> queue_step s t \<Longrightarrow> queue_reachable c0 t"

subsection \<open>The sequential specification\<close>

text \<open>The jobs run one after the other on the context, with the output of each.\<close>

fun seq_run :: "'c \<Rightarrow> ('c, 'o) job list \<Rightarrow> 'c \<times> 'o option list" where
  "seq_run c [] = (c, [])"
| "seq_run c (j # js) =
     (let (c', out) = closure j c; (c'', outs) = seq_run c' js in (c'', out # outs))"

fun delivered :: "'o option \<Rightarrow> 'o oneshot" where
  "delivered (Some out) = Sent out"
| "delivered None = SenderDropped"

lemma length_seq_run [simp]: "length (snd (seq_run c js)) = length js"
  by (induction js arbitrary: c) (auto simp: split_beta)

lemma seq_run_snoc:
  "seq_run c (js @ [j]) =
     (fst (closure j (fst (seq_run c js))),
      snd (seq_run c js) @ [snd (closure j (fst (seq_run c js)))])"
  by (induction js arbitrary: c) (auto simp: split_beta)

subsection \<open>The invariant\<close>

fun running_jobs :: "('c, 'o) processor list \<Rightarrow> ('c, 'o) job list" where
  "running_jobs [] = []"
| "running_jobs (LoopHead # ps) = running_jobs ps"
| "running_jobs (Running fut # ps) = fut # running_jobs ps"

definition tasks_inv :: "('c, 'o) queue_sys \<Rightarrow> bool" where
  "tasks_inv s \<longleftrightarrow>
     length (processors s) \<le> 1 \<and>
     (queue_locked s \<longleftrightarrow> running_jobs (processors s) \<noteq> []) \<and>
     (processor_active (cq s) \<longleftrightarrow> processors s \<noteq> [] \<or> crashed s) \<and>
     (crashed s \<longrightarrow> processors s = []) \<and>
     (queue (cq s) \<noteq> [] \<longrightarrow> processor_active (cq s))"

definition order_inv :: "'c \<Rightarrow> ('c, 'o) queue_sys \<Rightarrow> bool" where
  "order_inv c0 s \<longleftrightarrow>
     finished s \<le> length (pushed s) \<and>
     drop (finished s) (pushed s) = running_jobs (processors s) @ queue (cq s) \<and>
     map ticket (pushed s) = [0 ..< length (pushed s)] \<and>
     inner (cq s) = fst (seq_run c0 (take (finished s) (pushed s))) \<and>
     channels s = (\<lambda>i. if i < finished s
        then Some (delivered (snd (seq_run c0 (take (finished s) (pushed s))) ! i))
        else if i < length (pushed s) then Some Waiting else None)"

definition queue_inv :: "'c \<Rightarrow> ('c, 'o) queue_sys \<Rightarrow> bool" where
  "queue_inv c0 s \<longleftrightarrow> tasks_inv s \<and> order_inv c0 s"

lemma running_jobs_append [simp]: "running_jobs (ps @ ps') = running_jobs ps @ running_jobs ps'"
  by (induction ps rule: running_jobs.induct) auto

lemma processors_singleton:
  "tasks_inv s \<Longrightarrow> processors s = ps @ p # ps' \<Longrightarrow> ps = [] \<and> ps' = []"
  by (auto simp: tasks_inv_def)

lemma queue_inv_init: "queue_inv c0 (queue_sys_init c0)"
  by (simp add: queue_inv_def tasks_inv_def order_inv_def queue_sys_init_def
      context_queue_new_def)

lemma tasks_inv_step: "queue_step s t \<Longrightarrow> tasks_inv s \<Longrightarrow> tasks_inv t"
proof (induction rule: queue_step.induct)
  case (push s fut f q' spawned)
  then show ?case
    by (auto simp: tasks_inv_def push_future_def Let_def split: if_splits)
next
  case (take s ps ps' q' fut)
  then have "ps = []" "ps' = []"
    using processors_singleton by blast+
  with take show ?case
    by (auto simp: tasks_inv_def pop_or_stop_def split: list.splits)
next
  case (stop s ps ps' q')
  then have "ps = []" "ps' = []"
    using processors_singleton by blast+
  with stop show ?case
    by (auto simp: tasks_inv_def pop_or_stop_def split: list.splits)
next
  case (finish s ps fut ps' q' out)
  then have "ps = []" "ps' = []"
    using processors_singleton by blast+
  with finish show ?case
    by (auto simp: tasks_inv_def run_future_def split: prod.splits)
next
  case (panic s ps fut ps' q')
  then have "ps = []" "ps' = []"
    using processors_singleton by blast+
  with panic show ?case
    by (auto simp: tasks_inv_def run_future_def split: prod.splits)
qed

lemma order_inv_crashed [simp]: "order_inv c0 (s\<lparr>crashed := b\<rparr>) = order_inv c0 s"
  by (simp add: order_inv_def cong: if_cong)

text \<open>Finishing the running job extends the finished prefix by that job.\<close>

lemma order_inv_finish:
  assumes "order_inv c0 s" and "processors s = [Running fut]"
    and "run_future fut (cq s) = (q', out)" and "running_jobs ps = []"
  shows "order_inv c0 (s\<lparr>cq := q', processors := ps, queue_locked := False,
      channels := (channels s)(ticket fut \<mapsto> delivered out), finished := Suc (finished s)\<rparr>)"
proof -
  let ?n = "finished s"
  from assms(1,2) have drop: "drop ?n (pushed s) = fut # queue (cq s)"
    by (simp add: order_inv_def)
  then have n: "?n < length (pushed s)" and nth: "pushed s ! ?n = fut"
    and drop': "drop (Suc ?n) (pushed s) = queue (cq s)"
    by (metis drop_eq_Nil linorder_not_le list.distinct(1), metis nth_via_drop,
        metis drop_Suc list.sel(3) tl_drop)
  from assms(1) have "map ticket (pushed s) ! ?n = [0 ..< length (pushed s)] ! ?n"
    by (simp add: order_inv_def)
  with n nth have ticket: "ticket fut = ?n"
    by simp
  have take: "take (Suc ?n) (pushed s) = take ?n (pushed s) @ [fut]"
    using n nth by (simp add: take_Suc_conv_app_nth)
  from assms(3) have q': "queue q' = queue (cq s)" "inner q' = fst (closure fut (inner (cq s)))"
    and out: "out = snd (closure fut (inner (cq s)))"
    by (auto simp: run_future_def split: prod.splits)
  show ?thesis
    using assms(1,4) n
    by (auto simp: order_inv_def drop' take seq_run_snoc q' out ticket nth_append fun_eq_iff
        less_Suc_eq min_def)
qed

lemma order_inv_step: "queue_step s t \<Longrightarrow> tasks_inv s \<Longrightarrow> order_inv c0 s \<Longrightarrow> order_inv c0 t"
proof (induction rule: queue_step.induct)
  case (push s fut f q' spawned)
  then show ?case
    by (auto simp: order_inv_def push_future_def Let_def fun_eq_iff split: if_splits)
next
  case (take s ps ps' q' fut)
  then have "ps = []" "ps' = []"
    using processors_singleton by blast+
  with take show ?case
    by (auto simp: order_inv_def pop_or_stop_def split: list.splits)
next
  case (stop s ps ps' q')
  then have "ps = []" "ps' = []"
    using processors_singleton by blast+
  with stop show ?case
    by (auto simp: order_inv_def pop_or_stop_def split: list.splits)
next
  case (finish s ps fut ps' q' out)
  then have ps: "ps = []" "ps' = []"
    using processors_singleton by blast+
  with order_inv_finish [of c0 s fut q' "Some out" "[LoopHead]"] finish show ?case
    by simp
next
  case (panic s ps fut ps' q')
  then have ps: "ps = []" "ps' = []"
    using processors_singleton by blast+
  with order_inv_finish [of c0 s fut q' None "[]"] panic show ?case
    by simp
qed

lemma queue_reachable_inv: "queue_reachable c0 s \<Longrightarrow> queue_inv c0 s"
proof (induction rule: queue_reachable.induct)
  case init
  show ?case by (rule queue_inv_init)
next
  case (step s t)
  then show ?case
    by (auto simp: queue_inv_def intro: tasks_inv_step order_inv_step)
qed

lemma reachable_tasks_inv: "queue_reachable c0 s \<Longrightarrow> tasks_inv s"
  by (drule queue_reachable_inv) (simp add: queue_inv_def)

lemma reachable_order_inv: "queue_reachable c0 s \<Longrightarrow> order_inv c0 s"
  by (drule queue_reachable_inv) (simp add: queue_inv_def)

subsection \<open>Progress\<close>

fun pending_turns :: "('c, 'o) processor \<Rightarrow> nat" where
  "pending_turns LoopHead = 1"
| "pending_turns (Running fut) = 2"

definition work :: "('c, 'o) queue_sys \<Rightarrow> nat" where
  "work s = 2 * length (queue (cq s)) + sum_list (map pending_turns (processors s))"

lemma work_decreases:
  "queue_step s t \<Longrightarrow> pushed t = pushed s \<Longrightarrow> work t < work s"
  by (erule queue_stepE)
    (auto simp: work_def pop_or_stop_def run_future_def split: list.splits prod.splits)

text \<open>The step of a given client, and the step of the processor task, as functions.\<close>

definition client_push ::
  "('c \<Rightarrow> 'c \<times> 'o option) \<Rightarrow> ('c, 'o) queue_sys \<Rightarrow> ('c, 'o) queue_sys" where
  "client_push f s =
     (let fut = \<lparr>ticket = length (pushed s), closure = f\<rparr>;
          (q', spawned) = push_future fut (cq s)
      in s\<lparr>cq := q', processors := (if spawned then processors s @ [LoopHead] else processors s),
           channels := (channels s)(ticket fut \<mapsto> Waiting), pushed := pushed s @ [fut]\<rparr>)"

definition processor_turn :: "('c, 'o) queue_sys \<Rightarrow> ('c, 'o) queue_sys" where
  "processor_turn s =
     (case processors s of
        LoopHead # ps \<Rightarrow>
          (case pop_or_stop (cq s) of
             (q', None) \<Rightarrow> s\<lparr>cq := q', processors := ps\<rparr>
           | (q', Some fut) \<Rightarrow> s\<lparr>cq := q', processors := Running fut # ps, queue_locked := True\<rparr>)
      | Running fut # ps \<Rightarrow>
          (case run_future fut (cq s) of
             (q', Some out) \<Rightarrow> s\<lparr>cq := q', processors := LoopHead # ps, queue_locked := False,
               channels := (channels s)(ticket fut \<mapsto> Sent out), finished := Suc (finished s)\<rparr>
           | (q', None) \<Rightarrow> s\<lparr>cq := q', processors := ps, queue_locked := False,
               channels := (channels s)(ticket fut \<mapsto> SenderDropped),
               finished := Suc (finished s), crashed := True\<rparr>)
      | [] \<Rightarrow> s)"

lemma client_push_step: "\<not> queue_locked s \<Longrightarrow> queue_step s (client_push f s)"
  using queue_step.push [of s "\<lparr>ticket = length (pushed s), closure = f\<rparr>" f]
  by (auto simp: client_push_def Let_def split: prod.splits)

lemma processor_turn_step:
  assumes "tasks_inv s" and "processors s \<noteq> []"
  shows "queue_step s (processor_turn s)"
proof -
  from assms obtain p where p: "processors s = [] @ p # []"
    by (cases "processors s") (auto simp: tasks_inv_def)
  show ?thesis
  proof (cases p)
    case LoopHead
    with p assms(1) have free: "\<not> queue_locked s"
      by (simp add: tasks_inv_def)
    with p LoopHead show ?thesis
      using queue_step.stop [OF free, of "[]" "[]"] queue_step.take [OF free, of "[]" "[]"]
      by (auto simp: processor_turn_def split: prod.splits option.splits)
  next
    case (Running fut)
    with p show ?thesis
      using queue_step.finish [of s "[]" fut "[]"] queue_step.panic [of s "[]" fut "[]"]
      by (auto simp: processor_turn_def split: prod.splits option.splits)
  qed
qed

lemma pushed_processor_turn [simp]: "pushed (processor_turn s) = pushed s"
  by (auto simp: processor_turn_def split: list.splits processor.splits prod.splits option.splits)

lemma reachable_client_push:
  "queue_reachable c0 s \<Longrightarrow> \<not> queue_locked s \<Longrightarrow> queue_reachable c0 (client_push f s)"
  by (rule queue_reachable.step [OF _ client_push_step])

lemma reachable_processor_turn:
  assumes "queue_reachable c0 s"
  shows "queue_reachable c0 (processor_turn s)"
proof (cases "processors s = []")
  case True
  with assms show ?thesis by (simp add: processor_turn_def)
next
  case False
  from processor_turn_step [OF reachable_tasks_inv [OF assms] False] show ?thesis
    by (rule queue_reachable.step [OF assms])
qed

lemma crashed_persists: "queue_step s t \<Longrightarrow> crashed s \<Longrightarrow> crashed t"
  by (erule queue_stepE) auto

lemma crashed_step:
  assumes "queue_step s t" and "tasks_inv s" and "crashed s"
  shows "inner (cq t) = inner (cq s)" and "finished t = finished s"
    and "channels t i = Some (Sent out) \<Longrightarrow> channels s i = Some (Sent out)"
  using assms
  by (auto elim!: queue_stepE simp: tasks_inv_def push_future_def Let_def split: if_splits)

lemma crashed_steps:
  assumes "queue_step\<^sup>*\<^sup>* s t" and "tasks_inv s" and "crashed s"
  shows "tasks_inv t \<and> crashed t \<and> inner (cq t) = inner (cq s) \<and> finished t = finished s \<and>
    (\<forall>i out. channels t i = Some (Sent out) \<longrightarrow> channels s i = Some (Sent out))"
  using assms
proof (induction rule: rtranclp_induct)
  case base
  then show ?case by simp
next
  case (step t u)
  then have "tasks_inv t" and "crashed t" and "tasks_inv u" and "crashed u"
    by (auto intro: tasks_inv_step crashed_persists)
  with step crashed_step [OF step.hyps(2)] show ?case
    by metis
qed

lemma nth_seq_run_append:
  "i < length xs \<Longrightarrow> snd (seq_run c (xs @ ys)) ! i = snd (seq_run c xs) ! i"
proof (induction xs arbitrary: c i)
  case Nil
  then show ?case by simp
next
  case (Cons x xs)
  then show ?case
    by (cases i) (auto simp: split_beta)
qed

lemma nth_seq_run_take:
  assumes "i < n" and "n \<le> length js"
  shows "snd (seq_run c (take n js)) ! i = snd (seq_run c js) ! i"
proof -
  have "js = take n js @ drop n js"
    by simp
  with assms nth_seq_run_append [of i "take n js" c "drop n js"] show ?thesis
    by (metis length_take min.absorb2)
qed

lemma nth_seq_run_total:
  assumes "\<forall>j \<in> set js. \<forall>c. snd (closure j c) \<noteq> None" and "i < length js"
  shows "\<exists>out. snd (seq_run c js) ! i = Some out"
  using assms
proof (induction js arbitrary: c i)
  case Nil
  then show ?case by simp
next
  case (Cons j js)
  then show ?case
    by (cases i) (auto simp: split_beta)
qed

subsection \<open>A small run\<close>

text \<open>
  Two jobs on a counter: the first adds one and returns the old value, the second fails.
  The states after the first has run, and after the second has.
\<close>

definition add_one :: "nat \<Rightarrow> nat \<times> nat option" where
  "add_one c = (Suc c, Some c)"

definition give_up :: "nat \<Rightarrow> nat \<times> nat option" where
  "give_up c = (c, None)"

definition demo_served :: "(nat, nat) queue_sys" where
  "demo_served = processor_turn (processor_turn
     (client_push give_up (client_push add_one (queue_sys_init 7))))"

definition demo_crashed :: "(nat, nat) queue_sys" where
  "demo_crashed = processor_turn (processor_turn demo_served)"

lemmas demo_defs = demo_served_def demo_crashed_def add_one_def give_up_def processor_turn_def
  client_push_def queue_sys_init_def context_queue_new_def push_future_def pop_or_stop_def
  run_future_def

lemma demo_served_reachable: "queue_reachable 7 demo_served"
  unfolding demo_served_def
  by (intro reachable_processor_turn reachable_client_push queue_reachable.init)
    (simp_all add: demo_defs Let_def)

lemma demo_crashed_reachable: "queue_reachable 7 demo_crashed"
  unfolding demo_crashed_def
  by (intro reachable_processor_turn demo_served_reachable)

subsection \<open>Properties of the queue\<close>

text \<open>
  C3: linearisability.  In every reachable state some number of the pushed jobs has run, in
  the order in which they were pushed and with nothing in between: the context is the one
  the sequential specification computes from the initial one, the clients of these jobs hold
  the sequential outputs, and every other client is still waiting.
\<close>

theorem queue_linearizable:
  assumes "queue_reachable c0 s"
  shows "\<exists>n \<le> length (pushed s).
    inner (cq s) = fst (seq_run c0 (take n (pushed s))) \<and>
    (\<forall>i < length (pushed s). channels s i =
       Some (if i < n then delivered (snd (seq_run c0 (pushed s)) ! i) else Waiting))"
proof -
  from reachable_order_inv [OF assms] show ?thesis
    by (intro exI [of _ "finished s"]) (auto simp: order_inv_def nth_seq_run_take)
qed

theorem queue_linearizable_witness:
  "\<exists>n \<le> length (pushed demo_served).
    inner (cq demo_served) = fst (seq_run 7 (take n (pushed demo_served))) \<and>
    (\<forall>i < length (pushed demo_served). channels demo_served i =
       Some (if i < n then delivered (snd (seq_run 7 (pushed demo_served)) ! i) else Waiting))"
  by (rule queue_linearizable [OF demo_served_reachable])

text \<open>
  C11: exclusive access.  At most one processor task exists, at most one future runs, while it
  runs the queue is locked so that no client can push (a closure that schedules on its own
  context waits for ever), and a non-empty queue always has its processor flag set.
\<close>

theorem queue_exclusive:
  assumes "queue_reachable c0 s"
  shows "length (processors s) \<le> 1 \<and> length (running_jobs (processors s)) \<le> 1 \<and>
    (running_jobs (processors s) \<noteq> [] \<longrightarrow> (\<forall>t. queue_step s t \<longrightarrow> pushed t = pushed s)) \<and>
    (queue (cq s) \<noteq> [] \<longrightarrow> processor_active (cq s))"
proof -
  note inv = reachable_tasks_inv [OF assms]
  have "length (running_jobs ps) \<le> length ps" for ps :: "('a, 'b) processor list"
    by (induction ps rule: running_jobs.induct) auto
  from this [of "processors s"] inv show ?thesis
    by (auto simp: tasks_inv_def elim: queue_stepE)
qed

theorem queue_exclusive_witness:
  "queue (cq demo_served) \<noteq> [] \<and> processor_active (cq demo_served) \<and>
   length (processors demo_served) \<le> 1"
  using queue_exclusive [OF demo_served_reachable] by (simp add: demo_defs Let_def)

text \<open>
  C10: the queue drains.  A step that is not a push strictly decreases the remaining work, so
  the processor cannot run for ever without new jobs; and when nothing but a push is possible
  and no closure panicked, the queue is empty and every client has been sent its output.
\<close>

theorem queue_drains:
  assumes "queue_reachable c0 s"
  shows "(\<forall>t. queue_step s t \<and> pushed t = pushed s \<longrightarrow> work t < work s) \<and>
    ((\<nexists>t. queue_step s t \<and> pushed t = pushed s) \<and>
     (\<forall>j \<in> set (pushed s). \<forall>c. snd (closure j c) \<noteq> None) \<and> \<not> crashed s \<longrightarrow>
       queue (cq s) = [] \<and> \<not> processor_active (cq s) \<and>
       (\<forall>i < length (pushed s). \<exists>out. channels s i = Some (Sent out)))"
proof (intro conjI allI impI)
  show "queue_step s t \<and> pushed t = pushed s \<Longrightarrow> work t < work s" for t
    using work_decreases by blast
next
  assume stuck: "(\<nexists>t. queue_step s t \<and> pushed t = pushed s) \<and>
     (\<forall>j \<in> set (pushed s). \<forall>c. snd (closure j c) \<noteq> None) \<and> \<not> crashed s"
  note inv = reachable_tasks_inv [OF assms] reachable_order_inv [OF assms]
  from stuck processor_turn_step [OF inv(1)] have idle: "processors s = []"
    using pushed_processor_turn by blast
  with stuck inv(1) show q: "queue (cq s) = []" and "\<not> processor_active (cq s)"
    by (auto simp: tasks_inv_def)
  from q idle inv(2) have all: "finished s = length (pushed s)"
    by (simp add: order_inv_def)
  fix i
  assume "i < length (pushed s)"
  with stuck nth_seq_run_total [of "pushed s" i c0] all inv(2)
  show "\<exists>out. channels s i = Some (Sent out)"
    by (auto simp: order_inv_def)
qed

theorem queue_drains_witness:
  "queue_reachable 7 demo_served \<and> work (processor_turn demo_served) < work demo_served"
proof
  show reach: "queue_reachable 7 demo_served"
    by (rule demo_served_reachable)
  have "queue_step demo_served (processor_turn demo_served)"
    by (rule processor_turn_step [OF reachable_tasks_inv [OF reach]])
      (simp add: demo_defs Let_def)
  then show "work (processor_turn demo_served) < work demo_served"
    using queue_drains [OF reach] by simp
qed

text \<open>
  C27: a panic wedges the queue.  Once a queued closure has panicked, the processor task is
  gone while \<open>processor_active\<close> stays set: whatever is pushed later, no job ever runs
  again and no further client is ever sent an output.
\<close>

theorem queue_wedged_after_panic:
  assumes "queue_reachable c0 s" and "crashed s" and "queue_step\<^sup>*\<^sup>* s t"
  shows "inner (cq t) = inner (cq s) \<and> finished t = finished s \<and> processors t = [] \<and>
    (\<forall>i out. channels t i = Some (Sent out) \<longrightarrow> channels s i = Some (Sent out))"
proof -
  from crashed_steps [OF assms(3) reachable_tasks_inv [OF assms(1)] assms(2)] show ?thesis
    by (auto simp: tasks_inv_def)
qed

theorem queue_wedged_after_panic_witness:
  "crashed demo_crashed \<and> pushed (client_push add_one demo_crashed) \<noteq> pushed demo_crashed \<and>
   finished (client_push add_one demo_crashed) = finished demo_crashed \<and>
   processors (client_push add_one demo_crashed) = []"
proof -
  have c: "crashed demo_crashed"
    by (simp add: demo_defs Let_def)
  have "queue_step\<^sup>*\<^sup>* demo_crashed (client_push add_one demo_crashed)"
    by (intro r_into_rtranclp client_push_step) (simp add: demo_defs Let_def)
  from queue_wedged_after_panic [OF demo_crashed_reachable c this] c show ?thesis
    by (simp add: client_push_def split_beta Let_def)
qed

subsection \<open>A queue with one client at a time\<close>

text \<open>
  The contract the context manager relies on: a cell that runs a closure on its value and
  hands back the closure's output.
\<close>

locale serial_cell =
  fixes cell_new :: "'c \<Rightarrow> 'q"
    and cell_run :: "('c \<Rightarrow> 'c \<times> 'o option) \<Rightarrow> 'q \<Rightarrow> 'o option \<times> 'q"
    and cell_value :: "'q \<Rightarrow> 'c"
    and idle :: "'q \<Rightarrow> bool"
  assumes value_new [simp]: "cell_value (cell_new c) = c"
    and idle_new [simp]: "idle (cell_new c)"
    and run_output [simp]: "idle q \<Longrightarrow> fst (cell_run f q) = snd (f (cell_value q))"
    and value_run [simp]: "idle q \<Longrightarrow> cell_value (snd (cell_run f q)) = fst (f (cell_value q))"
    and idle_run [simp]: "idle q \<Longrightarrow> idle (snd (cell_run f q)) \<longleftrightarrow> snd (f (cell_value q)) \<noteq> None"

definition queue_idle :: "('c, 'o) context_queue \<Rightarrow> bool" where
  "queue_idle q \<longleftrightarrow> queue q = [] \<and> \<not> processor_active q"

lemma schedule_and_wait_eq:
  assumes "queue_idle q"
  shows "schedule_and_wait f q =
    (case f (inner q) of
       (c, Some out) \<Rightarrow> (Some out, q\<lparr>inner := c\<rparr>)
     | (c, None) \<Rightarrow> (None, q\<lparr>inner := c, processor_active := True\<rparr>))"
  using assms
  by (cases q) (auto simp: schedule_and_wait_def push_future_def pop_or_stop_def run_future_def
      queue_idle_def process_queue_empty process_queue_front split: prod.splits option.splits)

interpretation ctx_cell: serial_cell context_queue_new schedule_and_wait inner queue_idle
proof unfold_locales
  show "inner (context_queue_new c) = c" and "queue_idle (context_queue_new c)" for c :: 'c
    by (simp_all add: context_queue_new_def queue_idle_def)
  fix q :: "('c, 'o) context_queue" and f
  assume idle: "queue_idle q"
  then show "fst (schedule_and_wait f q) = snd (f (inner q))"
    and "inner (snd (schedule_and_wait f q)) = fst (f (inner q))"
    and "queue_idle (snd (schedule_and_wait f q)) \<longleftrightarrow> snd (f (inner q)) \<noteq> None"
    by (auto simp: schedule_and_wait_eq queue_idle_def split: prod.splits option.splits)
qed

end
