(* ===== verification/Context_Manager.thy ===== *)
theory Context_Manager
  imports Scc_Map Context_Queue
begin

text \<open>
  \<open>ngap/manager/context_manager.rs\<close>: a table of context queues keyed by the identity of the
  context.  The map stores \<open>Arc\<close>s, so a queue is an address in the store \<open>arcs\<close> and
  renaming a context moves its address.  \<open>ops\<close> are the operations of the concurrent hash
  map and \<open>ident\<close> is the method \<open>id\<close> of the trait \<open>Identifiable\<close>.

  A method that panics returns \<open>None\<close>; the state is then the one the panic leaves behind.
\<close>

datatype context_change_error = OldIdNotFound | NewIdAlreadyExists

datatype ('i, 'c) context_error =
    ContextAlreadyExists 'i 'c
  | ContextNotFound 'i
  | ContextChangeError context_change_error 'i 'i

record ('c, 'o, 'm) context_manager =
  queues :: 'm
  arcs :: "nat \<rightharpoonup> ('c, 'o) context_queue"
  next_arc :: nat

definition context_manager_new :: "('i, nat, 'm) scc_ops \<Rightarrow> ('c, 'o, 'm) context_manager" where
  "context_manager_new ops = \<lparr>queues = with_hasher ops, arcs = Map.empty, next_arc = 0\<rparr>"

definition with_capacity :: "('i, nat, 'm) scc_ops \<Rightarrow> nat \<Rightarrow> ('c, 'o, 'm) context_manager" where
  "with_capacity ops capacity =
     \<lparr>queues = with_capacity_and_hasher ops capacity, arcs = Map.empty, next_arc = 0\<rparr>"

text \<open>The \<open>Debug\<close> output shows the number of elements.\<close>

definition context_manager_fmt :: "('i, nat, 'm) scc_ops \<Rightarrow> ('c, 'o, 'm) context_manager \<Rightarrow> string" where
  "context_manager_fmt ops m =
     ''ContextManager { Number of elements: '' @ show_nat (map_len ops (queues m)) @ '' }''"

text \<open>\<open>Arc::into_inner\<close> succeeds for the last strong reference only.\<close>

definition arc_into_inner :: "nat \<Rightarrow> 'a \<Rightarrow> 'a option" where
  "arc_into_inner strong_count x = (if strong_count = 1 then Some x else None)"

text \<open>
  \<open>add_context\<close>.  When the insertion is refused, two strong references to the new queue
  exist: the one the map hands back and the local binding that was cloned for the call, which
  lives until the function returns.  \<open>Arc::into_inner(queue).unwrap()\<close> therefore sees a
  count of two.
\<close>

definition add_context ::
  "('i, nat, 'm) scc_ops \<Rightarrow> ('c \<Rightarrow> 'i) \<Rightarrow> 'c \<Rightarrow> ('c, 'o, 'm) context_manager \<Rightarrow>
     (unit, ('i, 'c) context_error) result option \<times> ('c, 'o, 'm) context_manager" where
  "add_context ops ident context m =
     (let ctx_id = ident context;
          queue = context_queue_new context;
          a = next_arc m
      in case insert_async ops ctx_id a (queues m) of
           (Ok _, qs) \<Rightarrow>
             (Some (Ok ()), m\<lparr>queues := qs, arcs := (arcs m)(a \<mapsto> queue), next_arc := Suc a\<rparr>)
         | (Err (ctx_id, _), qs) \<Rightarrow>
             (do {
                ctx_queue_inner \<leftarrow> arc_into_inner 2 queue;
                inner \<leftarrow> into_inner ctx_queue_inner;
                Some (Err (ContextAlreadyExists ctx_id inner))
              }, m\<lparr>queues := qs\<rparr>))"

text \<open>
  \<open>change_id\<close> makes up to three separate operations on the map; between them other tasks
  may run.  They are named so that interleavings can be stated.
\<close>

definition change_remove ::
  "('i, nat, 'm) scc_ops \<Rightarrow> 'i \<Rightarrow> ('c, 'o, 'm) context_manager \<Rightarrow>
     nat option \<times> ('c, 'o, 'm) context_manager" where
  "change_remove ops old_id m =
     (case remove_async ops old_id (queues m) of
        (r, qs) \<Rightarrow> (map_option snd r, m\<lparr>queues := qs\<rparr>))"

definition change_insert ::
  "('i, nat, 'm) scc_ops \<Rightarrow> 'i \<Rightarrow> nat \<Rightarrow> ('c, 'o, 'm) context_manager \<Rightarrow>
     (unit, 'i \<times> nat) result \<times> ('c, 'o, 'm) context_manager" where
  "change_insert ops new_id element_queue m =
     (case insert_async ops new_id element_queue (queues m) of
        (r, qs) \<Rightarrow> (r, m\<lparr>queues := qs\<rparr>))"

definition change_id ::
  "('i, nat, 'm) scc_ops \<Rightarrow> 'i \<Rightarrow> 'i \<Rightarrow> ('c, 'o, 'm) context_manager \<Rightarrow>
     (unit, ('i, 'c) context_error) result \<times> ('c, 'o, 'm) context_manager" where
  "change_id ops old_id new_id m =
     (case change_remove ops old_id m of
        (Some element_queue, m1) \<Rightarrow>
          (case change_insert ops new_id element_queue m1 of
             (Ok _, m2) \<Rightarrow> (Ok (), m2)
           | (Err (new_id, element_queue), m2) \<Rightarrow>
               (let (_, m3) = change_insert ops old_id element_queue m2
                in (Err (ContextChangeError NewIdAlreadyExists old_id new_id), m3)))
      | (None, m1) \<Rightarrow> (Err (ContextChangeError OldIdNotFound old_id new_id), m1))"

definition contains_context ::
  "('i, nat, 'm) scc_ops \<Rightarrow> 'i \<Rightarrow> ('c, 'o, 'm) context_manager \<Rightarrow> bool" where
  "contains_context ops ctx_id m = contains_async ops ctx_id (queues m)"

text \<open>
  \<open>with_context\<close>: look the queue up, then schedule the closure on it.  An address in the
  map always has its queue in the store (\<open>manager_inv\<close> below).
\<close>

definition with_context ::
  "('i, nat, 'm) scc_ops \<Rightarrow> 'i \<Rightarrow> ('c \<Rightarrow> 'c \<times> 'o option) \<Rightarrow> ('c, 'o, 'm) context_manager \<Rightarrow>
     ('o, ('i, 'c) context_error) result option \<times> ('c, 'o, 'm) context_manager" where
  "with_context ops ctx_id f m =
     (case read_async ops ctx_id (queues m) of
        Some a \<Rightarrow>
          (case arcs m a of
             Some q \<Rightarrow>
               (let (out, q') = schedule_and_wait f q
                in (map_option Ok out, m\<lparr>arcs := (arcs m)(a \<mapsto> q')\<rparr>))
           | None \<Rightarrow> (None, m))
      | None \<Rightarrow> (Some (Err (ContextNotFound ctx_id)), m))"

subsection \<open>The table of contexts a manager stands for\<close>

definition contexts ::
  "('m \<Rightarrow> 'i \<Rightarrow> nat option) \<Rightarrow> ('c, 'o, 'm) context_manager \<Rightarrow> 'i \<Rightarrow> 'c option" where
  "contexts entries m i = Option.bind (entries (queues m) i) (\<lambda>a. map_option inner (arcs m a))"

text \<open>
  Every address in the map is allocated, no two identities share one, and every queue in the
  store is idle.
\<close>

definition manager_inv :: "('m \<Rightarrow> 'i \<Rightarrow> nat option) \<Rightarrow> ('c, 'o, 'm) context_manager \<Rightarrow> bool" where
  "manager_inv entries m \<longleftrightarrow>
     (\<forall>i a. entries (queues m) i = Some a \<longrightarrow> (\<exists>q. arcs m a = Some q)) \<and>
     (\<forall>i j a. entries (queues m) i = Some a \<and> entries (queues m) j = Some a \<longrightarrow> i = j) \<and>
     (\<forall>a q. arcs m a = Some q \<longrightarrow> a < next_arc m \<and> queue_idle q)"

lemma contexts_None_iff:
  "manager_inv entries m \<Longrightarrow> contexts entries m i = None \<longleftrightarrow> entries (queues m) i = None"
  by (cases "entries (queues m) i") (fastforce simp: contexts_def manager_inv_def)+

text \<open>The manager over any concurrent map that keeps the documented laws.\<close>

locale arc_table = scc_hash_map ops entries
  for ops :: "('i, nat, 'm) scc_ops" and entries :: "'m \<Rightarrow> 'i \<Rightarrow> nat option"
begin

lemma manager_inv_new: "manager_inv entries (context_manager_new ops)"
  by (simp add: manager_inv_def context_manager_new_def)

text \<open>A capacity makes no difference, and the output counts the contexts.\<close>

lemma with_capacity_empty:
  "manager_inv entries (with_capacity ops n)"
  "contexts entries (with_capacity ops n) = contexts entries (context_manager_new ops)"
  by (simp_all add: fun_eq_iff manager_inv_def contexts_def with_capacity_def context_manager_new_def)

lemma context_manager_fmt_counts:
  assumes "manager_inv entries m"
  shows "context_manager_fmt ops m =
    ''ContextManager { Number of elements: '' @ show_nat (card (dom (contexts entries m))) @ '' }''"
proof -
  have "dom (contexts entries m) = dom (entries (queues m))"
    unfolding dom_def using contexts_None_iff [OF assms] by simp
  then show ?thesis
    by (simp add: context_manager_fmt_def len_eq)
qed

lemma add_context_vacant:
  assumes "manager_inv entries m" and "contexts entries m (ident c) = None"
  shows "fst (add_context ops ident c m) = Some (Ok ())"
    and "contexts entries (snd (add_context ops ident c m)) = (contexts entries m)(ident c \<mapsto> c)"
    and "manager_inv entries (snd (add_context ops ident c m))"
proof -
  let ?a = "next_arc m"
  obtain r qs where ins: "insert_async ops (ident c) ?a (queues m) = (r, qs)"
    by force
  from assms have vac: "entries (queues m) (ident c) = None"
    by (simp add: contexts_None_iff)
  with ins have r: "r = Ok ()" and qs: "entries qs = (entries (queues m))(ident c \<mapsto> ?a)"
    using insert_vacant entries_insert_vacant by (metis fst_conv, metis snd_conv)
  have fresh: "entries (queues m) i \<noteq> Some ?a" for i
    using assms(1) by (fastforce simp: manager_inv_def)
  show "fst (add_context ops ident c m) = Some (Ok ())"
    by (simp add: add_context_def Let_def ins r)
  show "contexts entries (snd (add_context ops ident c m)) = (contexts entries m)(ident c \<mapsto> c)"
    using fresh
    by (auto simp: add_context_def Let_def ins r qs contexts_def fun_eq_iff context_queue_new_def
        split: bind_splits)
  show "manager_inv entries (snd (add_context ops ident c m))"
    using assms(1) fresh
    by (auto simp: add_context_def Let_def ins r qs manager_inv_def context_queue_new_def
        queue_idle_def less_SucI split: if_splits)
qed

lemma add_context_occupied:
  assumes "manager_inv entries m" and "contexts entries m (ident c) = Some c'"
  shows "fst (add_context ops ident c m) = None"
    and "contexts entries (snd (add_context ops ident c m)) = contexts entries m"
    and "manager_inv entries (snd (add_context ops ident c m))"
proof -
  obtain r qs where ins: "insert_async ops (ident c) (next_arc m) (queues m) = (r, qs)"
    by force
  from assms obtain a where occ: "entries (queues m) (ident c) = Some a"
    by (auto simp: contexts_def bind_eq_Some_conv)
  with ins have r: "r = Err (ident c, next_arc m)" and qs: "entries qs = entries (queues m)"
    using insert_occupied entries_insert_occupied by (metis fst_conv, metis snd_conv)
  show "fst (add_context ops ident c m) = None"
    by (simp add: add_context_def Let_def ins r arc_into_inner_def)
  show "contexts entries (snd (add_context ops ident c m)) = contexts entries m"
    by (simp add: add_context_def Let_def ins r qs contexts_def fun_eq_iff)
  show "manager_inv entries (snd (add_context ops ident c m))"
    using assms(1) by (simp add: add_context_def Let_def ins r qs manager_inv_def)
qed

lemma change_remove_simps:
  "fst (change_remove ops i m) = entries (queues m) i"
  "entries (queues (snd (change_remove ops i m))) = (entries (queues m))(i := None)"
  "arcs (snd (change_remove ops i m)) = arcs m"
  "next_arc (snd (change_remove ops i m)) = next_arc m"
  by (simp_all add: change_remove_def split_beta option.map_comp comp_def option.map_ident)

lemma change_insert_vacant:
  assumes "entries (queues m) i = None"
  shows "fst (change_insert ops i a m) = Ok ()"
    and "entries (queues (snd (change_insert ops i a m))) = (entries (queues m))(i \<mapsto> a)"
  using assms by (simp_all add: change_insert_def split_beta)

lemma change_insert_occupied:
  assumes "entries (queues m) i = Some b"
  shows "fst (change_insert ops i a m) = Err (i, a)"
    and "entries (queues (snd (change_insert ops i a m))) = entries (queues m)"
  using assms by (simp_all add: change_insert_def split_beta)

lemma change_insert_frame:
  "arcs (snd (change_insert ops i a m)) = arcs m"
  "next_arc (snd (change_insert ops i a m)) = next_arc m"
  by (simp_all add: change_insert_def split_beta)

lemmas change_simps = change_remove_simps change_insert_vacant change_insert_occupied
  change_insert_frame

lemma change_id_unknown:
  assumes "entries (queues m) old = None"
  shows "fst (change_id ops old new m) = Err (ContextChangeError OldIdNotFound old new)"
    and "entries (queues (snd (change_id ops old new m))) = entries (queues m)"
  using assms by (auto simp: change_id_def split_beta change_simps split: option.splits)

lemma change_id_taken:
  assumes "entries (queues m) old = Some a" and "entries (queues m) new = Some b" and "old \<noteq> new"
  shows "fst (change_id ops old new m) = Err (ContextChangeError NewIdAlreadyExists old new)"
    and "entries (queues (snd (change_id ops old new m))) = entries (queues m)"
  using assms
  by (auto simp: change_id_def split_beta change_simps fun_upd_idem_iff fun_eq_iff
      split: option.splits)

lemma change_id_moved:
  assumes "entries (queues m) old = Some a" and "old = new \<or> entries (queues m) new = None"
  shows "fst (change_id ops old new m) = Ok ()"
    and "entries (queues (snd (change_id ops old new m))) =
      (entries (queues m))(old := None, new \<mapsto> a)"
proof -
  have vac: "entries (queues (snd (change_remove ops old m))) new = None"
    using assms by (auto simp: change_simps)
  note ins = change_insert_vacant [OF vac, of a]
  show "fst (change_id ops old new m) = Ok ()"
    and "entries (queues (snd (change_id ops old new m))) =
      (entries (queues m))(old := None, new \<mapsto> a)"
    using assms ins by (auto simp: change_id_def split_beta change_simps)
qed

lemma change_id_frame:
  "arcs (snd (change_id ops old new m)) = arcs m"
  "next_arc (snd (change_id ops old new m)) = next_arc m"
  by (auto simp: change_id_def split_beta change_simps split: option.splits result.splits)

lemma with_context_unknown:
  assumes "contexts entries m i = None" and "manager_inv entries m"
  shows "with_context ops i f m = (Some (Err (ContextNotFound i)), m)"
  using assms by (simp add: with_context_def contexts_None_iff)

lemma with_context_known:
  assumes "contexts entries m i = Some c" and "manager_inv entries m"
  shows "fst (with_context ops i f m) = map_option Ok (snd (f c))"
    and "contexts entries (snd (with_context ops i f m)) = (contexts entries m)(i \<mapsto> fst (f c))"
    and "snd (f c) \<noteq> None \<Longrightarrow> manager_inv entries (snd (with_context ops i f m))"
proof -
  from assms(1) obtain a q where e: "entries (queues m) i = Some a" and q: "arcs m a = Some q"
    and c: "inner q = c"
    by (auto simp: contexts_def bind_eq_Some_conv)
  from assms(2) q have idle: "queue_idle q" and below: "a < next_arc m"
    by (auto simp: manager_inv_def)
  from assms(2) e have inj: "j \<noteq> i \<Longrightarrow> entries (queues m) j \<noteq> Some a" for j
    by (auto simp: manager_inv_def)
  have eq: "with_context ops i f m =
      (map_option Ok (snd (f c)), m\<lparr>arcs := (arcs m)(a \<mapsto> snd (schedule_and_wait f q))\<rparr>)"
    using e q c idle by (simp add: with_context_def split_beta)
  show "fst (with_context ops i f m) = map_option Ok (snd (f c))"
    by (simp add: eq)
  show "contexts entries (snd (with_context ops i f m)) = (contexts entries m)(i \<mapsto> fst (f c))"
  proof
    fix j
    show "contexts entries (snd (with_context ops i f m)) j =
        ((contexts entries m)(i \<mapsto> fst (f c))) j"
      using e idle c inj [of j] by (cases "j = i") (auto simp: eq contexts_def split: bind_splits)
  qed
  show "manager_inv entries (snd (with_context ops i f m))" if "snd (f c) \<noteq> None"
    using assms(2) that idle below c by (fastforce simp: eq manager_inv_def split: if_splits)
qed

lemma change_id_entries:
  "entries (queues (snd (change_id ops old new m))) =
     (case entries (queues m) old of
        None \<Rightarrow> entries (queues m)
      | Some a \<Rightarrow> if old \<noteq> new \<and> entries (queues m) new \<noteq> None then entries (queues m)
          else (entries (queues m))(old := None, new \<mapsto> a))"
proof (cases "entries (queues m) old")
  case None
  then show ?thesis
    by (simp add: change_id_unknown)
next
  case (Some a)
  show ?thesis
  proof (cases "old \<noteq> new \<and> entries (queues m) new \<noteq> None")
    case True
    with Some show ?thesis
      by (auto simp: change_id_taken)
  next
    case False
    with Some change_id_moved(2) [of m old a new] show ?thesis
      by auto
  qed
qed

lemma change_id_inv:
  assumes "manager_inv entries m"
  shows "manager_inv entries (snd (change_id ops old new m))"
  using assms
  by (fastforce simp: manager_inv_def change_id_entries change_id_frame
      split: option.splits if_splits)

lemma change_id_contexts:
  assumes "manager_inv entries m"
  shows "contexts entries (snd (change_id ops old new m)) =
     (case contexts entries m old of
        None \<Rightarrow> contexts entries m
      | Some c \<Rightarrow> if old \<noteq> new \<and> contexts entries m new \<noteq> None then contexts entries m
          else (contexts entries m)(old := None, new \<mapsto> c))"
proof (cases "entries (queues m) old")
  case None
  with assms show ?thesis
    by (auto simp: contexts_def change_id_entries change_id_frame)
next
  case (Some a)
  with assms obtain q where "arcs m a = Some q"
    unfolding manager_inv_def by blast
  with Some assms contexts_None_iff [OF assms, of new] show ?thesis
    by (auto simp: contexts_def change_id_entries change_id_frame fun_eq_iff)
qed

end

interpretation map_arcs: arc_table map_ops "\<lambda>m. m"
  by unfold_locales

subsection \<open>Sequences of operations and the abstract table\<close>

datatype ('i, 'c, 'o) manager_op =
    Add 'c
  | Change 'i 'i
  | With 'i "'c \<Rightarrow> 'c \<times> 'o option"

fun manager_exec ::
  "('i, nat, 'm) scc_ops \<Rightarrow> ('c \<Rightarrow> 'i) \<Rightarrow> ('i, 'c, 'o) manager_op \<Rightarrow>
     ('c, 'o, 'm) context_manager \<Rightarrow> ('c, 'o, 'm) context_manager" where
  "manager_exec ops ident (Add c) m = snd (add_context ops ident c m)"
| "manager_exec ops ident (Change old new) m = snd (change_id ops old new m)"
| "manager_exec ops ident (With i f) m = snd (with_context ops i f m)"

text \<open>What an operation does to a table from identities to contexts.\<close>

fun table_exec ::
  "('c \<Rightarrow> 'i) \<Rightarrow> ('i, 'c, 'o) manager_op \<Rightarrow> ('i \<Rightarrow> 'c option) \<Rightarrow> ('i \<Rightarrow> 'c option)" where
  "table_exec ident (Add c) t = (if t (ident c) = None then t(ident c \<mapsto> c) else t)"
| "table_exec ident (Change old new) t =
     (case t old of
        None \<Rightarrow> t
      | Some c \<Rightarrow> if old \<noteq> new \<and> t new \<noteq> None then t else t(old := None, new \<mapsto> c))"
| "table_exec ident (With i f) t = (case t i of None \<Rightarrow> t | Some c \<Rightarrow> t(i \<mapsto> fst (f c)))"

fun op_total :: "('i, 'c, 'o) manager_op \<Rightarrow> bool" where
  "op_total (With i f) \<longleftrightarrow> (\<forall>c. snd (f c) \<noteq> None)"
| "op_total _ \<longleftrightarrow> True"

context arc_table
begin

lemma manager_exec_refines:
  assumes "manager_inv entries m" and "op_total cmd"
  shows "contexts entries (manager_exec ops ident cmd m) =
      table_exec ident cmd (contexts entries m) \<and>
    manager_inv entries (manager_exec ops ident cmd m)"
proof (cases cmd)
  case (Add c)
  with assms(1) show ?thesis
    by (cases "contexts entries m (ident c)") (simp_all add: add_context_vacant add_context_occupied)
next
  case (Change old new)
  with assms(1) show ?thesis
    by (auto simp: change_id_contexts change_id_inv)
next
  case (With i f)
  with assms show ?thesis
    by (cases "contexts entries m i") (simp_all add: with_context_unknown with_context_known)
qed

lemma manager_run_refines:
  assumes "manager_inv entries m" and "list_all op_total cmds"
  shows "contexts entries (fold (manager_exec ops ident) cmds m) =
      fold (table_exec ident) cmds (contexts entries m) \<and>
    manager_inv entries (fold (manager_exec ops ident) cmds m)"
  using assms
proof (induction cmds arbitrary: m)
  case Nil
  then show ?case by simp
next
  case (Cons cmd cmds)
  then show ?case
    using manager_exec_refines [of m cmd ident] by simp
qed

end

subsection \<open>Properties of the manager\<close>

text \<open>A manager with the contexts 5 and 6, which are their own identities.\<close>

definition demo_manager :: "(nat, nat, nat \<rightharpoonup> nat) context_manager" where
  "demo_manager = fold (manager_exec map_ops (\<lambda>c. c)) [Add 5, Add 6] (context_manager_new map_ops)"

lemma demo_manager_eq:
  "demo_manager = \<lparr>queues = [5 \<mapsto> 0, 6 \<mapsto> 1],
     arcs = [0 \<mapsto> context_queue_new 5, 1 \<mapsto> context_queue_new 6], next_arc = 2\<rparr>"
  by (simp add: demo_manager_def context_manager_new_def add_context_def Let_def)

lemma demo_manager_inv: "manager_inv (\<lambda>m. m) demo_manager"
  unfolding demo_manager_def
  by (rule map_arcs.manager_run_refines [THEN conjunct2]) (simp_all add: map_arcs.manager_inv_new)

lemma demo_manager_contexts: "contexts (\<lambda>m. m) demo_manager = [5 \<mapsto> 5, 6 \<mapsto> 6]"
  by (auto simp: demo_manager_eq contexts_def fun_eq_iff context_queue_new_def)

text \<open>
  C4: refinement.  Any sequence of \<open>add_context\<close>, \<open>change_id\<close> and \<open>with_context\<close> calls
  acts on the manager as the abstract table of contexts says, and keeps the store well
  formed, whatever the concurrent map behind it, as long as no closure panics.
\<close>

theorem manager_refines_table:
  assumes "scc_hash_map ops entries" and "manager_inv entries m" and "list_all op_total cmds"
  shows "contexts entries (fold (manager_exec ops ident) cmds m) =
      fold (table_exec ident) cmds (contexts entries m) \<and>
    manager_inv entries (fold (manager_exec ops ident) cmds m)"
  by (rule arc_table.manager_run_refines [OF arc_table.intro [OF assms(1)] assms(2,3)])

theorem manager_refines_table_witness:
  "contexts (\<lambda>m. m) (fold (manager_exec map_ops (\<lambda>c. c)) [Change 5 9, With 9 add_one] demo_manager) =
     [6 \<mapsto> 6, 9 \<mapsto> 6]"
proof -
  have total: "list_all op_total [Change 5 9, With 9 add_one]"
    by (simp add: add_one_def)
  from manager_refines_table [OF map_scc.scc_hash_map_axioms demo_manager_inv total, of "\<lambda>c. c"]
  show ?thesis
    by (auto simp: demo_manager_contexts add_one_def fun_eq_iff)
qed

text \<open>
  \<open>add_context\<close> adds a context whose identity is free.  When the identity is taken it
  does not return \<open>ContextAlreadyExists\<close>: the table is left as it was and the call panics,
  because the new queue is still referred to by the local binding when it is unwrapped.
\<close>

theorem add_context_outcome:
  assumes "scc_hash_map ops entries" and "manager_inv entries m"
  shows "fst (add_context ops ident c m) =
      (if contexts entries m (ident c) = None then Some (Ok ()) else None) \<and>
    contexts entries (snd (add_context ops ident c m)) =
      (if contexts entries m (ident c) = None then (contexts entries m)(ident c \<mapsto> c)
       else contexts entries m)"
  using arc_table.add_context_vacant [OF arc_table.intro [OF assms(1)] assms(2)]
    arc_table.add_context_occupied [OF arc_table.intro [OF assms(1)] assms(2)]
  by auto

theorem add_context_outcome_witness:
  "fst (add_context map_ops (\<lambda>c. c) 7 demo_manager) = Some (Ok ()) \<and>
   fst (add_context map_ops (\<lambda>c. c) 5 demo_manager) = None"
  using add_context_outcome [OF map_scc.scc_hash_map_axioms demo_manager_inv, of "\<lambda>c. c" 7]
    add_context_outcome [OF map_scc.scc_hash_map_axioms demo_manager_inv, of "\<lambda>c. c" 5]
  by (simp add: demo_manager_contexts)

text \<open>
  \<open>change_id\<close> run without interference reports \<open>OldIdNotFound\<close> or
  \<open>NewIdAlreadyExists\<close> exactly when it should and then leaves the table unchanged;
  otherwise it moves the context, which keeps its own identity field: after a successful
  change to another key, key and identity disagree.
\<close>

theorem change_id_outcome:
  assumes "scc_hash_map ops entries" and "manager_inv entries m"
  shows "fst (change_id ops old new m) =
      (case contexts entries m old of
         None \<Rightarrow> Err (ContextChangeError OldIdNotFound old new)
       | Some c \<Rightarrow> if old \<noteq> new \<and> contexts entries m new \<noteq> None
           then Err (ContextChangeError NewIdAlreadyExists old new) else Ok ()) \<and>
    (\<forall>e. fst (change_id ops old new m) = Err e \<longrightarrow>
       contexts entries (snd (change_id ops old new m)) = contexts entries m) \<and>
    (\<forall>c. fst (change_id ops old new m) = Ok () \<and> contexts entries m old = Some c \<and>
       ident c = old \<and> old \<noteq> new \<longrightarrow>
         (\<exists>c'. contexts entries (snd (change_id ops old new m)) new = Some c' \<and> ident c' \<noteq> new))"
proof -
  note tbl = arc_table.intro [OF assms(1)]
  note none = contexts_None_iff [OF assms(2)]
  note ctx = arc_table.change_id_contexts [OF tbl assms(2), of old new]
  have res: "fst (change_id ops old new m) =
      (case contexts entries m old of
         None \<Rightarrow> Err (ContextChangeError OldIdNotFound old new)
       | Some c \<Rightarrow> if old \<noteq> new \<and> contexts entries m new \<noteq> None
           then Err (ContextChangeError NewIdAlreadyExists old new) else Ok ())"
  proof (cases "entries (queues m) old")
    case None
    then have "contexts entries m old = None"
      by (simp add: none)
    with None show ?thesis
      by (simp add: arc_table.change_id_unknown [OF tbl])
  next
    case (Some a)
    then obtain c where "contexts entries m old = Some c"
      using none [of old] by (cases "contexts entries m old") auto
    with Some show ?thesis
      using arc_table.change_id_taken(1) [OF tbl Some, of new]
        arc_table.change_id_moved(1) [OF tbl Some, of new]
      by (cases "entries (queues m) new") (auto simp: none)
  qed
  with ctx show ?thesis
    by (auto split: option.splits if_splits)
qed

theorem change_id_outcome_witness:
  "fst (change_id map_ops 5 6 demo_manager) = Err (ContextChangeError NewIdAlreadyExists 5 6) \<and>
   fst (change_id map_ops 4 6 demo_manager) = Err (ContextChangeError OldIdNotFound 4 6) \<and>
   (\<exists>c. contexts (\<lambda>m. m) (snd (change_id map_ops 5 8 demo_manager)) 8 = Some c \<and> c \<noteq> 8)"
  using change_id_outcome [OF map_scc.scc_hash_map_axioms demo_manager_inv, of 5 6]
    change_id_outcome [OF map_scc.scc_hash_map_axioms demo_manager_inv, of 4 6]
    change_id_outcome [OF map_scc.scc_hash_map_axioms demo_manager_inv, of 5 8 "\<lambda>c. c"]
  by (simp add: demo_manager_contexts)

text \<open>
  The rollback of \<open>change_id\<close> can lose a context.  When another task adds a context
  under the old identity between the removal and the refused insertion, the final insertion
  is refused as well and its error is dropped: the caller is told \<open>NewIdAlreadyExists\<close>,
  and the context it wanted to rename is in the table no more.
\<close>

theorem change_id_race_loses_context:
  assumes "scc_hash_map ops entries" and "manager_inv entries m"
    and "contexts entries m old = Some c" and "contexts entries m new = Some d" and "old \<noteq> new"
    and "ident c' = old"
    and "change_remove ops old m = (Some a, m1)"
    and "m2 = snd (add_context ops ident c' m1)"
    and "change_insert ops new a m2 = (r, m3)"
    and "change_insert ops old a m3 = (r', m4)"
  shows "r = Err (new, a) \<and> r' = Err (old, a) \<and>
    contexts entries m4 = (contexts entries m)(old \<mapsto> c')"
proof -
  note tbl = arc_table.intro [OF assms(1)]
  have m1: "entries (queues m1) = (entries (queues m))(old := None)" "arcs m1 = arcs m"
      "next_arc m1 = next_arc m"
    using arc_table.change_remove_simps [OF tbl, of old m] assms(7) by simp_all
  with assms(2) have inv1: "manager_inv entries m1"
    by (fastforce simp: manager_inv_def split: if_splits)
  have ctx1: "contexts entries m1 = (contexts entries m)(old := None)"
    by (auto simp: contexts_def m1 fun_eq_iff)
  from arc_table.add_context_vacant [OF tbl inv1, of ident c'] assms(6,8) ctx1
  have ctx2: "contexts entries m2 = (contexts entries m)(old \<mapsto> c')"
    and inv2: "manager_inv entries m2"
    by simp_all
  with assms(4,5) contexts_None_iff [OF inv2]
  obtain b b' where "entries (queues m2) new = Some b" and old: "entries (queues m2) old = Some b'"
    by (metis fun_upd_apply not_Some_eq)
  with arc_table.change_insert_occupied [OF tbl, of m2 new b a]
    arc_table.change_insert_frame [OF tbl, of new a m2] assms(9)
  have m3: "r = Err (new, a)" "entries (queues m3) = entries (queues m2)" "arcs m3 = arcs m2"
    by simp_all
  with arc_table.change_insert_occupied [OF tbl, of m3 old b' a]
    arc_table.change_insert_frame [OF tbl, of old a m3] assms(10) old
  have "r' = Err (old, a)" "entries (queues m4) = entries (queues m2)" "arcs m4 = arcs m2"
    by simp_all
  with m3(1) ctx2 show ?thesis
    by (auto simp: contexts_def fun_eq_iff)
qed

theorem change_id_race_loses_context_witness:
  "contexts (\<lambda>m. m)
     (snd (change_insert map_ops 5 0 (snd (change_insert map_ops 6 0
        (snd (add_context map_ops (\<lambda>c. c mod 100) 105 (snd (change_remove map_ops 5 demo_manager))))))))
   = [6 \<mapsto> 6, 5 \<mapsto> 105]"
proof -
  have "change_remove map_ops 5 demo_manager = (Some 0, snd (change_remove map_ops 5 demo_manager))"
    by (simp add: change_remove_def demo_manager_eq)
  from change_id_race_loses_context [OF map_scc.scc_hash_map_axioms demo_manager_inv _ _ _ _ this
      refl surjective_pairing surjective_pairing, where c = 5 and d = 6 and new = 6
      and c' = 105 and ident = "\<lambda>c. c mod 100"]
  show ?thesis
    by (simp add: demo_manager_contexts)
qed

text \<open>
  \<open>with_context\<close> returns the output of the closure applied to the context stored under
  the identity, changes that context alone, and reports \<open>ContextNotFound\<close> without any
  change when there is none.
\<close>

theorem with_context_outcome:
  assumes "scc_hash_map ops entries" and "manager_inv entries m"
  shows "case contexts entries m i of
      None \<Rightarrow> with_context ops i f m = (Some (Err (ContextNotFound i)), m)
    | Some c \<Rightarrow> fst (with_context ops i f m) = map_option Ok (snd (f c)) \<and>
        contexts entries (snd (with_context ops i f m)) = (contexts entries m)(i \<mapsto> fst (f c))"
  using arc_table.with_context_unknown [OF arc_table.intro [OF assms(1)] _ assms(2)]
    arc_table.with_context_known [OF arc_table.intro [OF assms(1)] _ assms(2)]
  by (auto split: option.split)

theorem with_context_outcome_witness:
  "fst (with_context map_ops 5 add_one demo_manager) = Some (Ok 5) \<and>
   fst (with_context map_ops 4 add_one demo_manager) = Some (Err (ContextNotFound 4))"
  using with_context_outcome [OF map_scc.scc_hash_map_axioms demo_manager_inv, of 5 add_one]
    with_context_outcome [OF map_scc.scc_hash_map_axioms demo_manager_inv, of 4 add_one]
  by (simp add: demo_manager_contexts add_one_def)

end
