(* ===== verification/Plmn_Identity.thy ===== *)
theory Plmn_Identity
  imports Omnipath_Prelude
begin

text \<open>
  \<open>utils/convert/mcc_mnc_plmnid.rs\<close>: the conversion between a mobile country and network
  code and the three octets of an NGAP PLMN identity.  The codes are the validated strings of
  the SBI models; \<open>valid_mcc\<close> and \<open>valid_mnc\<close> are what their validation promises (three
  digits, and two or three digits).  An octet array is a triple of octets.

  \<open>mcc_bytes[i] - b'0'\<close> panics on an index out of range and, with the overflow checks of
  the debug profile, on a byte below the character zero; \<open>digit_at\<close> has both.
\<close>

type_synonym ngap_plmn_identity = "u8 \<times> u8 \<times> u8"

record plmn_id =
  mcc :: string
  mnc :: string

datatype conversion_error = InvalidPlmnDigits ngap_plmn_identity

definition valid_mcc :: "string \<Rightarrow> bool" where
  "valid_mcc s \<longleftrightarrow> length s = 3 \<and> list_all is_digit s"

definition valid_mnc :: "string \<Rightarrow> bool" where
  "valid_mnc s \<longleftrightarrow> (length s = 2 \<or> length s = 3) \<and> list_all is_digit s"

definition digit_at :: "bytes \<Rightarrow> nat \<Rightarrow> u8 option" where
  "digit_at bs i = (if i < length bs \<and> 48 \<le> bs ! i then Some (bs ! i - 48) else None)"

definition convert_mcc_mnc_to_plmn_id :: "string \<Rightarrow> string \<Rightarrow> ngap_plmn_identity option" where
  "convert_mcc_mnc_to_plmn_id mcc' mnc' =
     (let mcc_bytes = as_bytes mcc'; mnc_bytes = as_bytes mnc' in
      do {
        mcc1 \<leftarrow> digit_at mcc_bytes 1;
        mcc0 \<leftarrow> digit_at mcc_bytes 0;
        octet2 \<leftarrow>
          (if length mnc_bytes = 2 then do {
             mcc2 \<leftarrow> digit_at mcc_bytes 2;
             Some (0xF0 OR mcc2)
           } else do {
             mnc0 \<leftarrow> digit_at mnc_bytes 0;
             mcc2 \<leftarrow> digit_at mcc_bytes 2;
             Some (push_bit 4 mnc0 OR mcc2)
           });
        octet3 \<leftarrow>
          (if length mnc_bytes = 2 then do {
             mnc1 \<leftarrow> digit_at mnc_bytes 1;
             mnc0 \<leftarrow> digit_at mnc_bytes 0;
             Some (push_bit 4 mnc1 OR mnc0)
           } else do {
             mnc2 \<leftarrow> digit_at mnc_bytes 2;
             mnc1 \<leftarrow> digit_at mnc_bytes 1;
             Some (push_bit 4 mnc2 OR mnc1)
           });
        Some (push_bit 4 mcc1 OR mcc0, octet2, octet3)
      })"

text \<open>\<open>format!("{}")\<close> of an octet.\<close>

definition show_u8 :: "u8 \<Rightarrow> string" where
  "show_u8 d = show_nat (unat d)"

definition convert_plmn_id_to_mcc_mnc ::
  "ngap_plmn_identity \<Rightarrow> (plmn_id, conversion_error) result" where
  "convert_plmn_id_to_mcc_mnc plmn_id =
     (case plmn_id of (octet1, octet2, octet3) \<Rightarrow>
        let mcc_digit1 = octet1 AND 0x0F;
            mcc_digit2 = drop_bit 4 octet1;
            mcc_digit3 = octet2 AND 0x0F;
            mnc_digit1 = drop_bit 4 octet3;
            mnc_digit2 = octet3 AND 0x0F;
            mnc_digit3 = drop_bit 4 octet2
        in if mnc_digit1 > 9 \<or> mnc_digit2 > 9 \<or> mcc_digit1 > 9 \<or> mcc_digit2 > 9 \<or> mcc_digit3 > 9
           then Err (InvalidPlmnDigits plmn_id)
           else Ok \<lparr>mcc = show_u8 mcc_digit1 @ show_u8 mcc_digit2 @ show_u8 mcc_digit3,
                    mnc = (if mnc_digit3 \<ge> 0xA then show_u8 mnc_digit2 @ show_u8 mnc_digit1
                       else show_u8 mnc_digit3 @ show_u8 mnc_digit2 @ show_u8 mnc_digit1)\<rparr>)"

text \<open>
  The three \<open>From\<close>/\<open>TryFrom\<close> implementations: from a PLMN identity of the SBI models,
  from one with a network identifier (which is dropped), and back.
\<close>

definition from_sbi_plmn_id :: "plmn_id \<Rightarrow> ngap_plmn_identity option" where
  "from_sbi_plmn_id value = convert_mcc_mnc_to_plmn_id (mcc value) (mnc value)"

record plmn_id_nid = plmn_id +
  nid :: "string option"

definition from_sbi_plmn_id_nid :: "plmn_id_nid \<Rightarrow> ngap_plmn_identity option" where
  "from_sbi_plmn_id_nid value = convert_mcc_mnc_to_plmn_id (mcc value) (mnc value)"

definition try_from_ngap_plmn :: "ngap_plmn_identity \<Rightarrow> (plmn_id, conversion_error) result" where
  "try_from_ngap_plmn value = convert_plmn_id_to_mcc_mnc value"

subsection \<open>Digits and their octets\<close>

lemma digit_at_digit:
  assumes "i < length s" and "s ! i = digit_char n" and "n < 10"
  shows "digit_at (as_bytes s) i = Some (word_of_nat n)"
proof -
  have "unat (48 + word_of_nat n :: u8) = 48 + n"
    using assms(3) by (simp add: unat_word_ariths unat_of_nat)
  then have "(48 :: u8) \<le> 48 + word_of_nat n"
    by (simp add: word_le_nat_alt)
  with assms show ?thesis
    by (simp add: digit_at_def as_bytes_def byte_of_digit_char)
qed

lemma digit_word_lt: "n < 10 \<Longrightarrow> (word_of_nat n :: u8) < 16"
  by (simp add: word_less_nat_alt unat_of_nat)

lemma digit_word_le: "n < 10 \<Longrightarrow> \<not> (9 :: u8) < word_of_nat n"
  by (simp add: word_less_nat_alt unat_of_nat)

lemma show_u8_digit: "n < 10 \<Longrightarrow> show_u8 (word_of_nat n) = [digit_char n]"
  by (simp add: show_u8_def unat_of_nat show_nat_digit)

lemmas digit_octet_simps = digit_word_lt digit_word_le show_u8_digit

text \<open>The reference encoding of six nibbles, and what the decoder makes of it.\<close>

definition plmn_octets :: "nat \<Rightarrow> nat \<Rightarrow> nat \<Rightarrow> nat \<Rightarrow> nat \<Rightarrow> nat \<Rightarrow> ngap_plmn_identity" where
  "plmn_octets a b c x y z =
     (push_bit 4 (word_of_nat b) OR word_of_nat a, push_bit 4 (word_of_nat x) OR word_of_nat c,
      push_bit 4 (word_of_nat z) OR word_of_nat y)"

lemma encode_three:
  assumes "a < 10" "b < 10" "c < 10" "x < 10" "y < 10" "z < 10"
  shows "convert_mcc_mnc_to_plmn_id [digit_char a, digit_char b, digit_char c]
      [digit_char x, digit_char y, digit_char z] = Some (plmn_octets a b c x y z)"
  using assms digit_at_digit [of _ "[digit_char a, digit_char b, digit_char c]"]
    digit_at_digit [of _ "[digit_char x, digit_char y, digit_char z]"]
  by (simp add: convert_mcc_mnc_to_plmn_id_def plmn_octets_def Let_def)

lemma encode_two:
  assumes "a < 10" "b < 10" "c < 10" "y < 10" "z < 10"
  shows "convert_mcc_mnc_to_plmn_id [digit_char a, digit_char b, digit_char c]
      [digit_char y, digit_char z] = Some (plmn_octets a b c 15 y z)"
  using assms digit_at_digit [of _ "[digit_char a, digit_char b, digit_char c]"]
    digit_at_digit [of _ "[digit_char y, digit_char z]"]
  by (simp add: convert_mcc_mnc_to_plmn_id_def plmn_octets_def Let_def)

lemma decode_octets:
  assumes "a < 10" "b < 10" "c < 10" "x < 16" "y < 10" "z < 10"
  shows "convert_plmn_id_to_mcc_mnc (plmn_octets a b c x y z) =
    Ok \<lparr>mcc = [digit_char a, digit_char b, digit_char c],
        mnc = (if x < 10 then [digit_char x] else []) @ [digit_char y, digit_char z]\<rparr>"
proof -
  have "(word_of_nat x :: u8) < 16" and "(10 :: u8) \<le> word_of_nat x \<longleftrightarrow> 10 \<le> x"
    using assms(4) by (simp_all add: word_less_nat_alt word_le_nat_alt unat_of_nat)
  with assms show ?thesis
    by (auto simp: convert_plmn_id_to_mcc_mnc_def plmn_octets_def Let_def digit_octet_simps)
qed

lemma valid_mccE:
  assumes "valid_mcc s"
  obtains a b c where "s = [digit_char a, digit_char b, digit_char c]" "a < 10" "b < 10" "c < 10"
proof -
  from assms obtain u v w where "s = [u, v, w]" "is_digit u" "is_digit v" "is_digit w"
    by (auto simp: valid_mcc_def length_Suc_conv numeral_3_eq_3)
  then show thesis
    using that by (auto simp: is_digit_iff)
qed

lemma valid_mncE:
  assumes "valid_mnc s"
  obtains (two) y z where "s = [digit_char y, digit_char z]" "y < 10" "z < 10"
  | (three) x y z where "s = [digit_char x, digit_char y, digit_char z]" "x < 10" "y < 10" "z < 10"
proof (cases "length s = 2")
  case True
  with assms obtain u v where "s = [u, v]" "is_digit u" "is_digit v"
    by (auto simp: valid_mnc_def length_Suc_conv numeral_2_eq_2)
  then show thesis
    using two by (auto simp: is_digit_iff)
next
  case False
  with assms have "valid_mcc s"
    by (auto simp: valid_mnc_def valid_mcc_def)
  then show thesis
    using three by (elim valid_mccE) blast
qed

lemma octet_nibbles:
  fixes x :: u8
  obtains h l where "h < 16" "l < 16" "x = push_bit 4 (word_of_nat h) OR word_of_nat l"
proof
  show "unat (drop_bit 4 x) < 16" and "unat (x AND 15) < 16"
    using nibble_drop_4 [of x] nibble_and_15 [of x] by (simp_all add: word_less_nat_alt)
  show "x = push_bit 4 (word_of_nat (unat (drop_bit 4 x))) OR word_of_nat (unat (x AND 15))"
    by (simp add: nibbles_join del: drop_bit_push_bit)
qed

lemma plmn_octetsE:
  obtains a b c x y z where "p = plmn_octets a b c x y z"
    "a < 16" "b < 16" "c < 16" "x < 16" "y < 16" "z < 16"
proof -
  obtain o1 o2 o3 where p: "p = (o1, o2, o3)"
    by (cases p)
  obtain b a where "b < 16" "a < 16" "o1 = push_bit 4 (word_of_nat b) OR word_of_nat a"
    by (rule octet_nibbles)
  moreover obtain x c where "x < 16" "c < 16" "o2 = push_bit 4 (word_of_nat x) OR word_of_nat c"
    by (rule octet_nibbles)
  moreover obtain z y where "z < 16" "y < 16" "o3 = push_bit 4 (word_of_nat z) OR word_of_nat y"
    by (rule octet_nibbles)
  ultimately show thesis
    using that p by (auto simp: plmn_octets_def)
qed

lemma nibble_word_lt: "n < 16 \<Longrightarrow> (word_of_nat n :: u8) < 16"
  by (simp add: word_less_nat_alt unat_of_nat)

lemma nibble_word_gt: "n < 16 \<Longrightarrow> (9 :: u8) < word_of_nat n \<longleftrightarrow> 10 \<le> n"
  by (auto simp: word_less_nat_alt unat_of_nat)

lemma decode_rejects:
  assumes "a < 16" "b < 16" "c < 16" "x < 16" "y < 16" "z < 16"
    and "\<not> (a < 10 \<and> b < 10 \<and> c < 10 \<and> y < 10 \<and> z < 10)"
  shows "convert_plmn_id_to_mcc_mnc (plmn_octets a b c x y z) =
    Err (InvalidPlmnDigits (plmn_octets a b c x y z))"
  using assms
  by (auto simp: convert_plmn_id_to_mcc_mnc_def plmn_octets_def Let_def nibble_word_lt nibble_word_gt)

lemma decode_Ok_E:
  assumes "convert_plmn_id_to_mcc_mnc p = Ok r"
  obtains a b c x y z where "p = plmn_octets a b c x y z"
    "a < 10" "b < 10" "c < 10" "x < 16" "y < 10" "z < 10"
    "r = \<lparr>mcc = [digit_char a, digit_char b, digit_char c],
        mnc = (if x < 10 then [digit_char x] else []) @ [digit_char y, digit_char z]\<rparr>"
proof -
  obtain a b c x y z where p: "p = plmn_octets a b c x y z"
    and lt: "a < 16" "b < 16" "c < 16" "x < 16" "y < 16" "z < 16"
    by (rule plmn_octetsE)
  with assms decode_rejects [OF lt] have "a < 10 \<and> b < 10 \<and> c < 10 \<and> y < 10 \<and> z < 10"
    by (metis result.distinct(1))
  with p lt(4) assms decode_octets show thesis
    by (intro that [of a b c x y z]) auto
qed

lemma plmn_encode_decode:
  assumes "valid_mcc m" and "valid_mnc n"
  shows "\<exists>p. convert_mcc_mnc_to_plmn_id m n = Some p \<and>
    convert_plmn_id_to_mcc_mnc p = Ok \<lparr>mcc = m, mnc = n\<rparr>"
proof -
  from assms(1) obtain a b c where m: "m = [digit_char a, digit_char b, digit_char c]"
    and abc: "a < 10" "b < 10" "c < 10"
    by (rule valid_mccE)
  from assms(2) show ?thesis
  proof (cases rule: valid_mncE)
    case (two y z)
    with m abc encode_two [of a b c y z] decode_octets [of a b c 15 y z] show ?thesis
      by simp
  next
    case (three x y z)
    with m abc encode_three [of a b c x y z] decode_octets [of a b c x y z] show ?thesis
      by simp
  qed
qed

subsection \<open>Properties of the conversion\<close>

text \<open>
  C22: round trip.  Every valid pair of a country and a network code is encoded without a
  panic, and decoding the three octets gives the pair back, for two and three digits alike.
\<close>

theorem plmn_roundtrip:
  assumes "valid_mcc m" and "valid_mnc n"
  shows "\<exists>p. convert_mcc_mnc_to_plmn_id m n = Some p \<and>
    convert_plmn_id_to_mcc_mnc p = Ok \<lparr>mcc = m, mnc = n\<rparr>"
  using assms by (rule plmn_encode_decode)

theorem plmn_roundtrip_witness:
  "convert_mcc_mnc_to_plmn_id ''234'' ''15'' = Some (0x32, 0xF4, 0x51) \<and>
   convert_plmn_id_to_mcc_mnc (0x32, 0xF4, 0x51) = Ok \<lparr>mcc = ''234'', mnc = ''15''\<rparr>"
proof -
  have "valid_mcc ''234''" and "valid_mnc ''15''"
    by (simp_all add: valid_mcc_def valid_mnc_def is_digit_def)
  from plmn_roundtrip [OF this] show ?thesis
    by (auto simp: convert_mcc_mnc_to_plmn_id_def digit_at_def byte_of_def Let_def)
qed

text \<open>
  What the decoder accepts.  It returns an error exactly when one of the five mandatory
  nibbles is not a decimal digit, and whatever it returns satisfies the validation of the SBI
  models, which \<open>new_unchecked\<close> skips.
\<close>

theorem plmn_decode_valid:
  "case convert_plmn_id_to_mcc_mnc (o1, o2, o3) of
     Ok r \<Rightarrow> valid_mcc (mcc r) \<and> valid_mnc (mnc r) \<and> o1 AND 15 \<le> 9 \<and> drop_bit 4 o1 \<le> 9 \<and>
       o2 AND 15 \<le> 9 \<and> o3 AND 15 \<le> 9 \<and> drop_bit 4 o3 \<le> 9
   | Err e \<Rightarrow> 9 < o1 AND 15 \<or> 9 < drop_bit 4 o1 \<or> 9 < o2 AND 15 \<or> 9 < o3 AND 15 \<or>
       9 < drop_bit 4 o3"
proof (cases "convert_plmn_id_to_mcc_mnc (o1, o2, o3)")
  case (Ok r)
  then have "valid_mcc (mcc r) \<and> valid_mnc (mnc r)"
    by (rule decode_Ok_E) (simp add: valid_mcc_def valid_mnc_def)
  with Ok show ?thesis
    by (auto simp: convert_plmn_id_to_mcc_mnc_def Let_def not_less split: if_splits)
next
  case (Err e)
  then show ?thesis
    by (auto simp: convert_plmn_id_to_mcc_mnc_def Let_def split: if_splits)
qed

text \<open>
  Re-encoding.  Encoding a decoded identity gives the same octets, except that any
  filler from 0xA to 0xE becomes 0xF.
\<close>

theorem plmn_reencode:
  assumes "convert_plmn_id_to_mcc_mnc (o1, o2, o3) = Ok r"
  shows "from_sbi_plmn_id r =
    Some (o1, if 9 < drop_bit 4 o2 then 0xF0 OR (o2 AND 0x0F) else o2, o3)"
  using assms
proof (rule decode_Ok_E)
  fix a b c x y z
  assume "(o1, o2, o3) = plmn_octets a b c x y z"
    and lt: "a < 10" "b < 10" "c < 10" "x < 16" "y < 10" "z < 10"
    and r: "r = \<lparr>mcc = [digit_char a, digit_char b, digit_char c],
        mnc = (if x < 10 then [digit_char x] else []) @ [digit_char y, digit_char z]\<rparr>"
  then show ?thesis
    using encode_two [of a b c y z] encode_three [of a b c x y z]
    by (auto simp: from_sbi_plmn_id_def plmn_octets_def digit_word_lt nibble_word_lt nibble_word_gt)
qed

theorem plmn_reencode_witness:
  "convert_plmn_id_to_mcc_mnc (0x32, 0xA4, 0x51) = Ok \<lparr>mcc = ''234'', mnc = ''15''\<rparr> \<and>
   from_sbi_plmn_id \<lparr>mcc = ''234'', mnc = ''15''\<rparr> = Some (0x32, 0xF4, 0x51)"
proof -
  have "convert_plmn_id_to_mcc_mnc (0x32, 0xA4, 0x51) = Ok \<lparr>mcc = ''234'', mnc = ''15''\<rparr>"
    by code_simp
  with plmn_reencode [OF this] show ?thesis
    by simp
qed

end
