(* ===== verification/Hex_Codec.thy ===== *)
theory Hex_Codec
  imports Omnipath_Prelude
begin

text \<open>
  The two functions of the third-party crate \<open>faster_hex\<close> the sources call, as a record the
  conversions take as an argument, and what the crate documents of them as the locale
  \<open>hex_codec\<close>: \<open>hex_string\<close> writes two lower-case digits per octet, \<open>hex_decode\<close> reads
  digits of either case into its destination and refuses anything else.  The sources only
  decode into buffers of three octets.

  Then \<open>utils/convert/tac.rs\<close> and \<open>utils/convert/snssai.rs\<close>, the conversions built on
  them, and the round trips.
\<close>

type_synonym octets3 = "u8 \<times> u8 \<times> u8"

record faster_hex =
  hex_string :: "bytes \<Rightarrow> string"
  hex_decode :: "bytes \<Rightarrow> octets3 \<Rightarrow> (octets3, unit) result"

definition hex_val :: "char \<Rightarrow> nat" where
  "hex_val c =
     (let n = of_char c in
      if 48 \<le> n \<and> n \<le> 57 then n - 48
      else if 97 \<le> n \<and> n \<le> 102 then n - 87
      else if 65 \<le> n \<and> n \<le> 70 then n - 55 else 16)"

definition is_hex :: "char \<Rightarrow> bool" where
  "is_hex c \<longleftrightarrow> hex_val c < 16"

definition hex_digit :: "nat \<Rightarrow> char" where
  "hex_digit n = (if n < 10 then char_of (48 + n) else char_of (87 + n))"

definition hex_octet :: "char \<Rightarrow> char \<Rightarrow> u8" where
  "hex_octet h l = word_of_nat (16 * hex_val h + hex_val l)"

definition hex_of_octet :: "u8 \<Rightarrow> string" where
  "hex_of_octet b = [hex_digit (unat b div 16), hex_digit (unat b mod 16)]"

text \<open>The lower-case form of a hexadecimal digit.\<close>

definition hex_lower :: "char \<Rightarrow> char" where
  "hex_lower c = hex_digit (hex_val c)"

lemma hex_val_digit [simp]: "n < 16 \<Longrightarrow> hex_val (hex_digit n) = n"
  by (auto simp: hex_val_def hex_digit_def)

lemma is_hex_digit [simp]: "n < 16 \<Longrightarrow> is_hex (hex_digit n)"
  by (simp add: is_hex_def)

lemma hex_octet_digits:
  "h < 16 \<Longrightarrow> l < 16 \<Longrightarrow> hex_octet (hex_digit h) (hex_digit l) = word_of_nat (16 * h + l)"
  by (simp add: hex_octet_def)

lemma unat_octet_lt: "unat (b :: u8) div 16 < 16"
  using unsigned_less [of b, where 'a = nat] by simp

lemma hex_octet_of_octet:
  "hex_octet (hex_digit (unat b div 16)) (hex_digit (unat b mod 16)) = b"
  by (simp add: hex_octet_digits unat_octet_lt)

lemma hex_of_octet_octet:
  assumes "is_hex h" and "is_hex l"
  shows "hex_of_octet (hex_octet h l) = [hex_lower h, hex_lower l]"
proof -
  have "unat (hex_octet h l) = 16 * hex_val h + hex_val l"
    using assms unfolding hex_octet_def is_hex_def by (subst unat_of_nat) simp
  with assms show ?thesis
    by (simp add: hex_of_octet_def hex_lower_def is_hex_def)
qed

locale hex_codec =
  fixes hx :: faster_hex
  assumes hex_string_eq: "hex_string hx bs = concat (map hex_of_octet bs)"
    and hex_decode_digits:
      "list_all is_hex [a, b, c, d, e, f] \<Longrightarrow>
       hex_decode hx (as_bytes [a, b, c, d, e, f]) dst =
         Ok (hex_octet a b, hex_octet c d, hex_octet e f)"
    and hex_decode_refuses:
      "\<not> list_all is_hex s \<Longrightarrow> hex_decode hx (as_bytes s) dst = Err ()"
begin

lemma hex_decode_string:
  "hex_decode hx (as_bytes (hex_string hx [x, y, z])) dst = Ok (x, y, z)"
proof -
  have "hex_string hx [x, y, z] =
      [hex_digit (unat x div 16), hex_digit (unat x mod 16), hex_digit (unat y div 16),
       hex_digit (unat y mod 16), hex_digit (unat z div 16), hex_digit (unat z mod 16)]"
    by (simp add: hex_string_eq hex_of_octet_def)
  then show ?thesis
    by (simp only:) (simp add: hex_decode_digits hex_octet_of_octet unat_octet_lt
        del: as_bytes_Cons as_bytes_Nil)
qed

lemma hex_string_decode:
  assumes "list_all is_hex [a, b, c, d, e, f]"
  shows "map_ok (\<lambda>(x, y, z). hex_string hx [x, y, z])
      (hex_decode hx (as_bytes [a, b, c, d, e, f]) dst) = Ok (map hex_lower [a, b, c, d, e, f])"
  using assms hex_decode_digits [OF assms, of dst]
  by (simp add: hex_string_eq hex_of_octet_octet)

lemma hex_string_hex: "list_all is_hex (hex_string hx bs) \<and> length (hex_string hx bs) = 2 * length bs"
  by (induction bs) (simp_all add: hex_string_eq hex_of_octet_def unat_octet_lt)

end

subsection \<open>The reference instance\<close>

fun hex_pairs :: "string \<Rightarrow> octets3 option" where
  "hex_pairs [a, b, c, d, e, f] = Some (hex_octet a b, hex_octet c d, hex_octet e f)"
| "hex_pairs _ = None"

definition hex_ref :: faster_hex where
  "hex_ref = \<lparr>hex_string = (\<lambda>bs. concat (map hex_of_octet bs)),
     hex_decode = (\<lambda>src dst. let s = map (\<lambda>w. char_of (unat w)) src in
        if list_all is_hex s then ok_or () (hex_pairs s) else Err ())\<rparr>"

lemma chars_of_bytes [simp]: "map (\<lambda>w. char_of (unat w)) (as_bytes s) = s"
  by (induction s) (simp_all add: byte_of_def unat_of_nat)

interpretation ref_hex: hex_codec hex_ref
proof unfold_locales
  show "hex_string hex_ref bs = concat (map hex_of_octet bs)" for bs
    by (simp add: hex_ref_def)
  show "hex_decode hex_ref (as_bytes s) dst = Err ()" if "\<not> list_all is_hex s" for s dst
    using that by (simp add: hex_ref_def)
  fix a b c d e f dst
  assume "list_all is_hex [a, b, c, d, e, f]"
  then show "hex_decode hex_ref (as_bytes [a, b, c, d, e, f]) dst =
      Ok (hex_octet a b, hex_octet c d, hex_octet e f)"
    by (simp add: hex_ref_def ok_or_def chars_of_bytes del: as_bytes_Cons as_bytes_Nil)
qed

subsection \<open>Tracking area codes\<close>

definition convert_sbi_tac_to_ngap_tac :: "faster_hex \<Rightarrow> string \<Rightarrow> octets3 option" where
  "convert_sbi_tac_to_ngap_tac hx sbi_tac = unwrap (hex_decode hx (as_bytes sbi_tac) (0, 0, 0))"

definition convert_ngap_tac_to_sbi_tac :: "faster_hex \<Rightarrow> octets3 \<Rightarrow> string" where
  "convert_ngap_tac_to_sbi_tac hx ngap_tac =
     (case ngap_tac of (x, y, z) \<Rightarrow> hex_string hx [x, y, z])"

subsection \<open>Slices\<close>

record sbi_snssai =
  sst :: u8
  sd :: "string option"

record ngap_snssai =
  ngap_sst :: u8
  ngap_sd :: "octets3 option"

definition convert_sbi_snssai_to_ngap_snssai :: "faster_hex \<Rightarrow> sbi_snssai \<Rightarrow> ngap_snssai option" where
  "convert_sbi_snssai_to_ngap_snssai hx sbi = do {
     sd' \<leftarrow>
       (case sd sbi of
          Some sd_str \<Rightarrow> do {
            dst \<leftarrow> unwrap (hex_decode hx (as_bytes sd_str) (0, 0, 0));
            Some (Some dst)
          }
        | None \<Rightarrow> Some None);
     Some \<lparr>ngap_sst = sst sbi, ngap_sd = sd'\<rparr>
   }"

definition convert_ngap_snssai_to_sbi_snssai :: "faster_hex \<Rightarrow> ngap_snssai \<Rightarrow> sbi_snssai" where
  "convert_ngap_snssai_to_sbi_snssai hx ngap =
     \<lparr>sst = ngap_sst ngap,
      sd = (case ngap_sd ngap of
          Some (x, y, z) \<Rightarrow> Some (hex_string hx [x, y, z])
        | None \<Rightarrow> None)\<rparr>"

text \<open>The pattern of the SBI models for tracking area codes and slice differentiators.\<close>

definition valid_hex6 :: "string \<Rightarrow> bool" where
  "valid_hex6 s \<longleftrightarrow> length s = 6 \<and> list_all is_hex s"

lemma valid_hex6E:
  assumes "valid_hex6 s"
  obtains a b c d e f where "s = [a, b, c, d, e, f]" "list_all is_hex [a, b, c, d, e, f]"
  using assms by (auto simp: valid_hex6_def length_Suc_conv eval_nat_numeral)

text \<open>The slices the SBI models accept are converted, and back to the same slice in lower case.\<close>

definition valid_snssai :: "sbi_snssai \<Rightarrow> bool" where
  "valid_snssai v \<longleftrightarrow> (case sd v of None \<Rightarrow> True | Some s \<Rightarrow> valid_hex6 s)"

definition snssai_lower :: "sbi_snssai \<Rightarrow> sbi_snssai" where
  "snssai_lower v = v\<lparr>sd := map_option (map hex_lower) (sd v)\<rparr>"

lemma snssai_valid_converts:
  assumes "hex_codec hx" and "valid_snssai v"
  shows "\<exists>n. convert_sbi_snssai_to_ngap_snssai hx v = Some n \<and>
    convert_ngap_snssai_to_sbi_snssai hx n = snssai_lower v"
proof (cases "sd v")
  case None
  then show ?thesis
    by (simp add: convert_sbi_snssai_to_ngap_snssai_def convert_ngap_snssai_to_sbi_snssai_def
        snssai_lower_def)
next
  case (Some s)
  with assms(2) obtain a b c d e f where s: "s = [a, b, c, d, e, f]"
    and h: "list_all is_hex [a, b, c, d, e, f]"
    by (auto simp: valid_snssai_def elim: valid_hex6E)
  from hex_codec.hex_decode_digits [OF assms(1) h]
    hex_codec.hex_string_decode [OF assms(1) h, of "(0, 0, 0)"]
  show ?thesis
    by (simp add: Some s convert_sbi_snssai_to_ngap_snssai_def
        convert_ngap_snssai_to_sbi_snssai_def snssai_lower_def del: as_bytes_Cons as_bytes_Nil)
qed

subsection \<open>Properties\<close>

text \<open>
  Tracking area codes.  The code of an NGAP message becomes a string that passes the
  validation of the SBI models, and converting it back neither panics nor changes it; a valid
  string converted to octets and back is the string in lower case.
\<close>

theorem tac_roundtrip:
  assumes "hex_codec hx"
  shows "valid_hex6 (convert_ngap_tac_to_sbi_tac hx t) \<and>
    convert_sbi_tac_to_ngap_tac hx (convert_ngap_tac_to_sbi_tac hx t) = Some t \<and>
    (valid_hex6 s \<longrightarrow>
       map_option (convert_ngap_tac_to_sbi_tac hx) (convert_sbi_tac_to_ngap_tac hx s) =
       Some (map hex_lower s))"
proof (intro conjI impI)
  obtain x y z where t: "t = (x, y, z)"
    by (cases t)
  show "valid_hex6 (convert_ngap_tac_to_sbi_tac hx t)"
    using hex_codec.hex_string_hex [OF assms, of "[x, y, z]"]
    by (simp add: t convert_ngap_tac_to_sbi_tac_def valid_hex6_def)
  show "convert_sbi_tac_to_ngap_tac hx (convert_ngap_tac_to_sbi_tac hx t) = Some t"
    by (simp add: t convert_ngap_tac_to_sbi_tac_def convert_sbi_tac_to_ngap_tac_def
        hex_codec.hex_decode_string [OF assms])
  assume "valid_hex6 s"
  then obtain a b c d e f where s: "s = [a, b, c, d, e, f]"
    and h: "list_all is_hex [a, b, c, d, e, f]"
    by (rule valid_hex6E)
  show "map_option (convert_ngap_tac_to_sbi_tac hx) (convert_sbi_tac_to_ngap_tac hx s) =
      Some (map hex_lower s)"
    using hex_codec.hex_string_decode [OF assms h, of "(0, 0, 0)"]
    unfolding s convert_sbi_tac_to_ngap_tac_def convert_ngap_tac_to_sbi_tac_def
    by (auto simp: split_def)
qed

theorem tac_roundtrip_witness:
  "convert_ngap_tac_to_sbi_tac hex_ref (0xAB, 0xCD, 0xEF) = ''abcdef'' \<and>
   convert_sbi_tac_to_ngap_tac hex_ref (convert_ngap_tac_to_sbi_tac hex_ref (0xAB, 0xCD, 0xEF)) =
     Some (0xAB, 0xCD, 0xEF)"
proof
  show "convert_ngap_tac_to_sbi_tac hex_ref (0xAB, 0xCD, 0xEF) = ''abcdef''"
    by code_simp
  show "convert_sbi_tac_to_ngap_tac hex_ref (convert_ngap_tac_to_sbi_tac hex_ref (0xAB, 0xCD, 0xEF)) =
     Some (0xAB, 0xCD, 0xEF)"
    using tac_roundtrip [OF ref_hex.hex_codec_axioms] by blast
qed

text \<open>
  C23: slices.  An NGAP slice survives the conversion to the SBI models and back, with or
  without a slice differentiator; a slice that passes the validation of the SBI models is
  converted without a panic and comes back with its differentiator in lower case; the
  conversion to NGAP panics when the differentiator holds a character that is no digit.
\<close>

theorem snssai_roundtrip:
  assumes "hex_codec hx"
  shows "convert_sbi_snssai_to_ngap_snssai hx (convert_ngap_snssai_to_sbi_snssai hx n) = Some n \<and>
    (valid_snssai v \<longrightarrow>
       map_option (convert_ngap_snssai_to_sbi_snssai hx) (convert_sbi_snssai_to_ngap_snssai hx v) =
       Some (snssai_lower v)) \<and>
    (sd v = Some s \<and> \<not> list_all is_hex s \<longrightarrow> convert_sbi_snssai_to_ngap_snssai hx v = None)"
proof (intro conjI impI)
  show "convert_sbi_snssai_to_ngap_snssai hx (convert_ngap_snssai_to_sbi_snssai hx n) = Some n"
    by (cases n; cases "ngap_sd n")
      (auto simp: convert_sbi_snssai_to_ngap_snssai_def convert_ngap_snssai_to_sbi_snssai_def
        hex_codec.hex_decode_string [OF assms])
  show "map_option (convert_ngap_snssai_to_sbi_snssai hx) (convert_sbi_snssai_to_ngap_snssai hx v) =
      Some (snssai_lower v)" if "valid_snssai v"
    using snssai_valid_converts [OF assms that] by auto
  show "convert_sbi_snssai_to_ngap_snssai hx v = None" if "sd v = Some s \<and> \<not> list_all is_hex s"
    using that hex_codec.hex_decode_refuses [OF assms]
    by (simp add: convert_sbi_snssai_to_ngap_snssai_def)
qed

theorem snssai_roundtrip_witness:
  "convert_sbi_snssai_to_ngap_snssai hex_ref
     (convert_ngap_snssai_to_sbi_snssai hex_ref \<lparr>ngap_sst = 2, ngap_sd = Some (1, 2, 3)\<rparr>) =
   Some \<lparr>ngap_sst = 2, ngap_sd = Some (1, 2, 3)\<rparr>"
  using snssai_roundtrip [OF ref_hex.hex_codec_axioms] by blast

end
