(* ===== verification/Procedure_Codes.thy ===== *)
theory Procedure_Codes
  imports Omnipath_Prelude
begin

text \<open>
  \<open>ngap/procedure_code_enum.rs\<close>: the NGAP procedure codes as an enumeration with explicit
  discriminants, the partial conversion from the octet of a message and the total conversion
  back.  The derived \<open>PartialOrd\<close> and \<open>Ord\<close> compare discriminants, which
  the \<open>linorder\<close> instance of the enumeration is.
\<close>

datatype procedure_code_enum =
    AMFConfigurationUpdate | AMFStatusIndication | CellTrafficTrace | DeactivateTrace
    | DownlinkNASTransport | DownlinkNonUEAssociatedNRPPaTransport
    | DownlinkRANConfigurationTransfer | DownlinkRANStatusTransfer
    | DownlinkUEAssociatedNRPPaTransport | ErrorIndication | HandoverCancel
    | HandoverNotification | HandoverPreparation | HandoverResourceAllocation
    | InitialContextSetup | InitialUEMessage | LocationReportingControl
    | LocationReportingFailureIndication | LocationReport | NASNonDeliveryIndication | NGReset
    | NGSetup | OverloadStart | OverloadStop | Paging | PathSwitchRequest
    | PDUSessionResourceModify | PDUSessionResourceModifyIndication | PDUSessionResourceRelease
    | PDUSessionResourceSetup | PDUSessionResourceNotify | PrivateMessage | PWSCancel
    | PWSFailureIndication | PWSRestartIndication | RANConfigurationUpdate | RerouteNASRequest
    | RRCInactiveTransitionReport | TraceFailureIndication | TraceStart | UEContextModification
    | UEContextRelease | UEContextReleaseRequest | UERadioCapabilityCheck
    | UERadioCapabilityInfoIndication | UETNLABindingRelease | UplinkNASTransport
    | UplinkNonUEAssociatedNRPPaTransport | UplinkRANConfigurationTransfer
    | UplinkRANStatusTransfer | UplinkUEAssociatedNRPPaTransport | WriteReplaceWarning
    | SecondaryRATDataUsageReport

text \<open>The \<open>as u8\<close> cast of a variant.\<close>

primrec discriminant :: "procedure_code_enum \<Rightarrow> u8" where
  "discriminant AMFConfigurationUpdate = 0"
| "discriminant AMFStatusIndication = 1"
| "discriminant CellTrafficTrace = 2"
| "discriminant DeactivateTrace = 3"
| "discriminant DownlinkNASTransport = 4"
| "discriminant DownlinkNonUEAssociatedNRPPaTransport = 5"
| "discriminant DownlinkRANConfigurationTransfer = 6"
| "discriminant DownlinkRANStatusTransfer = 7"
| "discriminant DownlinkUEAssociatedNRPPaTransport = 8"
| "discriminant ErrorIndication = 9"
| "discriminant HandoverCancel = 10"
| "discriminant HandoverNotification = 11"
| "discriminant HandoverPreparation = 12"
| "discriminant HandoverResourceAllocation = 13"
| "discriminant InitialContextSetup = 14"
| "discriminant InitialUEMessage = 15"
| "discriminant LocationReportingControl = 16"
| "discriminant LocationReportingFailureIndication = 17"
| "discriminant LocationReport = 18"
| "discriminant NASNonDeliveryIndication = 19"
| "discriminant NGReset = 20"
| "discriminant NGSetup = 21"
| "discriminant OverloadStart = 22"
| "discriminant OverloadStop = 23"
| "discriminant Paging = 24"
| "discriminant PathSwitchRequest = 25"
| "discriminant PDUSessionResourceModify = 26"
| "discriminant PDUSessionResourceModifyIndication = 27"
| "discriminant PDUSessionResourceRelease = 28"
| "discriminant PDUSessionResourceSetup = 29"
| "discriminant PDUSessionResourceNotify = 30"
| "discriminant PrivateMessage = 31"
| "discriminant PWSCancel = 32"
| "discriminant PWSFailureIndication = 33"
| "discriminant PWSRestartIndication = 34"
| "discriminant RANConfigurationUpdate = 35"
| "discriminant RerouteNASRequest = 36"
| "discriminant RRCInactiveTransitionReport = 37"
| "discriminant TraceFailureIndication = 38"
| "discriminant TraceStart = 39"
| "discriminant UEContextModification = 40"
| "discriminant UEContextRelease = 41"
| "discriminant UEContextReleaseRequest = 42"
| "discriminant UERadioCapabilityCheck = 43"
| "discriminant UERadioCapabilityInfoIndication = 44"
| "discriminant UETNLABindingRelease = 45"
| "discriminant UplinkNASTransport = 46"
| "discriminant UplinkNonUEAssociatedNRPPaTransport = 47"
| "discriminant UplinkRANConfigurationTransfer = 48"
| "discriminant UplinkRANStatusTransfer = 49"
| "discriminant UplinkUEAssociatedNRPPaTransport = 50"
| "discriminant WriteReplaceWarning = 51"
| "discriminant SecondaryRATDataUsageReport = 52"

datatype procedure_code = ProcedureCode u8

datatype procedure_code_enum_error = UnableToPerformTryFrom

text \<open>The arms of the \<open>match\<close>, in the order of the source.\<close>

definition try_from_arms :: "(u8 \<times> procedure_code_enum) list" where
  "try_from_arms = [
    (0, AMFConfigurationUpdate), (1, AMFStatusIndication), (2, CellTrafficTrace),
    (3, DeactivateTrace), (4, DownlinkNASTransport),
    (5, DownlinkNonUEAssociatedNRPPaTransport), (6, DownlinkRANConfigurationTransfer),
    (7, DownlinkRANStatusTransfer), (8, DownlinkUEAssociatedNRPPaTransport),
    (9, ErrorIndication), (10, HandoverCancel), (11, HandoverNotification),
    (12, HandoverPreparation), (13, HandoverResourceAllocation), (14, InitialContextSetup),
    (15, InitialUEMessage), (16, LocationReportingControl),
    (17, LocationReportingFailureIndication), (18, LocationReport),
    (19, NASNonDeliveryIndication), (20, NGReset), (21, NGSetup), (22, OverloadStart),
    (23, OverloadStop), (24, Paging), (25, PathSwitchRequest), (26, PDUSessionResourceModify),
    (27, PDUSessionResourceModifyIndication), (28, PDUSessionResourceRelease),
    (29, PDUSessionResourceSetup), (30, PDUSessionResourceNotify), (31, PrivateMessage),
    (32, PWSCancel), (33, PWSFailureIndication), (34, PWSRestartIndication),
    (35, RANConfigurationUpdate), (36, RerouteNASRequest), (37, RRCInactiveTransitionReport),
    (38, TraceFailureIndication), (39, TraceStart), (40, UEContextModification),
    (41, UEContextRelease), (42, UEContextReleaseRequest), (43, UERadioCapabilityCheck),
    (44, UERadioCapabilityInfoIndication), (45, UETNLABindingRelease),
    (46, UplinkNASTransport), (47, UplinkNonUEAssociatedNRPPaTransport),
    (48, UplinkRANConfigurationTransfer), (49, UplinkRANStatusTransfer),
    (50, UplinkUEAssociatedNRPPaTransport), (51, WriteReplaceWarning),
    (52, SecondaryRATDataUsageReport)]"

definition try_from_u8 :: "u8 \<Rightarrow> (procedure_code_enum, procedure_code_enum_error) result" where
  "try_from_u8 value = ok_or UnableToPerformTryFrom (map_of try_from_arms value)"

primrec try_from_procedure_code ::
  "procedure_code \<Rightarrow> (procedure_code_enum, procedure_code_enum_error) result" where
  "try_from_procedure_code (ProcedureCode c) = try_from_u8 c"

definition into_procedure_code :: "procedure_code_enum \<Rightarrow> procedure_code" where
  "into_procedure_code value = ProcedureCode (discriminant value)"

subsection \<open>The arms against the discriminants\<close>

lemma try_from_arms_sound: "list_all (\<lambda>(c, p). discriminant p = c) try_from_arms"
  by (simp add: try_from_arms_def)

lemma try_from_arms_codes: "map fst try_from_arms = map word_of_nat [0..<53]"
  by code_simp

lemma try_from_u8_discriminant [simp]: "try_from_u8 (discriminant p) = Ok p"
  by (cases p) (simp_all add: try_from_u8_def try_from_arms_def ok_or_def)

lemma try_from_u8_Ok: "try_from_u8 c = Ok p \<longleftrightarrow> c = discriminant p"
proof
  assume "try_from_u8 c = Ok p"
  then have "map_of try_from_arms c = Some p"
    by (simp add: try_from_u8_def ok_or_def split: option.splits)
  then have "(c, p) \<in> set try_from_arms"
    by (rule map_of_SomeD)
  with try_from_arms_sound show "c = discriminant p"
    by (auto simp: list_all_iff)
qed simp

lemma try_from_u8_is_ok: "is_ok (try_from_u8 c) \<longleftrightarrow> c \<le> 52"
proof -
  have "is_ok (try_from_u8 c) \<longleftrightarrow> c \<in> fst ` set try_from_arms"
    using map_of_eq_None_iff [of try_from_arms c]
    by (cases "map_of try_from_arms c") (simp_all add: try_from_u8_def ok_or_def)
  also have "\<dots> \<longleftrightarrow> c \<in> word_of_nat ` {0..<53}"
    using arg_cong [OF try_from_arms_codes, of set] by simp
  also have "\<dots> \<longleftrightarrow> c \<le> 52"
  proof
    assume "c \<le> 52"
    then have "c = word_of_nat (unat c)" "unat c < 53"
      by (simp_all add: word_le_nat_alt)
    then show "c \<in> word_of_nat ` {0..<53}"
      by (metis atLeastLessThan_iff imageI le0)
  qed (auto simp: word_le_nat_alt unat_of_nat)
  finally show ?thesis .
qed

lemma discriminant_inject: "discriminant p = discriminant q \<longleftrightarrow> p = q"
  by (metis result.inject(1) try_from_u8_discriminant)

subsection \<open>The derived order\<close>

instantiation procedure_code_enum :: linorder
begin

definition less_eq_procedure_code_enum :: "procedure_code_enum \<Rightarrow> procedure_code_enum \<Rightarrow> bool" where
  "less_eq_procedure_code_enum p q \<longleftrightarrow> discriminant p \<le> discriminant q"

definition less_procedure_code_enum :: "procedure_code_enum \<Rightarrow> procedure_code_enum \<Rightarrow> bool" where
  "less_procedure_code_enum p q \<longleftrightarrow> discriminant p < discriminant q"

instance
  by standard (auto simp: less_eq_procedure_code_enum_def less_procedure_code_enum_def
      discriminant_inject order_less_le)

end

subsection \<open>Properties\<close>

text \<open>
  C24: the conversions between octets and procedure codes are inverse to each other: a variant
  converted to a code and back is itself; an octet is accepted exactly when it is the code of
  some variant, in which case converting back returns it; the accepted octets are exactly the
  codes up to 52, everything above being refused with the one error.
\<close>

theorem procedure_code_roundtrip:
  "try_from_procedure_code (into_procedure_code p) = Ok p \<and>
   (try_from_u8 c = Ok q \<longleftrightarrow> into_procedure_code q = ProcedureCode c) \<and>
   (try_from_u8 c = Err UnableToPerformTryFrom \<longleftrightarrow> 52 < c) \<and>
   (into_procedure_code p = into_procedure_code q \<longleftrightarrow> p = q)"
proof (intro conjI)
  show "try_from_u8 c = Err UnableToPerformTryFrom \<longleftrightarrow> 52 < c"
    using try_from_u8_is_ok [of c] procedure_code_enum_error.exhaust
    by (cases "try_from_u8 c") (auto simp: not_le)
qed (auto simp: into_procedure_code_def try_from_u8_Ok discriminant_inject)

end
