(* ===== verification/Ngap_Convert.thy ===== *)
theory Ngap_Convert
  imports Plmn_Identity Hex_Codec
begin

text \<open>
  \<open>utils/convert/mod.rs\<close> and \<open>utils/convert/transform.rs\<close>: the lists of the
  configuration as NGAP lists, and the AMF identifier as three bit strings; and
  \<open>utils/models/fiveg_s_tmsi.rs\<close>: the textual form of a 5G-S-TMSI.

  The bit strings are vectors of the third-party crate \<open>bitvec\<close> with \<open>u8\<close> storage and
  most-significant-bit-first order.  The three functions used of it are the record
  \<open>bitvec_ops\<close>, their documented behaviour the locale \<open>bitvec\<close>: \<open>store_be\<close> writes the low
  bits of an integer into a vector no longer than the integer, most significant first, and
  panics on an empty or a longer vector; \<open>into_vec\<close> returns the octets of the storage, which are
  enough to hold the bits.  Where in its storage a vector begins and what the unused bits are is
  left open, so the text of a 5G-S-TMSI is determined only up to the octets of \<open>into_vec\<close>.

  The members of the NGAP structures that the sources fill with \<open>Default::default()\<close> carry no
  information and are not fields of the records below.
\<close>

subsection \<open>Non-empty lists\<close>

record 'a non_empty =
  head :: 'a
  tail :: "'a list"

definition ne_list :: "'a non_empty \<Rightarrow> 'a list" where
  "ne_list v = head v # tail v"

text \<open>The element conversion may panic, so the conversion of the list may.\<close>

definition transform_nonempty :: "('a \<Rightarrow> 'b option) \<Rightarrow> 'a non_empty \<Rightarrow> 'b non_empty option" where
  "transform_nonempty f value = do {
     head' \<leftarrow> f (head value);
     tail' \<leftarrow> those (map f (tail value));
     Some \<lparr>head = head', tail = tail'\<rparr>
   }"

lemma those_eq_Some: "those xs = Some ys \<longleftrightarrow> xs = map Some ys"
  by (induction xs arbitrary: ys) (auto split: option.splits simp: Cons_eq_map_conv)

lemma transform_nonempty_eq_Some:
  "transform_nonempty f v = Some w \<longleftrightarrow> map f (ne_list v) = map Some (ne_list w)"
  by (cases w) (auto simp: transform_nonempty_def ne_list_def those_eq_Some bind_eq_Some_conv)

lemma transform_nonempty_total:
  assumes "\<And>x. x \<in> set (ne_list v) \<Longrightarrow> f x = Some (g x)"
  shows "transform_nonempty f v = Some \<lparr>head = g (head v), tail = map g (tail v)\<rparr>"
  using assms by (auto simp: transform_nonempty_eq_Some ne_list_def)

lemma transform_nonempty_pointwise:
  assumes "\<And>x. x \<in> set (ne_list v) \<Longrightarrow> \<exists>y. f x = Some y \<and> P y x"
  shows "\<exists>w. transform_nonempty f v = Some w \<and> list_all2 P (ne_list w) (ne_list v)"
proof -
  from assms obtain g where g: "\<And>x. x \<in> set (ne_list v) \<Longrightarrow> f x = Some (g x) \<and> P (g x) x"
    by metis
  then have "transform_nonempty f v = Some \<lparr>head = g (head v), tail = map g (tail v)\<rparr>"
    by (intro transform_nonempty_total) blast
  with g show ?thesis
    by (auto simp: ne_list_def list_all2_conv_all_nth nth_Cons split: nat.splits)
qed

lemma list_all2_map_eq: "map f xs = map g ys \<longleftrightarrow> list_all2 (\<lambda>x y. f x = g y) xs ys"
  by (auto simp: list_all2_conv_all_nth list_eq_iff_nth_eq)

subsection \<open>Dispatch on the types\<close>

text \<open>
  \<open>convert\<close> and \<open>try_convert\<close> wrap a value into \<open>Element\<close>, apply the conversion that the types
  select, and unwrap; a conversion may panic.
\<close>

datatype 'a element = Element (element_value: 'a)

definition try_convert ::
  "('a element \<Rightarrow> ('b element, 'e) result) \<Rightarrow> 'a \<Rightarrow> ('b, 'e) result" where
  "try_convert try_from value =
     and_then (try_from (Element value)) (\<lambda>converted. Ok (element_value converted))"

definition convert :: "('a element \<Rightarrow> 'b element option) \<Rightarrow> 'a \<Rightarrow> 'b option" where
  "convert from value = map_option element_value (from (Element value))"

definition try_from_plmn_element :: "ngap_plmn_identity element \<Rightarrow> (plmn_id element, conversion_error) result" where
  "try_from_plmn_element plmn = map_ok Element (try_from_ngap_plmn (element_value plmn))"

definition from_plmn_element :: "plmn_id element \<Rightarrow> ngap_plmn_identity element option" where
  "from_plmn_element plmn = map_option Element (from_sbi_plmn_id (element_value plmn))"

definition from_sbi_tac_element :: "faster_hex \<Rightarrow> string element \<Rightarrow> octets3 element option" where
  "from_sbi_tac_element hx sbi_tac =
     map_option Element (convert_sbi_tac_to_ngap_tac hx (element_value sbi_tac))"

definition from_ngap_tac_element :: "faster_hex \<Rightarrow> octets3 element \<Rightarrow> string element option" where
  "from_ngap_tac_element hx ngap_tac =
     Some (Element (convert_ngap_tac_to_sbi_tac hx (element_value ngap_tac)))"

definition from_sbi_snssai_element :: "faster_hex \<Rightarrow> sbi_snssai element \<Rightarrow> ngap_snssai element option" where
  "from_sbi_snssai_element hx sbi_snssai =
     map_option Element (convert_sbi_snssai_to_ngap_snssai hx (element_value sbi_snssai))"

definition from_ngap_snssai_element :: "faster_hex \<Rightarrow> ngap_snssai element \<Rightarrow> sbi_snssai element option" where
  "from_ngap_snssai_element hx ngap_snssai =
     Some (Element (convert_ngap_snssai_to_sbi_snssai hx (element_value ngap_snssai)))"

text \<open>The wrapper disappears, so the handlers are given the conversions directly.\<close>

lemma convert_dispatch:
  "try_convert try_from_plmn_element = try_from_ngap_plmn"
  "convert from_plmn_element = from_sbi_plmn_id"
  "convert (from_sbi_tac_element hx) = convert_sbi_tac_to_ngap_tac hx"
  "convert (from_ngap_tac_element hx) = (\<lambda>t. Some (convert_ngap_tac_to_sbi_tac hx t))"
  "convert (from_sbi_snssai_element hx) = convert_sbi_snssai_to_ngap_snssai hx"
  "convert (from_ngap_snssai_element hx) = (\<lambda>s. Some (convert_ngap_snssai_to_sbi_snssai hx s))"
proof -
  show "try_convert try_from_plmn_element = try_from_ngap_plmn"
  proof
    fix p
    show "try_convert try_from_plmn_element p = try_from_ngap_plmn p"
      by (cases "try_from_ngap_plmn p") (simp_all add: try_convert_def try_from_plmn_element_def)
  qed
qed (simp_all add: fun_eq_iff convert_def from_plmn_element_def from_sbi_tac_element_def
    from_ngap_tac_element_def from_sbi_snssai_element_def from_ngap_snssai_element_def option.map_comp
    comp_def option.map_ident)

subsection \<open>Bit vectors\<close>

type_synonym bits = "bool list"

record bitvec_ops =
  store_be_u8 :: "bits \<Rightarrow> u8 \<Rightarrow> bits option"
  store_be_u16 :: "bits \<Rightarrow> u16 \<Rightarrow> bits option"
  into_vec :: "bits \<Rightarrow> bytes"

text \<open>The \<open>n\<close> low bits of a word and the octets of a bit string, most significant first.\<close>

definition be_bits :: "nat \<Rightarrow> 'w::len word \<Rightarrow> bits" where
  "be_bits n w = rev (map (bit w) [0..<n])"

definition be_nat :: "bits \<Rightarrow> nat" where
  "be_nat bs = horner_sum of_bool 2 (rev bs)"

definition be_octet :: "bits \<Rightarrow> u8" where
  "be_octet bs = horner_sum of_bool 2 (rev (take 8 (bs @ replicate 8 False)))"

function be_octets :: "bits \<Rightarrow> bytes" where
  "be_octets bs = (if bs = [] then [] else be_octet (take 8 bs) # be_octets (drop 8 bs))"
  by auto
termination
  by (relation "measure length") auto

declare be_octets.simps [simp del]

lemma length_be_octets: "length bs \<le> 8 * length (be_octets bs)"
proof (induction bs rule: be_octets.induct)
  case (1 bs)
  then show ?case
    by (cases "bs = []") (auto simp: be_octets.simps [of bs])
qed

lemma be_nat_be_bits: "be_nat (be_bits n w) = unat w mod 2 ^ n"
proof -
  have "be_nat (be_bits n w) = horner_sum of_bool 2 (map (bit (unat w)) [0..<n])"
    by (simp add: be_nat_def be_bits_def bit_unsigned_iff cong: map_cong)
  also have "\<dots> = take_bit n (unat w)"
    by (rule horner_sum_bit_eq_take_bit)
  finally show ?thesis
    by (simp add: take_bit_eq_mod)
qed

lemma length_be_bits [simp]: "length (be_bits n w) = n"
  by (simp add: be_bits_def)

locale bitvec =
  fixes bv :: bitvec_ops
  assumes store_be_u8:
      "store_be_u8 bv dst x = (if 0 < length dst \<and> length dst \<le> 8
         then Some (be_bits (length dst) x) else None)"
    and store_be_u16:
      "store_be_u16 bv dst y = (if 0 < length dst \<and> length dst \<le> 16
         then Some (be_bits (length dst) y) else None)"
    and into_vec: "length bs \<le> 8 * length (into_vec bv bs)"

definition bitvec_ref :: bitvec_ops where
  "bitvec_ref = \<lparr>
     store_be_u8 = (\<lambda>dst x. if 0 < length dst \<and> length dst \<le> 8
       then Some (be_bits (length dst) x) else None),
     store_be_u16 = (\<lambda>dst y. if 0 < length dst \<and> length dst \<le> 16
       then Some (be_bits (length dst) y) else None),
     into_vec = be_octets\<rparr>"

interpretation ref_bitvec: bitvec bitvec_ref
  by unfold_locales (simp_all add: bitvec_ref_def length_be_octets)

subsection \<open>The AMF identifier and the lists of the configuration\<close>

record sbi_amf_id =
  region_id :: u8
  set_id :: u16
  pointer_id :: u8

record sbi_guami =
  guami_plmn_id :: plmn_id_nid
  amf_id :: sbi_amf_id

record ngap_guami =
  plmn_identity :: ngap_plmn_identity
  amf_region_id :: bits
  amf_set_id :: bits
  amf_pointer :: bits

record served_guami_item =
  item_guami :: ngap_guami

record slice_support_item =
  item_snssai :: ngap_snssai

record config_plmn_support_item =
  item_plmn_id :: plmn_id
  snssai_list :: "sbi_snssai non_empty"

record ngap_plmn_support_item =
  item_plmn_identity :: ngap_plmn_identity
  slice_support_list :: "slice_support_item non_empty"

definition from_sbi_amf_id :: "bitvec_ops \<Rightarrow> sbi_amf_id \<Rightarrow> (bits \<times> bits \<times> bits) option" where
  "from_sbi_amf_id bv value = do {
     let ngap_amf_region_id = replicate 8 False;
     let ngap_amf_set_id = replicate 10 False;
     let ngap_amf_pointer = replicate 6 False;
     ngap_amf_pointer \<leftarrow> store_be_u8 bv ngap_amf_pointer (pointer_id value);
     ngap_amf_region_id \<leftarrow> store_be_u8 bv ngap_amf_region_id (region_id value);
     ngap_amf_set_id \<leftarrow> store_be_u16 bv ngap_amf_set_id (set_id value);
     Some (ngap_amf_region_id, ngap_amf_set_id, ngap_amf_pointer)
   }"

definition from_sbi_guami :: "bitvec_ops \<Rightarrow> sbi_guami \<Rightarrow> ngap_guami option" where
  "from_sbi_guami bv value = do {
     (region, set, pointer) \<leftarrow> from_sbi_amf_id bv (amf_id value);
     plmn \<leftarrow> from_sbi_plmn_id_nid (guami_plmn_id value);
     Some \<lparr>plmn_identity = plmn, amf_region_id = region, amf_set_id = set, amf_pointer = pointer\<rparr>
   }"

definition from_guami_list :: "bitvec_ops \<Rightarrow> sbi_guami non_empty \<Rightarrow> served_guami_item non_empty option" where
  "from_guami_list bv value = transform_nonempty (\<lambda>item. do {
     g \<leftarrow> from_sbi_guami bv item;
     Some \<lparr>item_guami = g\<rparr>
   }) value"

definition from_snssai_list :: "faster_hex \<Rightarrow> sbi_snssai non_empty \<Rightarrow> slice_support_item non_empty option" where
  "from_snssai_list hx value = transform_nonempty (\<lambda>item. do {
     n \<leftarrow> convert_sbi_snssai_to_ngap_snssai hx item;
     Some \<lparr>item_snssai = n\<rparr>
   }) value"

definition from_plmn_support_list ::
  "faster_hex \<Rightarrow> config_plmn_support_item non_empty \<Rightarrow> ngap_plmn_support_item non_empty option" where
  "from_plmn_support_list hx value = transform_nonempty (\<lambda>item. do {
     plmn \<leftarrow> from_sbi_plmn_id (item_plmn_id item);
     slices \<leftarrow> from_snssai_list hx (snssai_list item);
     Some \<lparr>item_plmn_identity = plmn, slice_support_list = slices\<rparr>
   }) value"

subsection \<open>The textual 5G-S-TMSI\<close>

record ngap_five_g_s_tmsi =
  tmsi_amf_set_id :: bits
  tmsi_amf_pointer :: bits
  five_g_tmsi :: "u8 \<times> u8 \<times> u8 \<times> u8"

text \<open>Indexing a \<open>Vec\<close> panics out of range.\<close>

definition vec_index :: "'a list \<Rightarrow> nat \<Rightarrow> 'a option" where
  "vec_index xs i = (if i < length xs then Some (xs ! i) else None)"

definition from_ngap_five_g_s_tmsi ::
  "faster_hex \<Rightarrow> bitvec_ops \<Rightarrow> ngap_five_g_s_tmsi \<Rightarrow> string option" where
  "from_ngap_five_g_s_tmsi hx bv value = do {
     let amf_set_id = into_vec bv (tmsi_amf_set_id value);
     let amf_pointer = into_vec bv (tmsi_amf_pointer value);
     case five_g_tmsi value of (tmsi0, tmsi1, tmsi2, tmsi3) \<Rightarrow> do {
       set0 \<leftarrow> vec_index amf_set_id 0;
       set1 \<leftarrow> vec_index amf_set_id 1;
       pointer0 \<leftarrow> vec_index amf_pointer 0;
       Some (hex_string hx [set0, set1 OR pointer0, tmsi0, tmsi1, tmsi2, tmsi3])
     }
   }"

subsection \<open>Lemmas\<close>

lemma from_sbi_amf_id_eq:
  assumes "bitvec bv"
  shows "from_sbi_amf_id bv v =
    Some (be_bits 8 (region_id v), be_bits 10 (set_id v), be_bits 6 (pointer_id v))"
  by (simp add: from_sbi_amf_id_def bitvec.store_be_u8 [OF assms] bitvec.store_be_u16 [OF assms])

lemma from_ngap_five_g_s_tmsi_total:
  assumes "bitvec bv" and "8 < length (tmsi_amf_set_id v)" and "tmsi_amf_pointer v \<noteq> []"
  shows "\<exists>bs. length bs = 6 \<and> from_ngap_five_g_s_tmsi hx bv v = Some (hex_string hx bs)"
proof -
  have "1 < length (into_vec bv (tmsi_amf_set_id v))"
    using bitvec.into_vec [OF assms(1), of "tmsi_amf_set_id v"] assms(2) by simp
  moreover from this have "into_vec bv (tmsi_amf_set_id v) \<noteq> []"
    by auto
  moreover have "0 < length (into_vec bv (tmsi_amf_pointer v))"
    using bitvec.into_vec [OF assms(1), of "tmsi_amf_pointer v"] assms(3)
    by (cases "into_vec bv (tmsi_amf_pointer v)") auto
  moreover obtain t0 t1 t2 t3 where "five_g_tmsi v = (t0, t1, t2, t3)"
    by (cases "five_g_tmsi v")
  ultimately have "from_ngap_five_g_s_tmsi hx bv v = Some (hex_string hx
      [into_vec bv (tmsi_amf_set_id v) ! 0,
       into_vec bv (tmsi_amf_set_id v) ! 1 OR into_vec bv (tmsi_amf_pointer v) ! 0, t0, t1, t2, t3])"
    by (simp add: from_ngap_five_g_s_tmsi_def vec_index_def Let_def)
  then show ?thesis
    by (intro exI conjI) auto
qed

lemma from_snssai_list_converts:
  assumes "hex_codec hx" and "\<forall>v \<in> set (ne_list vs). valid_snssai v"
  shows "\<exists>l. from_snssai_list hx vs = Some l \<and>
    map (convert_ngap_snssai_to_sbi_snssai hx \<circ> item_snssai) (ne_list l) =
    map snssai_lower (ne_list vs)"
  unfolding from_snssai_list_def list_all2_map_eq
proof (rule transform_nonempty_pointwise)
  fix v
  assume "v \<in> set (ne_list vs)"
  with snssai_valid_converts [OF assms(1)] assms(2) obtain n where
    "convert_sbi_snssai_to_ngap_snssai hx v = Some n"
    "convert_ngap_snssai_to_sbi_snssai hx n = snssai_lower v"
    by blast
  then show "\<exists>y. do { n \<leftarrow> convert_sbi_snssai_to_ngap_snssai hx v; Some \<lparr>item_snssai = n\<rparr> } = Some y \<and>
      (convert_ngap_snssai_to_sbi_snssai hx \<circ> item_snssai) y = snssai_lower v"
    by simp
qed

lemma from_sbi_plmn_id_converts:
  assumes "valid_mcc (mcc p)" and "valid_mnc (mnc p)"
  shows "\<exists>n. from_sbi_plmn_id p = Some n \<and> try_from_ngap_plmn n = Ok (p :: plmn_id)"
  using plmn_encode_decode [OF assms]
  by (cases p) (simp add: from_sbi_plmn_id_def try_from_ngap_plmn_def)

subsection \<open>Properties\<close>

text \<open>
  The AMF identifier.  The conversion never panics: the three vectors have the lengths of
  the stores, the region is kept, and the set and the pointer are kept when they fit their ten
  and six bits (the range of the SBI models), their high bits being dropped otherwise.
\<close>

theorem amf_id_converts:
  assumes "bitvec bv"
  shows "\<exists>r s p. from_sbi_amf_id bv v = Some (r, s, p) \<and>
    length r = 8 \<and> length s = 10 \<and> length p = 6 \<and>
    be_nat r = unat (region_id v) \<and> be_nat s = unat (set_id v) mod 1024 \<and>
    be_nat p = unat (pointer_id v) mod 64"
proof -
  have "unat (region_id v) < 256"
    using unsigned_less [of "region_id v", where 'a = nat] by simp
  then show ?thesis
    by (simp add: from_sbi_amf_id_eq [OF assms] be_nat_be_bits)
qed

theorem amf_id_converts_witness:
  "\<exists>r s p. from_sbi_amf_id bitvec_ref \<lparr>region_id = 202, set_id = 1016, pointer_id = 63\<rparr> =
    Some (r, s, p) \<and> be_nat s = 1016"
  using amf_id_converts [OF ref_bitvec.bitvec_axioms,
      of "\<lparr>region_id = 202, set_id = 1016, pointer_id = 63\<rparr>"] by auto

text \<open>
  The lists of the NG Setup response.  A configured PLMN support list whose codes and
  slices pass the validation of the SBI models is converted without a panic, element by
  element and in order: decoding each NGAP item gives the configured PLMN and the configured
  slices (their differentiators in lower case).
\<close>

theorem plmn_support_list_converts:
  assumes "hex_codec hx"
    and "\<forall>item \<in> set (ne_list value). valid_mcc (mcc (item_plmn_id item)) \<and>
      valid_mnc (mnc (item_plmn_id item)) \<and> (\<forall>v \<in> set (ne_list (snssai_list item)). valid_snssai v)"
  shows "\<exists>l. from_plmn_support_list hx value = Some l \<and>
    list_all2 (\<lambda>n item. try_from_ngap_plmn (item_plmn_identity n) = Ok (item_plmn_id item) \<and>
        map (convert_ngap_snssai_to_sbi_snssai hx \<circ> item_snssai) (ne_list (slice_support_list n)) =
        map snssai_lower (ne_list (snssai_list item)))
      (ne_list l) (ne_list value)"
  unfolding from_plmn_support_list_def
proof (rule transform_nonempty_pointwise)
  fix item
  assume "item \<in> set (ne_list value)"
  with assms(2) obtain p l where
    "from_sbi_plmn_id (item_plmn_id item) = Some p" "try_from_ngap_plmn p = Ok (item_plmn_id item)"
    "from_snssai_list hx (snssai_list item) = Some l"
    "map (convert_ngap_snssai_to_sbi_snssai hx \<circ> item_snssai) (ne_list l) =
      map snssai_lower (ne_list (snssai_list item))"
    using from_snssai_list_converts [OF assms(1)] from_sbi_plmn_id_converts by metis
  then show "\<exists>n. do {
        plmn \<leftarrow> from_sbi_plmn_id (item_plmn_id item);
        slices \<leftarrow> from_snssai_list hx (snssai_list item);
        Some \<lparr>item_plmn_identity = plmn, slice_support_list = slices\<rparr>
      } = Some n \<and> try_from_ngap_plmn (item_plmn_identity n) = Ok (item_plmn_id item) \<and>
      map (convert_ngap_snssai_to_sbi_snssai hx \<circ> item_snssai) (ne_list (slice_support_list n)) =
      map snssai_lower (ne_list (snssai_list item))"
    by simp
qed

definition demo_plmn_support :: "config_plmn_support_item non_empty" where
  "demo_plmn_support = \<lparr>
     head = \<lparr>item_plmn_id = \<lparr>mcc = ''208'', mnc = ''93''\<rparr>,
       snssai_list = \<lparr>head = \<lparr>sst = 1, sd = Some ''010203''\<rparr>, tail = [\<lparr>sst = 2, sd = None\<rparr>]\<rparr>\<rparr>,
     tail = []\<rparr>"

theorem plmn_support_list_converts_witness:
  "\<exists>l. from_plmn_support_list hex_ref demo_plmn_support = Some l \<and> length (ne_list l) = 1"
proof -
  have "\<forall>item \<in> set (ne_list demo_plmn_support). valid_mcc (mcc (item_plmn_id item)) \<and>
      valid_mnc (mnc (item_plmn_id item)) \<and> (\<forall>v \<in> set (ne_list (snssai_list item)). valid_snssai v)"
    by code_simp
  from plmn_support_list_converts [OF ref_hex.hex_codec_axioms this] show ?thesis
    by (auto simp: demo_plmn_support_def ne_list_def dest: list_all2_lengthD)
qed

end
