(* ===== verification/Network_Assoc.thy ===== *)
theory Network_Assoc
  imports Id_Counter
begin

text \<open>
  \<open>ngap/network/tnla_assoc.rs\<close>, \<open>network.rs\<close> and \<open>error.rs\<close>: the transport
  associations of the AMF, their table, and reading from and writing to one of them.

  The SCTP sockets are those of the third-party crate \<open>tokio_sctp\<close>; the functions called on
  them are the record \<open>sctp_ops\<close>, and what a call to \<open>accept\<close> or \<open>recvmsg\<close> answers is
  an argument of the definition that makes the call, so the theorems hold for every peer.
  \<open>HashMap\<close> and \<open>HashSet\<close> of the standard library are partial functions and sets.  The
  static counter of association identifiers is passed explicitly.
\<close>

datatype 'io tnla_error =
    ReadError 'io | WriteError 'io | LocalAddressError 'io | RemoteAddressError 'io

datatype ('a, 'io) network_error =
    SocketCreationError 'io
  | ListenerBindingError 'io
  | SctpSocketConfigurationError 'io
  | ConnectionAcceptError 'io
  | TnlaCreationError "'io tnla_error"
  | AssociationAlreadyExists 'a 'a
  | TnlaNotFound usize
  | TnlaSendError usize "'io tnla_error"
  | TnlaReadError usize "'io tnla_error"

text \<open>Of the send options the sources touch the payload protocol identifier only.\<close>

record send_options =
  ppid :: u32

record ('s, 'a, 'io) sctp_ops =
  stream_local_addr :: "'s \<Rightarrow> ('a, 'io) result"
  stream_peer_addr :: "'s \<Rightarrow> ('a, 'io) result"
  sendmsg :: "'s \<Rightarrow> bytes \<Rightarrow> send_options \<Rightarrow> (nat, 'io) result"
  default_options :: send_options

definition NGAP_PPID :: u32 where
  "NGAP_PPID = 60"

record ('s, 'a) tnla_association =
  assoc_id :: usize
  local_addr :: 'a
  remote_addr :: 'a
  stream :: 's

subsection \<open>One association\<close>

definition tnla_new ::
  "('s, 'a, 'io) sctp_ops \<Rightarrow> 's \<Rightarrow> 64 counter \<Rightarrow>
     (('s, 'a) tnla_association, 'io tnla_error) result \<times> 64 counter" where
  "tnla_new sctp strm counter =
     (case map_err LocalAddressError (stream_local_addr sctp strm) of
        Err e \<Rightarrow> (Err e, counter)
      | Ok local \<Rightarrow>
          (case map_err RemoteAddressError (stream_peer_addr sctp strm) of
             Err e \<Rightarrow> (Err e, counter)
           | Ok remote \<Rightarrow>
               (let (i, counter) = increment counter
                in (Ok \<lparr>assoc_id = i, local_addr = local, remote_addr = remote, stream = strm\<rparr>,
                    counter))))"

text \<open>\<open>PartialEq\<close> of associations compares the identifiers.\<close>

definition tnla_eq :: "('s, 'a) tnla_association \<Rightarrow> ('s, 'a) tnla_association \<Rightarrow> bool" where
  "tnla_eq t u \<longleftrightarrow> assoc_id t = assoc_id u"

text \<open>\<open>Hash\<close> feeds the identifier to the hasher.\<close>

definition tnla_hash :: "(usize \<Rightarrow> 'h \<Rightarrow> 'h) \<Rightarrow> ('s, 'a) tnla_association \<Rightarrow> 'h \<Rightarrow> 'h" where
  "tnla_hash hash_usize t state = hash_usize (assoc_id t) state"

text \<open>Equality is an equivalence that hashing respects, as the hash containers require.\<close>

lemma tnla_eq_hash:
  "tnla_eq t t" "tnla_eq t u \<Longrightarrow> tnla_eq u t" "tnla_eq t u \<Longrightarrow> tnla_eq u v \<Longrightarrow> tnla_eq t v"
  "tnla_eq t u \<Longrightarrow> tnla_hash h t state = tnla_hash h u state"
  by (simp_all add: tnla_eq_def tnla_hash_def)

text \<open>
  \<open>read_data\<close> on the answer of \<open>recvmsg_eor_buf\<close>: the number of octets and the buffer.
  \<open>Ok None\<close> is a stream the peer has closed.
\<close>

definition read_data :: "(nat \<times> bytes, 'io) result \<Rightarrow> (bytes option, 'io tnla_error) result" where
  "read_data recvmsg =
     and_then (map_err ReadError recvmsg) (\<lambda>(n, buf). if n = 0 then Ok None else Ok (Some buf))"

text \<open>\<open>write_data\<close>, with the message it passes to the socket.\<close>

definition write_data ::
  "('s, 'a, 'io) sctp_ops \<Rightarrow> ('s, 'a) tnla_association \<Rightarrow> bytes \<Rightarrow> send_options option \<Rightarrow>
     (unit, 'io tnla_error) result \<times> ('s \<times> bytes \<times> send_options)" where
  "write_data sctp tnla data opts =
     (let send_options = (case opts of Some opt \<Rightarrow> opt | None \<Rightarrow> default_options sctp);
          send_options = send_options\<lparr>ppid := NGAP_PPID\<rparr>
      in (and_then (map_err WriteError (sendmsg sctp (stream tnla) data send_options)) (\<lambda>_. Ok ()),
          (stream tnla, data, send_options)))"

subsection \<open>The table of associations\<close>

record ('s, 'a) associations =
  associations_map :: "usize \<rightharpoonup> ('s, 'a) tnla_association"
  associations_set :: "('a \<times> 'a) set"

definition associations_new :: "('s, 'a) associations" where
  "associations_new = \<lparr>associations_map = Map.empty, associations_set = {}\<rparr>"

definition add_tnla_association ::
  "('s, 'a, 'io) sctp_ops \<Rightarrow> 's \<Rightarrow> 64 counter \<Rightarrow> ('s, 'a) associations \<Rightarrow>
     (('s, 'a) tnla_association, ('a, 'io) network_error) result \<times> 64 counter \<times>
     ('s, 'a) associations" where
  "add_tnla_association sctp strm counter tab =
     (case tnla_new sctp strm counter of
        (Err e, counter) \<Rightarrow> (Err (TnlaCreationError e), counter, tab)
      | (Ok association, counter) \<Rightarrow>
          (if (local_addr association, remote_addr association) \<in> associations_set tab
           then (Err (AssociationAlreadyExists (local_addr association) (remote_addr association)),
                 counter, tab)
           else (let tab = tab\<lparr>associations_set :=
                       insert (local_addr association, remote_addr association) (associations_set tab)\<rparr>;
                     tab = tab\<lparr>associations_map :=
                       (associations_map tab)(assoc_id association \<mapsto> association)\<rparr>
                 in (Ok association, counter, tab))))"

definition remove_tnla_association ::
  "usize \<Rightarrow> ('s, 'a) associations \<Rightarrow> ('s, 'a) tnla_association option \<times> ('s, 'a) associations" where
  "remove_tnla_association i tab =
     (case associations_map tab i of
        Some association \<Rightarrow>
          (Some association,
           tab\<lparr>associations_map := (associations_map tab)(i := None),
               associations_set := associations_set tab -
                 {(local_addr association, remote_addr association)}\<rparr>)
      | None \<Rightarrow> (None, tab))"

definition get_tnla_association :: "usize \<Rightarrow> ('s, 'a) associations \<Rightarrow> ('s, 'a) tnla_association option" where
  "get_tnla_association i tab = associations_map tab i"

subsection \<open>The network\<close>

text \<open>The socket calls of \<open>Network::new\<close>, for sockets \<open>'k\<close> and listeners \<open>'l\<close>.\<close>

datatype domain = IPV4 | IPV6

datatype ip_addr = V4 u32 | V6 "128 word"

record sctp_config =
  num_ostreams :: u16
  max_instreams :: u16
  max_attempts :: u16
  max_init_timeout :: u16

record ('k, 'l, 'io) socket_ops =
  socket_new :: "domain \<Rightarrow> ('k, 'io) result"
  set_sctp_initmsg :: "sctp_config \<Rightarrow> 'k \<Rightarrow> ('k, 'io) result"
  set_nodelay :: "bool \<Rightarrow> 'k \<Rightarrow> ('k, 'io) result"
  bind_from :: "'k \<Rightarrow> ip_addr \<times> u16 \<Rightarrow> ('l, 'io) result"

record ('l, 's, 'a) network =
  listener :: 'l
  net_associations :: "('s, 'a) associations"

definition network_new ::
  "('k, 'l, 'io) socket_ops \<Rightarrow> ip_addr \<Rightarrow> u16 \<Rightarrow> sctp_config \<Rightarrow>
     (('l, 's, 'a) network, ('a, 'io) network_error) result" where
  "network_new sock ip_addr port sctp_config =
     (let domain = (case ip_addr of V4 _ \<Rightarrow> IPV4 | V6 _ \<Rightarrow> IPV6)
      in and_then (map_err SocketCreationError (socket_new sock domain)) (\<lambda>socket.
         and_then (map_err SctpSocketConfigurationError (set_sctp_initmsg sock sctp_config socket)) (\<lambda>socket.
         and_then (map_err SctpSocketConfigurationError (set_nodelay sock True socket)) (\<lambda>socket.
         and_then (map_err ListenerBindingError (bind_from sock socket (ip_addr, port))) (\<lambda>l.
         Ok \<lparr>listener = l, net_associations = associations_new\<rparr>)))))"

text \<open>\<open>accept_and_create_tnla\<close> on the answer of \<open>accept\<close>.\<close>

definition accept_and_create_tnla ::
  "('s, 'a, 'io) sctp_ops \<Rightarrow> ('s \<times> 'a, 'io) result \<Rightarrow> 64 counter \<Rightarrow> ('l, 's, 'a) network \<Rightarrow>
     (('s, 'a) tnla_association, ('a, 'io) network_error) result \<times> 64 counter \<times>
     ('l, 's, 'a) network" where
  "accept_and_create_tnla sctp accept counter net =
     (case map_err ConnectionAcceptError accept of
        Err e \<Rightarrow> (Err e, counter, net)
      | Ok (strm, addr) \<Rightarrow>
          (case add_tnla_association sctp strm counter (net_associations net) of
             (r, counter, tab) \<Rightarrow> (r, counter, net\<lparr>net_associations := tab\<rparr>)))"

definition send_data ::
  "('s, 'a, 'io) sctp_ops \<Rightarrow> usize \<Rightarrow> bytes \<Rightarrow> ('l, 's, 'a) network \<Rightarrow>
     (unit, ('a, 'io) network_error) result \<times> ('s \<times> bytes \<times> send_options) list" where
  "send_data sctp association_id data net =
     (case get_tnla_association association_id (net_associations net) of
        Some tnla \<Rightarrow>
          (case write_data sctp tnla data None of
             (r, msg) \<Rightarrow> (map_err (TnlaSendError association_id) r, [msg]))
      | None \<Rightarrow> (Err (TnlaNotFound association_id), []))"

subsection \<open>The invariant of the table\<close>

text \<open>
  The set holds exactly the address pairs of the table, no two associations have the same
  pair, every association is filed under its own identifier, and the counter is ahead of every
  identifier in use.
\<close>

definition addr_pair :: "('s, 'a) tnla_association \<Rightarrow> 'a \<times> 'a" where
  "addr_pair t = (local_addr t, remote_addr t)"

definition assoc_inv :: "64 counter \<Rightarrow> ('s, 'a) associations \<Rightarrow> bool" where
  "assoc_inv counter tab \<longleftrightarrow>
     (\<forall>i t. associations_map tab i = Some t \<longrightarrow> assoc_id t = i \<and> unat i < unat counter) \<and>
     associations_set tab = addr_pair ` ran (associations_map tab) \<and>
     inj_on addr_pair (ran (associations_map tab))"

lemma assoc_inv_new: "assoc_inv counter associations_new"
  by (simp add: assoc_inv_def associations_new_def)

lemma assoc_inv_fresh:
  "assoc_inv counter tab \<Longrightarrow> associations_map tab counter = None"
  by (cases "associations_map tab counter") (auto simp: assoc_inv_def)

lemma assoc_inv_lookup:
  "assoc_inv counter tab \<Longrightarrow> associations_map tab i = Some t \<Longrightarrow> assoc_id t = i"
  by (simp add: assoc_inv_def)

lemma assoc_inv_insert:
  assumes "assoc_inv counter tab" and "unat counter < 2 ^ 64 - 1"
    and "assoc_id t = counter" and "addr_pair t \<notin> associations_set tab"
  shows "assoc_inv (snd (increment counter)) (tab\<lparr>associations_set :=
      insert (addr_pair t) (associations_set tab),
    associations_map := (associations_map tab)(counter \<mapsto> t)\<rparr>)"
proof -
  from assms(2) have clk: "unat (snd (increment counter)) = Suc (unat counter)"
    using ctr.clock_next [of counter] by simp
  have "ran ((associations_map tab)(counter \<mapsto> t)) = insert t (ran (associations_map tab))"
    using assoc_inv_fresh [OF assms(1)] by (rule ran_map_upd)
  with assms clk show ?thesis
    by (auto simp: assoc_inv_def less_SucI inj_on_insert)
qed

lemma assoc_inv_clock:
  assumes "assoc_inv counter tab" and "unat counter \<le> unat counter'"
  shows "assoc_inv counter' tab"
  using assms by (fastforce simp: assoc_inv_def)

lemma assoc_inv_remove:
  assumes "assoc_inv counter tab" and "associations_map tab i = Some t"
  shows "assoc_inv counter (tab\<lparr>associations_map := (associations_map tab)(i := None),
    associations_set := associations_set tab - {addr_pair t}\<rparr>)"
proof -
  let ?m = "associations_map tab"
  have "ran (?m(i := None)) = ran ?m - {t}"
  proof (intro equalityI subsetI)
    fix u assume "u \<in> ran (?m(i := None))"
    then obtain j where "j \<noteq> i" "?m j = Some u"
      by (auto simp: ran_def split: if_splits)
    moreover from this assms have "assoc_id u = j" "assoc_id t = i"
      by (auto intro: assoc_inv_lookup)
    ultimately show "u \<in> ran ?m - {t}"
      by (auto intro: ranI)
  next
    fix u assume "u \<in> ran ?m - {t}"
    then obtain j where "?m j = Some u" "u \<noteq> t"
      by (auto simp: ran_def)
    with assms(2) have "(?m(i := None)) j = Some u"
      by auto
    then show "u \<in> ran (?m(i := None))"
      by (rule ranI)
  qed
  moreover have "t \<in> ran ?m"
    using assms(2) by (rule ranI)
  ultimately show ?thesis
    using assms(1)
    by (auto simp: assoc_inv_def inj_on_diff dest: inj_onD)
qed

lemma add_tnla_association_cases:
  obtains (local) e where "stream_local_addr sctp s = Err e"
      "add_tnla_association sctp s counter tab = (Err (TnlaCreationError (LocalAddressError e)), counter, tab)"
  | (remote) l e where "stream_local_addr sctp s = Ok l" "stream_peer_addr sctp s = Err e"
      "add_tnla_association sctp s counter tab = (Err (TnlaCreationError (RemoteAddressError e)), counter, tab)"
  | (duplicate) l r where "stream_local_addr sctp s = Ok l" "stream_peer_addr sctp s = Ok r"
      "(l, r) \<in> associations_set tab"
      "add_tnla_association sctp s counter tab =
        (Err (AssociationAlreadyExists l r), snd (increment counter), tab)"
  | (added) l r t where "stream_local_addr sctp s = Ok l" "stream_peer_addr sctp s = Ok r"
      "(l, r) \<notin> associations_set tab"
      "t = \<lparr>assoc_id = counter, local_addr = l, remote_addr = r, stream = s\<rparr>"
      "add_tnla_association sctp s counter tab = (Ok t, snd (increment counter),
        tab\<lparr>associations_set := insert (addr_pair t) (associations_set tab),
          associations_map := (associations_map tab)(counter \<mapsto> t)\<rparr>)"
proof (cases "stream_local_addr sctp s")
  case (Err e)
  then show thesis
    by (intro local) (simp_all add: add_tnla_association_def tnla_new_def)
next
  case l: (Ok l)
  show thesis
  proof (cases "stream_peer_addr sctp s")
    case (Err e)
    with l show thesis
      by (intro remote) (simp_all add: add_tnla_association_def tnla_new_def)
  next
    case (Ok r)
    with l show thesis
      using duplicate [OF l Ok] added [OF l Ok _ refl]
      by (cases "(l, r) \<in> associations_set tab")
        (simp_all add: add_tnla_association_def tnla_new_def increment_def addr_pair_def)
  qed
qed

lemma add_tnla_association_inv:
  assumes "assoc_inv counter tab" and "unat counter < 2 ^ 64 - 1"
    and "add_tnla_association sctp s counter tab = (r, counter', tab')"
  shows "assoc_inv counter' tab' \<and> unat counter \<le> unat counter' \<and> unat counter' \<le> Suc (unat counter)"
proof -
  from assms(2) have clk: "unat (snd (increment counter)) = Suc (unat counter)"
    using ctr.clock_next [of counter] by simp
  show ?thesis
  proof (cases rule: add_tnla_association_cases [of sctp s counter tab])
    case (duplicate l r)
    with assms clk assoc_inv_clock [OF assms(1), of counter'] show ?thesis
      by simp
  next
    case (added l r t)
    with assms clk assoc_inv_insert [OF assms(1,2), of t] show ?thesis
      by (simp add: addr_pair_def)
  qed (use assms in simp_all)
qed

subsection \<open>Properties\<close>

datatype ('s, 'a, 'io) network_op =
    AcceptOp "('s \<times> 'a, 'io) result"
  | RemoveOp usize

fun network_exec ::
  "('s, 'a, 'io) sctp_ops \<Rightarrow> ('s, 'a, 'io) network_op \<Rightarrow> 64 counter \<times> ('l, 's, 'a) network \<Rightarrow>
     64 counter \<times> ('l, 's, 'a) network" where
  "network_exec sctp (AcceptOp accept) (counter, net) =
     snd (accept_and_create_tnla sctp accept counter net)"
| "network_exec sctp (RemoveOp i) (counter, net) =
     (counter, net\<lparr>net_associations := snd (remove_tnla_association i (net_associations net))\<rparr>)"

lemma network_exec_inv:
  assumes "assoc_inv counter (net_associations net)" and "unat counter < 2 ^ 64 - 1"
    and "network_exec sctp oper (counter, net) = (counter', net')"
  shows "assoc_inv counter' (net_associations net') \<and> unat counter' \<le> Suc (unat counter)"
proof (cases oper)
  case (AcceptOp accept)
  show ?thesis
  proof (cases accept)
    case (Ok sa)
    obtain r c tab where "add_tnla_association sctp (fst sa) counter (net_associations net) = (r, c, tab)"
      by (metis prod_cases3)
    with add_tnla_association_inv [OF assms(1,2) this] assms(3) AcceptOp Ok show ?thesis
      by (auto simp: accept_and_create_tnla_def split_beta)
  qed (use assms AcceptOp in \<open>simp add: accept_and_create_tnla_def\<close>)
next
  case (RemoveOp i)
  with assms assoc_inv_remove [OF assms(1), of i] show ?thesis
    by (cases "associations_map (net_associations net) i")
      (auto simp: remove_tnla_association_def addr_pair_def)
qed

text \<open>
  C15: the table of associations.  After any sequence of accepted connections and removals
  shorter than \<open>2 ^ 64 - 1\<close> on a new network, the set of address pairs is exactly that of the
  associations in the table, no two associations share a pair, and every association is filed
  under its own identifier, which no later association will get.
\<close>

theorem network_inv_run:
  assumes "length opers < 2 ^ 64 - 1" and "net_associations net = associations_new"
    and "fold (network_exec sctp) opers (counter_new, net) = (counter, net')"
  shows "assoc_inv counter (net_associations net')"
proof -
  have "assoc_inv c (net_associations n) \<and> unat c \<le> Suc (length opers)"
    if "fold (network_exec sctp) opers (counter_new, net) = (c, n)" for c n
    using assms(1) that
  proof (induction opers arbitrary: c n rule: rev_induct)
    case Nil
    with assms(2) show ?case
      by (auto simp: assoc_inv_new counter_new_def)
  next
    case (snoc oper opers)
    obtain c' n' where *: "fold (network_exec sctp) opers (counter_new, net) = (c', n')"
      by force
    with snoc have "assoc_inv c' (net_associations n')" and "unat c' \<le> Suc (length opers)"
      by simp_all
    with snoc.prems * network_exec_inv [of c' n' sctp oper c n] show ?case
      by simp
  qed
  with assms(3) show ?thesis by blast
qed

text \<open>
  What accepting a connection does, on every branch.  A failing socket call is returned as
  the error of its kind and changes nothing; a connection between addresses that are already
  associated is refused and leaves the table as it was; any other connection is filed under an
  identifier that was not in use, can be looked up under it, and changes no other entry.
\<close>

theorem add_tnla_association_outcome:
  assumes "assoc_inv counter tab" and "unat counter < 2 ^ 64 - 1"
    and "add_tnla_association sctp s counter tab = (result, counter', tab')"
  shows "assoc_inv counter' tab' \<and>
    (case result of
       Ok t \<Rightarrow> stream_local_addr sctp s = Ok (local_addr t) \<and> stream_peer_addr sctp s = Ok (remote_addr t) \<and>
         stream t = s \<and> get_tnla_association (assoc_id t) tab = None \<and>
         (\<forall>i. get_tnla_association i tab' =
            (if i = assoc_id t then Some t else get_tnla_association i tab))
     | Err e \<Rightarrow> tab' = tab \<and>
         ((\<exists>io. stream_local_addr sctp s = Err io \<and> e = TnlaCreationError (LocalAddressError io)) \<or>
          (\<exists>io. stream_peer_addr sctp s = Err io \<and> e = TnlaCreationError (RemoteAddressError io)) \<or>
          (\<exists>i t. get_tnla_association i tab = Some t \<and> stream_local_addr sctp s = Ok (local_addr t) \<and>
             stream_peer_addr sctp s = Ok (remote_addr t) \<and>
             e = AssociationAlreadyExists (local_addr t) (remote_addr t))))"
proof
  show "assoc_inv counter' tab'"
    using add_tnla_association_inv [OF assms] by blast
  show "case result of
       Ok t \<Rightarrow> stream_local_addr sctp s = Ok (local_addr t) \<and> stream_peer_addr sctp s = Ok (remote_addr t) \<and>
         stream t = s \<and> get_tnla_association (assoc_id t) tab = None \<and>
         (\<forall>i. get_tnla_association i tab' =
            (if i = assoc_id t then Some t else get_tnla_association i tab))
     | Err e \<Rightarrow> tab' = tab \<and>
         ((\<exists>io. stream_local_addr sctp s = Err io \<and> e = TnlaCreationError (LocalAddressError io)) \<or>
          (\<exists>io. stream_peer_addr sctp s = Err io \<and> e = TnlaCreationError (RemoteAddressError io)) \<or>
          (\<exists>i t. get_tnla_association i tab = Some t \<and> stream_local_addr sctp s = Ok (local_addr t) \<and>
             stream_peer_addr sctp s = Ok (remote_addr t) \<and>
             e = AssociationAlreadyExists (local_addr t) (remote_addr t)))"
  proof (cases rule: add_tnla_association_cases [of sctp s counter tab])
    case (duplicate l r)
    with assms(1) obtain i t where "associations_map tab i = Some t" "addr_pair t = (l, r)"
      by (auto simp: assoc_inv_def ran_def)
    with duplicate assms(3) show ?thesis
      by (fastforce simp: get_tnla_association_def addr_pair_def)
  next
    case (added l r t)
    with assms show ?thesis
      by (auto simp: get_tnla_association_def assoc_inv_fresh)
  qed (use assms in auto)
qed

text \<open>
  Removal gives the addresses back.  Removing an association returns it, its identifier is
  unknown afterwards, every other entry is kept, and a connection between the same addresses,
  refused before, is accepted.
\<close>

theorem remove_tnla_association_reuse:
  assumes "assoc_inv counter tab" and "get_tnla_association i tab = Some t"
    and "stream_local_addr sctp s = Ok (local_addr t)" and "stream_peer_addr sctp s = Ok (remote_addr t)"
    and "remove_tnla_association i tab = (removed, tab')"
  shows "removed = Some t \<and> get_tnla_association i tab' = None \<and>
    (\<forall>j. j \<noteq> i \<longrightarrow> get_tnla_association j tab' = get_tnla_association j tab) \<and>
    fst (add_tnla_association sctp s counter tab) =
      Err (AssociationAlreadyExists (local_addr t) (remote_addr t)) \<and>
    is_ok (fst (add_tnla_association sctp s counter' tab'))"
proof -
  from assms(1,2) have "addr_pair t \<in> associations_set tab"
    by (auto simp: assoc_inv_def get_tnla_association_def intro: ranI)
  moreover have tab': "tab' = tab\<lparr>associations_map := (associations_map tab)(i := None),
      associations_set := associations_set tab - {addr_pair t}\<rparr>" and "removed = Some t"
    using assms(2,5) by (auto simp: remove_tnla_association_def get_tnla_association_def addr_pair_def)
  ultimately show ?thesis
    using assms(2-4)
    by (simp add: get_tnla_association_def add_tnla_association_def tnla_new_def increment_def addr_pair_def)
qed

text \<open>
  Sending.  Data for an association in the table is passed to the socket of that
  association, once and with the NGAP payload protocol identifier, and the error of the socket
  is returned with the identifier; data for an unknown association is sent nowhere.
\<close>

theorem send_data_outcome:
  "case get_tnla_association i (net_associations net) of
     None \<Rightarrow> send_data sctp i data net = (Err (TnlaNotFound i), [])
   | Some t \<Rightarrow> (\<exists>opts. ppid opts = 60 \<and> snd (send_data sctp i data net) = [(stream t, data, opts)] \<and>
       fst (send_data sctp i data net) =
         (case sendmsg sctp (stream t) data opts of
            Ok n \<Rightarrow> Ok ()
          | Err io \<Rightarrow> Err (TnlaSendError i (WriteError io))))"
  by (auto simp: send_data_def write_data_def NGAP_PPID_def Let_def split: option.splits result.splits)

subsection \<open>Witnesses\<close>

text \<open>A peer whose streams are numbered; stream \<open>n\<close> connects port 38412 with port \<open>n\<close>.\<close>

definition demo_sctp :: "(nat, nat, unit) sctp_ops" where
  "demo_sctp = \<lparr>stream_local_addr = (\<lambda>_. Ok 38412), stream_peer_addr = (\<lambda>n. Ok n),
     sendmsg = (\<lambda>_ bs _. Ok (length bs)), default_options = \<lparr>ppid = 0\<rparr>\<rparr>"

definition demo_tab :: "(nat, nat) associations" where
  "demo_tab = snd (snd (add_tnla_association demo_sctp 7 counter_new associations_new))"

definition demo_tnla :: "(nat, nat) tnla_association" where
  "demo_tnla = \<lparr>assoc_id = 1, local_addr = 38412, remote_addr = 7, stream = 7\<rparr>"

lemma demo_tab_eq:
  "add_tnla_association demo_sctp 7 counter_new associations_new = (Ok demo_tnla, 2, demo_tab)"
  "demo_tab = \<lparr>associations_map = [1 \<mapsto> demo_tnla], associations_set = {(38412, 7)}\<rparr>"
  by (simp_all add: demo_tab_def demo_tnla_def add_tnla_association_def tnla_new_def demo_sctp_def
      increment_def counter_new_def associations_new_def)

theorem network_inv_run_witness:
  "assoc_inv 2 (net_associations (\<lparr>listener = (), net_associations = demo_tab\<rparr>))"
  by (rule network_inv_run [of "[AcceptOp (Ok (7, 7))]"
        "\<lparr>listener = (), net_associations = associations_new\<rparr>" demo_sctp])
    (simp_all add: accept_and_create_tnla_def demo_tab_eq(1))

theorem add_tnla_association_outcome_witness:
  "assoc_inv 2 demo_tab \<and> get_tnla_association 1 demo_tab = Some demo_tnla"
  using add_tnla_association_outcome [OF assoc_inv_new, of counter_new demo_sctp 7, OF _ demo_tab_eq(1)]
  by (simp add: counter_new_def demo_tnla_def)

theorem remove_tnla_association_reuse_witness:
  "fst (add_tnla_association demo_sctp 7 2 demo_tab) = Err (AssociationAlreadyExists 38412 7) \<and>
   is_ok (fst (add_tnla_association demo_sctp 7 2 (snd (remove_tnla_association 1 demo_tab))))"
proof -
  have "assoc_inv 2 demo_tab"
    using add_tnla_association_inv [OF assoc_inv_new, of counter_new demo_sctp 7, OF _ demo_tab_eq(1)]
    by (simp add: counter_new_def)
  then show ?thesis
    using remove_tnla_association_reuse [of 2 demo_tab 1 demo_tnla demo_sctp 7
        "fst (remove_tnla_association 1 demo_tab)" "snd (remove_tnla_association 1 demo_tab)" 2]
    by (simp add: demo_tab_eq(2) get_tnla_association_def demo_tnla_def demo_sctp_def)
qed

end
