(* ===== verification/App_Config.thy ===== *)
theory App_Config
  imports Network_Assoc Ngap_Convert
begin

text \<open>
  \<open>config/mod.rs\<close>, \<open>context/app_context.rs\<close> and \<open>builder/sbi/nrf.rs\<close>: the validated
  configuration, the application context made from it, and the profile registered with the NRF.

  What is not in the repository is an argument: the textual forms of addresses and service
  names (\<open>text_ops\<close>), the resolver of host names, the random instance identifier, and the
  checked conversion of the profile.  Members of third-party structures the sources leave to
  \<open>Default::default()\<close> are either omitted or, where equality depends on them, one field of
  the type variable \<open>'x\<close>, which stands for all values the sources only move around.
\<close>

datatype service_name = NamfComm | NamfEvts | NamfMt | NamfLoc | OtherService string

record text_ops =
  ip_to_string :: "ip_addr \<Rightarrow> string"
  ip_from_str :: "string \<Rightarrow> ip_addr option"
  service_to_string :: "service_name \<Rightarrow> string"

subsection \<open>The configuration file\<close>

record semver =
  major :: nat
  semver_text :: string

record info =
  version :: semver
  description :: string

text \<open>\<open>tai_rest\<close> are the members of a tracking area identity the sources never set.\<close>

record 'x tai =
  tai_plmn_id :: plmn_id
  tai_tac :: string
  tai_rest :: 'x

record 'x file_configuration =
  amf_name :: string
  ngap_ip_list :: "ip_addr list"
  file_ngap_port :: u16
  file_served_guami_list :: "sbi_guami non_empty"
  file_support_tai_list :: "'x tai list"
  file_plmn_support_list :: "config_plmn_support_item non_empty"
  file_support_dnn_list :: "string list"
  nrf_uri :: string
  sctp :: sctp_config

record tls =
  tls_pem :: string
  tls_key :: string

text \<open>The structures that the file format declares and the AMF does not read yet.\<close>

record nas_security =
  integrity_order :: "string list"
  ciphering_order :: "string list"

record network_name =
  name_full :: string
  name_short :: string

record mobility_restriction_list =
  mobility_restriction_enable :: bool

record masked_imeisv =
  masked_imeisv_enable :: bool

record redirect_voice_fallback =
  redirect_voice_fallback_enable :: bool

record network_feature_support_5gs =
  feature_enable :: bool
  feature_length :: u8
  ims_vo_ps :: u8
  emc :: u8
  emf :: u8
  iwk_n26 :: u8
  mpsi :: u8
  emc_n3 :: u8
  mcsi :: u8

record timer =
  timer_enable :: bool
  expire_time :: "32 word"
  max_retry_times :: u8

record sbi_config =
  scheme :: string
  register_ip :: ip_addr
  binding_ip :: ip_addr
  sbi_port :: u16
  sbi_tls :: tls
  service_name_list :: "service_name list"

text \<open>The configuration every network function has, \<open>utils/nf-base/src/lib.rs\<close>.\<close>

datatype runtime_type = Single | Multi

record logging_config =
  log_enable :: bool
  log_level :: string
  report_caller :: bool

record runtime_config =
  rt_type :: runtime_type

record 'x omnipath_config =
  config_info :: info
  configuration :: "'x file_configuration"
  logger :: logging_config
  runtime :: runtime_config
  config_sbi :: sbi_config

definition get_ip_uri :: "text_ops \<Rightarrow> sbi_config \<Rightarrow> string" where
  "get_ip_uri txt s = scheme s @ ''://'' @ ip_to_string txt (register_ip s) @ '':'' @
     show_nat (unat (sbi_port s))"

definition display_slice :: "('a \<Rightarrow> string) \<Rightarrow> 'a list \<Rightarrow> string" where
  "display_slice to_string input = join '', '' (map to_string input)"

datatype validation_error = MinItems string | Custom string

definition enum_list ::
  "text_ops \<Rightarrow> service_name list \<Rightarrow> service_name list \<Rightarrow> (unit, validation_error) result" where
  "enum_list txt allowed val =
     (if list_all (\<lambda>item. item \<in> set allowed) val then Ok ()
      else Err (Custom (''Not all elements in '' @ display_slice (service_to_string txt) val @
        '' are present in '' @ display_slice (service_to_string txt) allowed @ ''.'')))"

definition min_items :: "nat \<Rightarrow> string \<Rightarrow> 'a list \<Rightarrow> (unit, validation_error) result" where
  "min_items n field xs = (if n \<le> length xs then Ok () else Err (MinItems field))"

text \<open>The validation attributes of \<open>Configuration\<close>, \<open>Sbi\<close> and \<open>OmniPathConfig\<close>.\<close>

fun collect_errors :: "(unit, validation_error) result list \<Rightarrow> (unit, validation_error list) result" where
  "collect_errors [] = Ok ()"
| "collect_errors (Ok _ # rs) = collect_errors rs"
| "collect_errors (Err e # rs) =
     (case collect_errors rs of Ok _ \<Rightarrow> Err [e] | Err es \<Rightarrow> Err (e # es))"

definition validate :: "text_ops \<Rightarrow> 'x omnipath_config \<Rightarrow> (unit, validation_error list) result" where
  "validate txt c = collect_errors [
     min_items 1 ''supportTaiList'' (file_support_tai_list (configuration c)),
     min_items 1 ''supportDnnList'' (file_support_dnn_list (configuration c)),
     min_items 1 ''serviceNameList'' (service_name_list (config_sbi c)),
     enum_list txt [NamfComm, NamfEvts, NamfMt, NamfLoc] (service_name_list (config_sbi c))]"

datatype 'a serde_validated = SerdeValidated 'a

definition serde_validated_new ::
  "text_ops \<Rightarrow> 'x omnipath_config \<Rightarrow> ('x omnipath_config serde_validated, validation_error list) result" where
  "serde_validated_new txt value = and_then (validate txt value) (\<lambda>_. Ok (SerdeValidated value))"

primrec validated_inner :: "'a serde_validated \<Rightarrow> 'a" where
  "validated_inner (SerdeValidated c) = c"

text \<open>
  Addresses of the configuration file: an address literal is taken as it is, anything else is
  looked up; \<open>lookup\<close> is the resolver.
\<close>

datatype 'e resolve_error = LookupError 'e | CouldNotResolve string

definition resolve_ip_or_hostname ::
  "text_ops \<Rightarrow> (string \<Rightarrow> (ip_addr list, 'e) result) \<Rightarrow> string \<Rightarrow> (ip_addr, 'e resolve_error) result" where
  "resolve_ip_or_hostname txt lookup s =
     (case ip_from_str txt s of
        Some ip \<Rightarrow> Ok ip
      | None \<Rightarrow>
          and_then (map_err LookupError (lookup s)) (\<lambda>addresses.
            case addresses of
              socket_addr # _ \<Rightarrow> Ok socket_addr
            | [] \<Rightarrow> Err (CouldNotResolve s)))"

definition deserialize_ip_addr ::
  "text_ops \<Rightarrow> (string \<Rightarrow> (ip_addr list, 'e) result) \<Rightarrow> string \<Rightarrow>
     (ip_addr, 'e resolve_error) result" where
  "deserialize_ip_addr txt lookup string = resolve_ip_or_hostname txt lookup string"

fun deserialize_ip_list ::
  "text_ops \<Rightarrow> (string \<Rightarrow> (ip_addr list, 'e) result) \<Rightarrow> string list \<Rightarrow> (ip_addr list, 'e resolve_error) result" where
  "deserialize_ip_list txt lookup [] = Ok []"
| "deserialize_ip_list txt lookup (s # strings) =
     and_then (resolve_ip_or_hostname txt lookup s) (\<lambda>ip_addr.
       and_then (deserialize_ip_list txt lookup strings) (\<lambda>ip_addrs. Ok (ip_addr # ip_addrs)))"

subsection \<open>The application context\<close>

record ip_end_point =
  ipv4_address :: "u32 option"
  ipv6_address :: "128 word option"
  transport_tcp :: bool

record nf_service_version =
  api_full_version :: string
  api_version_in_uri :: string
  expiry :: "string option"

datatype nf_service_status = ServiceRegistered

record nf_service =
  api_prefix :: "string option"
  service_instance_id :: string
  service_name :: service_name
  versions :: "nf_service_version list"
  service_scheme :: string
  service_status :: nf_service_status
  ip_end_points :: "ip_end_point list"

record ('u, 'x) app_configuration =
  app_name :: string
  nf_id :: 'u
  ngap_ips :: "ip_addr list"
  ngap_port :: u16
  served_guami_list :: "sbi_guami non_empty"
  support_dnn_list :: "string list"
  support_tai_list :: "'x tai list"
  plmn_support_list :: "config_plmn_support_item non_empty"
  tnl_weight_factor :: u64
  nf_services :: "nf_service list"

definition build_nf_services :: "text_ops \<Rightarrow> 'x omnipath_config serde_validated \<Rightarrow> nf_service list" where
  "build_nf_services txt valid_config =
     (let config = validated_inner valid_config;
          prefix = Some (get_ip_uri txt (config_sbi config));
          version_uri = ''v'' @ show_nat (major (version (config_info config)))
      in map (\<lambda>(i, svc).
            let ip_endpoint = \<lparr>ipv4_address = None, ipv6_address = None, transport_tcp = True\<rparr>;
                ip_endpoint = (case register_ip (config_sbi config) of
                    V4 v4 \<Rightarrow> ip_endpoint\<lparr>ipv4_address := Some v4\<rparr>
                  | V6 v6 \<Rightarrow> ip_endpoint\<lparr>ipv6_address := Some v6\<rparr>)
            in \<lparr>api_prefix = prefix, service_instance_id = show_nat i, service_name = svc,
                versions = [\<lparr>api_full_version = semver_text (version (config_info config)),
                  api_version_in_uri = version_uri, expiry = None\<rparr>],
                service_scheme = scheme (config_sbi config), service_status = ServiceRegistered,
                ip_end_points = [ip_endpoint]\<rparr>)
          (List.enumerate 0 (service_name_list (config_sbi config))))"

definition configuration_new ::
  "text_ops \<Rightarrow> 'u \<Rightarrow> 'x omnipath_config serde_validated \<Rightarrow> ('u, 'x) app_configuration" where
  "configuration_new txt uuid valid_config =
     (let config = configuration (validated_inner valid_config)
      in \<lparr>app_name = amf_name config, nf_id = uuid, ngap_ips = ngap_ip_list config,
          ngap_port = file_ngap_port config, served_guami_list = file_served_guami_list config,
          support_dnn_list = file_support_dnn_list config,
          support_tai_list = file_support_tai_list config,
          plmn_support_list = file_plmn_support_list config,
          tnl_weight_factor = 0, nf_services = build_nf_services txt valid_config\<rparr>)"

record ('u, 'x) app_context =
  app_config :: "('u, 'x) app_configuration"
  app_sbi :: sbi_config

definition app_context_initialize ::
  "text_ops \<Rightarrow> 'u \<Rightarrow> 'x omnipath_config serde_validated \<Rightarrow> ('u, 'x) app_context" where
  "app_context_initialize txt uuid config =
     \<lparr>app_config = configuration_new txt uuid config, app_sbi = config_sbi (validated_inner config)\<rparr>"

definition update_config ::
  "text_ops \<Rightarrow> 'u \<Rightarrow> 'x omnipath_config serde_validated \<Rightarrow> ('u, 'x) app_context \<Rightarrow> ('u, 'x) app_context" where
  "update_config txt uuid valid_config ctx =
     ctx\<lparr>app_config := configuration_new txt uuid valid_config,
         app_sbi := config_sbi (validated_inner valid_config)\<rparr>"

definition get_config :: "('u, 'x) app_context \<Rightarrow> ('u, 'x) app_configuration" where
  "get_config ctx = app_config ctx"

definition get_sbi_config :: "('u, 'x) app_context \<Rightarrow> sbi_config" where
  "get_sbi_config ctx = app_sbi ctx"

text \<open>\<open>commit_config\<close> loads a snapshot and stores what the closure makes of it.\<close>

definition commit_load :: "('u, 'x) app_context \<Rightarrow> ('u, 'x) app_configuration" where
  "commit_load ctx = app_config ctx"

definition commit_store ::
  "(('u, 'x) app_configuration \<Rightarrow> ('u, 'x) app_configuration) \<Rightarrow> ('u, 'x) app_configuration \<Rightarrow>
     ('u, 'x) app_context \<Rightarrow> ('u, 'x) app_context" where
  "commit_store update_fn new_config ctx = ctx\<lparr>app_config := update_fn new_config\<rparr>"

definition commit_config ::
  "(('u, 'x) app_configuration \<Rightarrow> ('u, 'x) app_configuration) \<Rightarrow> ('u, 'x) app_context \<Rightarrow>
     ('u, 'x) app_context" where
  "commit_config update_fn ctx = commit_store update_fn (commit_load ctx) ctx"

definition get_nf_id :: "('u, 'x) app_context \<Rightarrow> 'u" where
  "get_nf_id ctx = nf_id (app_config ctx)"

subsection \<open>The global cell\<close>

text \<open>
  \<open>APP_CONTEXT\<close> is a \<open>OnceCell\<close>: \<open>set\<close> succeeds once; \<open>get_global_app_context\<close> fills an
  empty cell from the default configuration, unwrapping its validation.
\<close>

definition app_context_set ::
  "('u, 'x) app_context \<Rightarrow> ('u, 'x) app_context option \<Rightarrow>
     (unit, ('u, 'x) app_context) result \<times> ('u, 'x) app_context option" where
  "app_context_set ctx cell =
     (case cell of None \<Rightarrow> (Ok (), Some ctx) | Some _ \<Rightarrow> (Err ctx, cell))"

definition get_global_app_context ::
  "text_ops \<Rightarrow> 'u \<Rightarrow> 'x omnipath_config \<Rightarrow> ('u, 'x) app_context option \<Rightarrow>
     (('u, 'x) app_context \<times> ('u, 'x) app_context option) option" where
  "get_global_app_context txt uuid default_config cell =
     (case cell of
        Some ctx \<Rightarrow> Some (ctx, cell)
      | None \<Rightarrow> do {
          config \<leftarrow> unwrap (serde_validated_new txt default_config);
          let ctx = app_context_initialize txt uuid config;
          Some (ctx, Some ctx)
        })"

subsection \<open>The profile for the NRF\<close>

record 'x amf_info =
  info_amf_region_id :: u8
  info_amf_set_id :: u16
  guami_list :: "sbi_guami list"
  tai_list :: "'x tai list"

datatype nf_type = NfTypeAmf | NfTypeNrf

datatype nf_status = NfRegistered

record ('u, 'x) nf_profile =
  nf_instance_id :: 'u
  profile_nf_type :: nf_type
  profile_nf_status :: nf_status
  profile_amf_info :: "'x amf_info option"
  plmn_list :: "plmn_id list"
  profile_services :: "nf_service list"
  ipv4_addresses :: "u32 list"
  ipv6_addresses :: "128 word list"

text \<open>\<open>check\<close> is the \<open>TryFrom\<close> from the unchecked profile.\<close>

datatype 'e model_build_error = InvalidConversion 'e

definition build_nf_profile ::
  "(('u, 'x) nf_profile \<Rightarrow> ('p, 'e) result) \<Rightarrow> ('u, 'x) app_context \<Rightarrow> ('p, 'e model_build_error) result" where
  "build_nf_profile check ctx =
     (let config = app_config ctx; sbi = app_sbi ctx;
          amf_id = amf_id (head (served_guami_list config));
          amf_info = \<lparr>info_amf_region_id = region_id amf_id, info_amf_set_id = set_id amf_id,
            guami_list = ne_list (served_guami_list config), tai_list = support_tai_list config\<rparr>;
          plmns = map item_plmn_id (ne_list (plmn_support_list config));
          nf_profile = \<lparr>nf_instance_id = nf_id config, profile_nf_type = NfTypeAmf,
            profile_nf_status = NfRegistered, profile_amf_info = Some amf_info,
            plmn_list = plmns, profile_services = nf_services config,
            ipv4_addresses = [], ipv6_addresses = []\<rparr>;
          nf_profile = (case register_ip sbi of
              V4 v4 \<Rightarrow> nf_profile\<lparr>ipv4_addresses := [v4]\<rparr>
            | V6 v6 \<Rightarrow> nf_profile\<lparr>ipv6_addresses := [v6]\<rparr>)
      in map_err InvalidConversion (check nf_profile))"

subsection \<open>Properties\<close>

lemma collect_errors_Ok: "collect_errors rs = Ok () \<longleftrightarrow> list_all is_ok rs"
  by (induction rs rule: collect_errors.induct) (auto split: result.splits)

lemma serde_validated_new_Ok:
  "serde_validated_new txt c = Ok v \<longleftrightarrow> v = SerdeValidated c \<and>
     file_support_tai_list (configuration c) \<noteq> [] \<and> file_support_dnn_list (configuration c) \<noteq> [] \<and>
     service_name_list (config_sbi c) \<noteq> [] \<and>
     set (service_name_list (config_sbi c)) \<subseteq> {NamfComm, NamfEvts, NamfMt, NamfLoc}"
proof -
  have "serde_validated_new txt c = Ok v \<longleftrightarrow> v = SerdeValidated c \<and> validate txt c = Ok ()"
    by (cases "validate txt c") (auto simp: serde_validated_new_def)
  also have "validate txt c = Ok () \<longleftrightarrow>
     file_support_tai_list (configuration c) \<noteq> [] \<and> file_support_dnn_list (configuration c) \<noteq> [] \<and>
     service_name_list (config_sbi c) \<noteq> [] \<and>
     set (service_name_list (config_sbi c)) \<subseteq> {NamfComm, NamfEvts, NamfMt, NamfLoc}"
    unfolding validate_def collect_errors_Ok
    by (auto simp: min_items_def enum_list_def list_all_iff Suc_le_eq)
  finally show ?thesis .
qed

lemma length_build_nf_services [simp]:
  "length (build_nf_services txt v) = length (service_name_list (config_sbi (validated_inner v)))"
  by (simp add: build_nf_services_def Let_def)

lemma build_nf_services_nth:
  assumes "i < length (service_name_list (config_sbi (validated_inner v)))"
  shows "service_instance_id (build_nf_services txt v ! i) = show_nat i"
    and "service_name (build_nf_services txt v ! i) = service_name_list (config_sbi (validated_inner v)) ! i"
    and "api_prefix (build_nf_services txt v ! i) = Some (get_ip_uri txt (config_sbi (validated_inner v)))"
  using assms by (simp_all add: build_nf_services_def Let_def nth_enumerate_eq)

text \<open>
  The services offered to the NRF.  The context of a validated configuration lists the
  configured services in order, at least one and each of them one of the four the AMF may
  offer, under pairwise distinct instance identifiers.
\<close>

theorem registered_services:
  assumes "serde_validated_new txt c = Ok v"
  shows "let services = nf_services (app_config (app_context_initialize txt uuid v)) in
    map service_name services = service_name_list (config_sbi c) \<and> services \<noteq> [] \<and>
    set (map service_name services) \<subseteq> {NamfComm, NamfEvts, NamfMt, NamfLoc} \<and>
    distinct (map service_instance_id services)"
proof -
  let ?services = "build_nf_services txt v" and ?names = "service_name_list (config_sbi c)"
  from assms have v: "validated_inner v = c" and valid: "?names \<noteq> []"
      "set ?names \<subseteq> {NamfComm, NamfEvts, NamfMt, NamfLoc}"
    by (auto simp: serde_validated_new_Ok)
  have names: "map service_name ?services = ?names"
    by (rule nth_equalityI) (simp_all add: v build_nf_services_nth)
  have "distinct (map service_instance_id ?services)"
    by (simp add: distinct_conv_nth v build_nf_services_nth)
  moreover have "nf_services (app_config (app_context_initialize txt uuid v)) = ?services"
    by (simp add: app_context_initialize_def configuration_new_def Let_def)
  moreover from names valid(1) have "?services \<noteq> []"
    by auto
  ultimately show ?thesis
    using valid(2) by (simp only: Let_def names) simp
qed

definition demo_text :: text_ops where
  "demo_text = \<lparr>ip_to_string = (\<lambda>_. ''127.0.0.1''), ip_from_str = (\<lambda>_. None),
     service_to_string = (\<lambda>_. ''namf-comm'')\<rparr>"

definition demo_guami :: sbi_guami where
  "demo_guami = \<lparr>guami_plmn_id = \<lparr>mcc = ''208'', mnc = ''93'', nid = None\<rparr>,
     amf_id = \<lparr>region_id = 202, set_id = 1016, pointer_id = 0\<rparr>\<rparr>"

definition demo_config :: "unit omnipath_config" where
  "demo_config = \<lparr>config_info = \<lparr>version = \<lparr>major = 1, semver_text = ''1.0.0''\<rparr>, description = ''AMF''\<rparr>,
     configuration = \<lparr>amf_name = ''AMF'', ngap_ip_list = [V4 0x7F000001], file_ngap_port = 38412,
       file_served_guami_list = \<lparr>head = demo_guami, tail = []\<rparr>,
       file_support_tai_list =
         [\<lparr>tai_plmn_id = \<lparr>mcc = ''208'', mnc = ''93''\<rparr>, tai_tac = ''000001'', tai_rest = ()\<rparr>],
       file_plmn_support_list = demo_plmn_support, file_support_dnn_list = [''internet''],
       nrf_uri = ''http://nrf:8000'', sctp = \<lparr>num_ostreams = 3, max_instreams = 5, max_attempts = 2,
         max_init_timeout = 2\<rparr>\<rparr>,
     logger = \<lparr>log_enable = True, log_level = ''info'', report_caller = False\<rparr>,
     runtime = \<lparr>rt_type = Multi\<rparr>,
     config_sbi = \<lparr>scheme = ''http'', register_ip = V4 0x7F000001, binding_ip = V4 0x7F000001,
       sbi_port = 8000, sbi_tls = \<lparr>tls_pem = ''pem'', tls_key = ''key''\<rparr>,
       service_name_list = [NamfComm, NamfEvts]\<rparr>\<rparr>"

theorem registered_services_witness:
  "map service_name (nf_services (app_config
     (app_context_initialize demo_text (0 :: nat) (SerdeValidated demo_config)))) = [NamfComm, NamfEvts]"
proof -
  have "serde_validated_new demo_text demo_config = Ok (SerdeValidated demo_config)"
    by (simp add: serde_validated_new_Ok demo_config_def)
  from registered_services [OF this, of "0 :: nat"] show ?thesis
    by (simp only: Let_def) (simp add: demo_config_def)
qed

text \<open>
  Addresses of the configuration file.  The list is resolved entry by entry in order, an
  entry to its literal or to the first address of its lookup; the first entry that does not
  resolve makes the whole list fail with its error.
\<close>

theorem deserialize_ip_list_outcome:
  "case deserialize_ip_list txt lookup strings of
     Ok ips \<Rightarrow> list_all2 (\<lambda>s ip. ip_from_str txt s = Some ip \<or>
         ip_from_str txt s = None \<and> (\<exists>rest. lookup s = Ok (ip # rest))) strings ips
   | Err e \<Rightarrow> (\<exists>good s rest. strings = good @ s # rest \<and>
         (\<forall>g \<in> set good. is_ok (resolve_ip_or_hostname txt lookup g)) \<and>
         ip_from_str txt s = None \<and>
         (lookup s = Ok [] \<and> e = CouldNotResolve s \<or> (\<exists>err. lookup s = Err err \<and> e = LookupError err)))"
proof (induction strings)
  case Nil
  then show ?case by simp
next
  case (Cons s strings)
  show ?case
  proof (cases "resolve_ip_or_hostname txt lookup s")
    case (Ok ip)
    then have ip: "ip_from_str txt s = Some ip \<or> ip_from_str txt s = None \<and> (\<exists>rest. lookup s = Ok (ip # rest))"
      by (cases "lookup s") (auto simp: resolve_ip_or_hostname_def split: option.splits list.splits)
    show ?thesis
    proof (cases "deserialize_ip_list txt lookup strings")
      case (Err e)
      with Cons.IH obtain good s' rest where "strings = good @ s' # rest"
          "\<forall>g \<in> set (s # good). is_ok (resolve_ip_or_hostname txt lookup g)"
          "ip_from_str txt s' = None"
          "lookup s' = Ok [] \<and> e = CouldNotResolve s' \<or> (\<exists>err. lookup s' = Err err \<and> e = LookupError err)"
        using Ok by auto
      with Ok Err show ?thesis
        by (simp, intro exI [of _ "s # good"]) auto
    qed (use Cons.IH Ok ip in simp)
  next
    case (Err e)
    then have "ip_from_str txt s = None \<and>
        (lookup s = Ok [] \<and> e = CouldNotResolve s \<or> (\<exists>err. lookup s = Err err \<and> e = LookupError err))"
      by (cases "lookup s") (auto simp: resolve_ip_or_hostname_def split: option.splits list.splits)
    with Err show ?thesis
      by (simp, intro exI [of _ "[] :: string list"]) auto
  qed
qed

theorem deserialize_ip_list_outcome_witness:
  "deserialize_ip_list demo_text (\<lambda>s. if s = ''amf'' then Ok [V4 1, V4 2] else Err ''no such host'')
     [''amf'', ''nowhere'', ''amf''] = Err (LookupError ''no such host'')"
proof -
  have "\<not> is_ok (deserialize_ip_list demo_text
      (\<lambda>s. if s = ''amf'' then Ok [V4 1, V4 2] else Err ''no such host'') [''amf'', ''nowhere'', ''amf''])"
    by (simp add: resolve_ip_or_hostname_def demo_text_def)
  then show ?thesis
    using deserialize_ip_list_outcome [of demo_text
        "\<lambda>s. if s = ''amf'' then Ok [V4 1, V4 2] else Err ''no such host''" "[''amf'', ''nowhere'', ''amf'']"]
    by (auto split: result.splits if_splits)
qed

text \<open>
  The global context.  Once set, it is what every caller gets and cannot be set again;
  asked for before that, it would be made from a default configuration, whose empty lists fail
  the validation, so the caller panics and the cell stays empty.
\<close>

theorem global_app_context:
  "fst (app_context_set ctx None) = Ok () \<and>
   get_global_app_context txt uuid dflt (snd (app_context_set ctx None)) = Some (ctx, Some ctx) \<and>
   app_context_set ctx' (snd (app_context_set ctx None)) = (Err ctx', Some ctx) \<and>
   (file_support_tai_list (configuration dflt) = [] \<longrightarrow>
      get_global_app_context txt uuid dflt None = None)"
proof (intro conjI impI)
  assume "file_support_tai_list (configuration dflt) = []"
  then have "serde_validated_new txt dflt \<noteq> Ok v" for v
    by (simp add: serde_validated_new_Ok)
  then show "get_global_app_context txt uuid dflt None = None"
    by (cases "serde_validated_new txt dflt") (auto simp: get_global_app_context_def)
qed (simp_all add: app_context_set_def get_global_app_context_def)

theorem global_app_context_witness:
  "get_global_app_context demo_text (0 :: nat)
     (demo_config\<lparr>configuration := (configuration demo_config)\<lparr>file_support_tai_list := []\<rparr>\<rparr>) None = None"
  using global_app_context
    [of _ demo_text "0 :: nat"
      "demo_config\<lparr>configuration := (configuration demo_config)\<lparr>file_support_tai_list := []\<rparr>\<rparr>"]
  by simp

text \<open>
  The profile describes the configuration it was built from: instance identifier, the
  region and set of the first served GUAMI, all served GUAMIs, tracking areas and PLMNs in
  order, the services, and exactly one address, in the list of its family.
\<close>

theorem build_nf_profile_contents:
  "build_nf_profile check ctx = map_err InvalidConversion (check \<lparr>
     nf_instance_id = get_nf_id ctx, profile_nf_type = NfTypeAmf, profile_nf_status = NfRegistered,
     profile_amf_info = Some \<lparr>
       info_amf_region_id = region_id (amf_id (hd (ne_list (served_guami_list (app_config ctx))))),
       info_amf_set_id = set_id (amf_id (hd (ne_list (served_guami_list (app_config ctx))))),
       guami_list = ne_list (served_guami_list (app_config ctx)),
       tai_list = support_tai_list (app_config ctx)\<rparr>,
     plmn_list = map item_plmn_id (ne_list (plmn_support_list (app_config ctx))),
     profile_services = nf_services (app_config ctx),
     ipv4_addresses = (case register_ip (app_sbi ctx) of V4 a \<Rightarrow> [a] | V6 a \<Rightarrow> []),
     ipv6_addresses = (case register_ip (app_sbi ctx) of V4 a \<Rightarrow> [] | V6 a \<Rightarrow> [a])\<rparr>)"
  by (simp add: build_nf_profile_def Let_def get_nf_id_def ne_list_def split: ip_addr.splits)

text \<open>
  Two tasks that commit updates may both load before either stores: the first update is then
  lost, while commits that do not overlap compose.
\<close>

lemma commit_config_lost_update:
  assumes "s1 = commit_load ctx" and "s2 = commit_load ctx"
  shows "commit_store g s2 (commit_store f s1 ctx) = commit_config g ctx"
    and "commit_config g (commit_config f ctx) = commit_config (g \<circ> f) ctx"
  using assms by (simp_all add: commit_store_def commit_load_def commit_config_def)

end
