(* ===== verification/Ngap_Messages.thy ===== *)
theory Ngap_Messages
  imports Ngap_Convert
begin

text \<open>
  The NGAP messages the handlers read and write, the wrapper types of
  \<open>ngap/engine/interfaces.rs\<close>, and the helpers of \<open>ngap/core/utils.rs\<close> and
  \<open>ngap/engine/utils.rs\<close>.

  The message types and the ASN.1 codec come from the third-party crates \<open>ngap_models\<close> and
  \<open>asn1_per\<close>.  The records have the members the sources name; \<open>'r\<close> is the type of RAN node
  identifiers and \<open>'x\<close> stands for the values the sources only move around.  The functions of
  the crates are the record \<open>ngap_models\<close>; nothing is assumed of them.
\<close>

subsection \<open>Messages\<close>

datatype cause_protocol =
    SemanticError
  | AbstractSyntaxErrorFalselyConstructedMessage
  | MessageNotCompatibleWithReceiverState

datatype cause_misc = UnknownPlmnOrSnpn

datatype cause = CauseProtocol cause_protocol | CauseMisc cause_misc

type_synonym ran_ue_ngap_id = u32
type_synonym amf_ue_ngap_id = u64

record 'x criticality_diagnostics =
  diag_procedure_code :: "u8 option"
  triggering_message :: "'x option"
  procedure_criticality :: "'x option"
  i_es_criticality_diagnostics :: "'x option"

record 'x error_indication =
  ei_amf_ue_ngap_id :: "amf_ue_ngap_id option"
  ei_ran_ue_ngap_id :: "ran_ue_ngap_id option"
  ei_cause :: "cause option"
  ei_criticality_diagnostics :: "'x criticality_diagnostics option"

text \<open>\<open>ErrorIndication::default()\<close>: every member is an \<open>Option\<close>.\<close>

definition error_indication_default :: "'x error_indication" where
  "error_indication_default = \<lparr>ei_amf_ue_ngap_id = None, ei_ran_ue_ngap_id = None,
     ei_cause = None, ei_criticality_diagnostics = None\<rparr>"

record extended_ran_node_name =
  ran_node_name_visible_string :: "string option"
  ran_node_name_utf8_string :: "string option"

record broadcast_plmn_item =
  bp_plmn_identity :: ngap_plmn_identity
  tai_slice_support_list :: "slice_support_item non_empty"

record supported_ta_item =
  ta_tac :: octets3
  broadcast_plmn_list :: "broadcast_plmn_item list"

record ('r, 'x) ng_setup_request =
  req_global_ran_node_id :: 'r
  req_ran_node_name :: "string option"
  supported_ta_list :: "supported_ta_item list"
  req_default_paging_drx :: 'x
  req_extended_ran_node_name :: "extended_ran_node_name option"

record ng_setup_response =
  resp_plmn_support_list :: "ngap_plmn_support_item non_empty"
  resp_served_guami_list :: "served_guami_item non_empty"
  relative_amf_capacity :: u8
  resp_amf_name :: string

record ng_setup_failure =
  failure_cause :: cause

record 'x initial_ue_message =
  iu_ran_ue_ngap_id :: ran_ue_ngap_id
  iu_nas_pdu :: bytes
  iu_rrc_establishment_cause :: 'x
  iu_five_g_s_tmsi :: "ngap_five_g_s_tmsi option"

record downlink_nas_transport =
  dl_ran_ue_ngap_id :: ran_ue_ngap_id
  dl_amf_ue_ngap_id :: amf_ue_ngap_id
  dl_nas_pdu :: bytes

datatype ('r, 'x) initiating_message =
    NgSetupRequest "('r, 'x) ng_setup_request"
  | InitialUeMessage "'x initial_ue_message"
  | OtherInitiatingMessage 'x

datatype ('r, 'x) ngap_pdu =
    InitiatingMessage "('r, 'x) initiating_message"
  | SuccessfulOutcome 'x
  | UnsuccessfulOutcome 'x

subsection \<open>The codec\<close>

record 'x three_gpp_asn1_per_error =
  diagnostics :: 'x
  codec_error :: 'x

record ('r, 'x) ngap_models =
  from_bytes :: "bytes \<Rightarrow> (('r, 'x) ngap_pdu, 'x three_gpp_asn1_per_error) result"
  new_codec_data :: 'x
  encode_pdu :: "('r, 'x) ngap_pdu \<Rightarrow> 'x \<Rightarrow> ('x, 'x three_gpp_asn1_per_error) result"
  codec_into_bytes :: "'x \<Rightarrow> bytes"
  get_message_info :: "bytes \<Rightarrow> 'x option \<times> u8 option \<times> 'x option"
  convert_diagnostics_to_ie :: "'x \<Rightarrow> 'x option"
  error_indication_to_pdu :: "'x error_indication \<Rightarrow> ('r, 'x) ngap_pdu"
  ng_setup_response_to_pdu :: "ng_setup_response \<Rightarrow> ('r, 'x) ngap_pdu"
  ng_setup_failure_to_pdu :: "ng_setup_failure \<Rightarrow> ('r, 'x) ngap_pdu"
  downlink_nas_transport_to_pdu :: "downlink_nas_transport \<Rightarrow> ('r, 'x) ngap_pdu"

definition codec_to_bytes ::
  "('r, 'x) ngap_models \<Rightarrow> ('r, 'x) ngap_pdu \<Rightarrow> (bytes, 'x three_gpp_asn1_per_error) result" where
  "codec_to_bytes ngap data =
     (let d = new_codec_data ngap
      in and_then (encode_pdu ngap data d) (\<lambda>d. Ok (codec_into_bytes ngap d)))"

definition build_criticality_diagnostics ::
  "('r, 'x) ngap_models \<Rightarrow> bytes \<Rightarrow> 'x three_gpp_asn1_per_error \<Rightarrow> 'x error_indication \<times> 'x" where
  "build_criticality_diagnostics ngap request error =
     (let ies = convert_diagnostics_to_ie ngap (diagnostics error);
          (triggering, procedure_code, criticality) = get_message_info ngap request;
          criticality_diagnostics = \<lparr>diag_procedure_code = procedure_code,
            triggering_message = triggering, procedure_criticality = criticality,
            i_es_criticality_diagnostics = ies\<rparr>;
          err = error_indication_default\<lparr>
            ei_cause := Some (CauseProtocol AbstractSyntaxErrorFalselyConstructedMessage),
            ei_criticality_diagnostics := Some criticality_diagnostics\<rparr>
      in (err, codec_error error))"

definition decode_ngap_pdu ::
  "('r, 'x) ngap_models \<Rightarrow> bytes \<Rightarrow> (('r, 'x) ngap_pdu, ('r, 'x) ngap_pdu \<times> 'x) result" where
  "decode_ngap_pdu ngap request =
     (case from_bytes ngap request of
        Ok pdu \<Rightarrow> Ok pdu
      | Err e \<Rightarrow>
          (let (err, codec_error) = build_criticality_diagnostics ngap request e
           in Err (error_indication_to_pdu ngap err, codec_error)))"

subsection \<open>Small helpers of the handlers\<close>

fun resolve_ran_name :: "string option \<Rightarrow> extended_ran_node_name option \<Rightarrow> string" where
  "resolve_ran_name (Some ran_node_name) None = ran_node_name"
| "resolve_ran_name _ (Some extended) =
     (case (ran_node_name_visible_string extended, ran_node_name_utf8_string extended) of
        (Some visible, None) \<Rightarrow> visible
      | (Some _, Some utf8) \<Rightarrow> utf8
      | (None, Some utf8) \<Rightarrow> utf8
      | (None, None) \<Rightarrow> [])"
| "resolve_ran_name None None = []"

definition new_semantic_error_cause :: cause where
  "new_semantic_error_cause = CauseProtocol SemanticError"

definition new_semantic_error ::
  "amf_ue_ngap_id option \<Rightarrow> ran_ue_ngap_id option \<Rightarrow> 'x error_indication" where
  "new_semantic_error amf_ue_ngap_id ran_ue_ngap_id =
     error_indication_default\<lparr>ei_cause := Some new_semantic_error_cause,
       ei_amf_ue_ngap_id := amf_ue_ngap_id, ei_ran_ue_ngap_id := ran_ue_ngap_id\<rparr>"

subsection \<open>Responses of the handlers\<close>

datatype ('f, 'x) ngap_failure = Failure 'f | GenericError "'x error_indication"

record ('f, 'x, 'e) ngap_response_error =
  resp_failure :: "('f, 'x) ngap_failure"
  resp_error :: 'e

definition failure_new_failure :: "'f \<Rightarrow> ('f, 'x) ngap_failure" where [simp]:
  "failure_new_failure failure = Failure failure"

definition failure_new_generic_error :: "'x error_indication \<Rightarrow> ('f, 'x) ngap_failure" where [simp]:
  "failure_new_generic_error error = GenericError error"

definition new_generic_error :: "'x error_indication \<Rightarrow> 'e \<Rightarrow> ('f, 'x, 'e) ngap_response_error" where
  "new_generic_error f e = \<lparr>resp_failure = failure_new_generic_error f, resp_error = e\<rparr>"

definition new_failure_error :: "'f \<Rightarrow> 'e \<Rightarrow> ('f, 'x, 'e) ngap_response_error" where
  "new_failure_error f e = \<lparr>resp_failure = failure_new_failure f, resp_error = e\<rparr>"

datatype empty_response = EmptyResponse

definition empty_response_new :: empty_response where [simp]:
  "empty_response_new = EmptyResponse"

definition new_empty_failure_error :: "'e \<Rightarrow> (empty_response, 'x, 'e) ngap_response_error" where
  "new_empty_failure_error e = new_failure_error empty_response_new e"

text \<open>
  The trait \<open>ToPdu\<close>: a message that is a PDU answers with it, the empty response with nothing.
\<close>

definition to_pdu_some :: "('m \<Rightarrow> 'p) \<Rightarrow> 'm \<Rightarrow> 'p option" where
  "to_pdu_some to_ngap_pdu m = Some (to_ngap_pdu m)"

primrec empty_response_to_pdu :: "empty_response \<Rightarrow> 'p option" where
  "empty_response_to_pdu EmptyResponse = None"

primrec ngap_failure_to_pdu ::
  "('r, 'x) ngap_models \<Rightarrow> ('f \<Rightarrow> ('r, 'x) ngap_pdu) \<Rightarrow> ('f, 'x) ngap_failure \<Rightarrow> ('r, 'x) ngap_pdu" where
  "ngap_failure_to_pdu ngap f_to_pdu (Failure f) = f_to_pdu f"
| "ngap_failure_to_pdu ngap f_to_pdu (GenericError e) = error_indication_to_pdu ngap e"

text \<open>A failure that carries no message is answered only when it is a generic error.\<close>

primrec empty_failure_to_pdu ::
  "('r, 'x) ngap_models \<Rightarrow> (empty_response, 'x) ngap_failure \<Rightarrow> ('r, 'x) ngap_pdu option" where
  "empty_failure_to_pdu ngap (Failure f) = None"
| "empty_failure_to_pdu ngap (GenericError e) = Some (error_indication_to_pdu ngap e)"

text \<open>\<open>log_and_convert_to_pdu\<close> of \<open>interfaces.rs\<close> and of \<open>ngap_route.rs\<close>.\<close>

primrec log_and_convert_to_ngap_pdu ::
  "('r, 'x) ngap_models \<Rightarrow> ('t \<Rightarrow> ('r, 'x) ngap_pdu) \<Rightarrow> ('f \<Rightarrow> ('r, 'x) ngap_pdu) \<Rightarrow>
     ('t, ('f, 'x, 'e) ngap_response_error) result \<Rightarrow> ('r, 'x) ngap_pdu" where
  "log_and_convert_to_ngap_pdu ngap t_to_pdu f_to_pdu (Ok success) = t_to_pdu success"
| "log_and_convert_to_ngap_pdu ngap t_to_pdu f_to_pdu (Err error) =
     ngap_failure_to_pdu ngap f_to_pdu (resp_failure error)"

primrec log_and_convert_to_pdu ::
  "('r, 'x) ngap_models \<Rightarrow> ('t \<Rightarrow> ('r, 'x) ngap_pdu option) \<Rightarrow> ('f \<Rightarrow> ('r, 'x) ngap_pdu option) \<Rightarrow>
     ('t, ('f, 'x, 'e) ngap_response_error) result \<Rightarrow> ('r, 'x) ngap_pdu option" where
  "log_and_convert_to_pdu ngap t_to_pdu f_to_pdu (Ok resp) = t_to_pdu resp"
| "log_and_convert_to_pdu ngap t_to_pdu f_to_pdu (Err e) =
     (case resp_failure e of
        Failure f \<Rightarrow> f_to_pdu f
      | GenericError ei \<Rightarrow> to_pdu_some (error_indication_to_pdu ngap) ei)"

text \<open>
  The three ways in which a result becomes an answer agree where more than one applies.
\<close>

lemma log_and_convert_agree:
  "log_and_convert_to_pdu ngap (to_pdu_some t) (to_pdu_some f) r =
     Some (log_and_convert_to_ngap_pdu ngap t f r)"
  by (cases r) (auto simp: to_pdu_some_def split: ngap_failure.splits)

lemma log_and_convert_empty:
  "log_and_convert_to_pdu ngap t empty_response_to_pdu (Err e) = empty_failure_to_pdu ngap (resp_failure e)"
proof (cases "resp_failure e")
  case (Failure f)
  then show ?thesis by (cases f) simp
qed (simp add: to_pdu_some_def)

subsection \<open>Properties\<close>

text \<open>
  A PDU that does not decode is answered, never dropped: the answer is an error indication
  of a falsely constructed message without UE identifiers that carries the message type read
  from the octets and the converted diagnostics, next to the error of the codec; a PDU that
  decodes is passed on as decoded.
\<close>

theorem decode_ngap_pdu_outcome:
  "decode_ngap_pdu ngap request =
     (case from_bytes ngap request of
        Ok pdu \<Rightarrow> Ok pdu
      | Err e \<Rightarrow> Err (error_indication_to_pdu ngap \<lparr>ei_amf_ue_ngap_id = None,
            ei_ran_ue_ngap_id = None,
            ei_cause = Some (CauseProtocol AbstractSyntaxErrorFalselyConstructedMessage),
            ei_criticality_diagnostics = Some \<lparr>
              diag_procedure_code = fst (snd (get_message_info ngap request)),
              triggering_message = fst (get_message_info ngap request),
              procedure_criticality = snd (snd (get_message_info ngap request)),
              i_es_criticality_diagnostics = convert_diagnostics_to_ie ngap (diagnostics e)\<rparr>\<rparr>,
          codec_error e))"
  by (simp add: decode_ngap_pdu_def build_criticality_diagnostics_def error_indication_default_def
      split_beta Let_def split: result.splits)

text \<open>
  The name of a RAN node.  The extended name wins over the plain one whenever it is
  present, and of its two forms the UTF-8 string wins; no name at all is the empty string.
\<close>

theorem resolve_ran_name_preference:
  "resolve_ran_name plain extended =
     (case extended of
        None \<Rightarrow> the_default [] plain
      | Some e \<Rightarrow> the_default (the_default [] (ran_node_name_visible_string e))
          (ran_node_name_utf8_string e))"
  by (cases "(plain, extended)" rule: resolve_ran_name.cases)
    (auto simp: the_default_def split: option.splits)

end
