(* ===== verification/Ng_Setup.thy ===== *)
theory Ng_Setup
  imports Ngap_Messages App_Config Context_Manager
begin

text \<open>
  The contexts of \<open>context/gnb_context.rs\<close>, \<open>context/ue_context.rs\<close>,
  \<open>context/ngap_context.rs\<close> and \<open>nas/nas_context.rs\<close>, and the handler of the NG Setup
  request, \<open>ngap/core/ng_setup.rs\<close>.

  \<open>amf_env\<close> collects what the handlers use of third-party crates: the codec, the hexadecimal
  and bit-vector functions, the sockets, the operations of the two kinds of concurrent maps,
  and three default values.  The members of the context that the sources never read
  (\<open>_gnb_associations\<close>, \<open>_ue_ids\<close>) are left out.
\<close>

subsection \<open>Contexts\<close>

datatype registration_type =
    InitialRegistration
  | MobilityRegistrationUpdating
  | PeriodicRegistrationUpdating
  | EmergencyRegistration
  | SnpnOnboardingRegistration
  | DisasterRoamingMobilityRegistrationUpdating
  | DisasterRoamingInitialRegistration

text \<open>The mobile identity with the text, or the number, the handlers take from it.\<close>

datatype mobile_identity =
    NoIdentity
  | Suci string
  | FiveGGuti string
  | Imei string
  | FiveGSTmsiIdentity u32
  | Imeisv string
  | MacAddress string
  | Eui64 string

record 'x nas_registration_request =
  registration_type :: registration_type
  mobile_identity :: mobile_identity
  nas_ue_security_capability :: "'x option"

record 'x nas_context =
  registration_request :: "'x nas_registration_request option"
  ue_security_capability :: "'x option"

definition nas_context_new :: "'x nas_context" where
  "nas_context_new = \<lparr>registration_request = None, ue_security_capability = None\<rparr>"

datatype gmm_state = Deregistered | Unauthenticated | Authenticated

record 'x gmm_machine =
  machine_context :: "'x nas_context"
  machine_state :: gmm_state

definition state_machine :: "'x nas_context \<Rightarrow> 'x gmm_machine" where
  "state_machine c = \<lparr>machine_context = c, machine_state = Deregistered\<rparr>"

text \<open>\<open>gnb_context\<close>, an \<open>Arc\<close>, is the address of the gNB context.\<close>

record 'x ue_context =
  ran_ue_ngap_id :: ran_ue_ngap_id
  amf_ue_ngap_id :: amf_ue_ngap_id
  rrc_establishment_cause :: 'x
  gnb_context_ref :: nat
  five_g_s_tmsi :: "string option"
  gmm :: "'x gmm_machine"
  tmsi :: "u32 option"
  guti :: "string option"
  suci :: "string option"
  pei :: "string option"
  mac_addr :: "string option"
  ue_plmn_id :: "string option"

definition ue_context_new ::
  "ran_ue_ngap_id \<Rightarrow> amf_ue_ngap_id \<Rightarrow> 'x \<Rightarrow> nat \<Rightarrow> string option \<Rightarrow> 'x gmm_machine \<Rightarrow> 'x ue_context" where
  "ue_context_new rid aid rrc gnb stmsi machine =
     \<lparr>ran_ue_ngap_id = rid, amf_ue_ngap_id = aid, rrc_establishment_cause = rrc,
      gnb_context_ref = gnb, five_g_s_tmsi = stmsi, gmm = machine, tmsi = None, guti = None,
      suci = None, pei = None, mac_addr = None, ue_plmn_id = None\<rparr>"

record ('r, 'x, 's, 'a, 'um) gnb_context =
  tnla_association :: "('s, 'a) tnla_association"
  global_ran_node_id :: 'r
  ue_context_manager :: "('x ue_context, unit, 'um) context_manager"
  gnb_name :: string
  default_paging_drx :: 'x
  amf_ue_id_generator :: "64 counter"

record 'x supported_tai =
  supported_tai :: "'x tai"
  snssais :: "sbi_snssai non_empty"

record ('r, 'x, 's, 'a, 'io, 'gm, 'um) amf_env =
  ngap :: "('r, 'x) ngap_models"
  hexlib :: faster_hex
  bitlib :: bitvec_ops
  sctp_lib :: "('s, 'a, 'io) sctp_ops"
  gnb_ops :: "('r, nat, 'gm) scc_ops"
  ue_ops :: "(ran_ue_ngap_id, nat, 'um) scc_ops"
  tai_rest_default :: 'x
  paging_drx_default :: 'x
  ran_node_id_default :: 'r

definition gnb_context_new ::
  "('r, 'x, 's, 'a, 'io, 'gm, 'um) amf_env \<Rightarrow> ('s, 'a) tnla_association \<Rightarrow>
     ('r, 'x, 's, 'a, 'um) gnb_context" where
  "gnb_context_new env tnla =
     \<lparr>tnla_association = tnla, global_ran_node_id = ran_node_id_default env,
      ue_context_manager = context_manager_new (ue_ops env), gnb_name = [],
      default_paging_drx = paging_drx_default env, amf_ue_id_generator = counter_default\<rparr>"

subsection \<open>The handler\<close>

datatype ('r, 'x) ng_setup_error =
    ConversionError conversion_error
  | UnsupportedTais "'x supported_tai list"
  | ConflictingRanId 'r

type_synonym ('r, 'x) ng_setup_result =
  "(ng_setup_response, (ng_setup_failure, 'x, ('r, 'x) ng_setup_error) ngap_response_error) result"

definition build_failure :: "cause \<Rightarrow> ng_setup_failure" where
  "build_failure c = \<lparr>failure_cause = c\<rparr>"

text \<open>One announced PLMN of a tracking area, with its slices.\<close>

definition convert_broadcast_plmn ::
  "('r, 'x, 's, 'a, 'io, 'gm, 'um) amf_env \<Rightarrow> octets3 \<Rightarrow> broadcast_plmn_item \<Rightarrow>
     ('x supported_tai, conversion_error) result" where
  "convert_broadcast_plmn env tac item =
     and_then (try_from_ngap_plmn (bp_plmn_identity item)) (\<lambda>plmn_id.
       let t = \<lparr>tai_plmn_id = plmn_id, tai_tac = convert_ngap_tac_to_sbi_tac (hexlib env) tac,
             tai_rest = tai_rest_default env\<rparr>;
           list = tai_slice_support_list item;
           conv = (\<lambda>i. convert_ngap_snssai_to_sbi_snssai (hexlib env) (item_snssai i))
       in Ok \<lparr>supported_tai = t, snssais = \<lparr>head = conv (head list), tail = map conv (tail list)\<rparr>\<rparr>)"

text \<open>The two nested loops; both push onto \<open>supported_tais\<close> and leave on the first error.\<close>

fun plmn_loop ::
  "('r, 'x, 's, 'a, 'io, 'gm, 'um) amf_env \<Rightarrow> octets3 \<Rightarrow> broadcast_plmn_item list \<Rightarrow>
     'x supported_tai list \<Rightarrow> ('x supported_tai list, conversion_error) result" where
  "plmn_loop env tac [] supported_tais = Ok supported_tais"
| "plmn_loop env tac (item # items) supported_tais =
     and_then (convert_broadcast_plmn env tac item) (\<lambda>t.
       plmn_loop env tac items (supported_tais @ [t]))"

fun ta_loop ::
  "('r, 'x, 's, 'a, 'io, 'gm, 'um) amf_env \<Rightarrow> supported_ta_item list \<Rightarrow>
     'x supported_tai list \<Rightarrow> ('x supported_tai list, conversion_error) result" where
  "ta_loop env [] supported_tais = Ok supported_tais"
| "ta_loop env (ta # tas) supported_tais =
     and_then (plmn_loop env (ta_tac ta) (broadcast_plmn_list ta) supported_tais) (\<lambda>supported_tais.
       ta_loop env tas supported_tais)"

text \<open>
  \<open>handle_request\<close> for the NG Setup request: the outcome (\<open>None\<close> is a panic of one of the
  conversions of the response) and the context it was given, as it leaves it.
\<close>

definition handle_ng_setup ::
  "('r, 'x, 's, 'a, 'io, 'gm, 'um) amf_env \<Rightarrow> ('u, 'x) app_configuration \<Rightarrow> 'gm \<Rightarrow>
     ('r, 'x) ng_setup_request \<Rightarrow> ('r, 'x, 's, 'a, 'um) gnb_context \<Rightarrow>
     ('r, 'x) ng_setup_result option \<times> ('r, 'x, 's, 'a, 'um) gnb_context" where
  "handle_ng_setup env config gnb_contexts request state =
     (if contains_async (gnb_ops env) (req_global_ran_node_id request) gnb_contexts
      then (Some (Err (new_failure_error (build_failure new_semantic_error_cause)
             (ConflictingRanId (req_global_ran_node_id request)))), state)
      else
        let state = state\<lparr>global_ran_node_id := req_global_ran_node_id request\<rparr>;
            state = state\<lparr>gnb_name :=
              resolve_ran_name (req_ran_node_name request) (req_extended_ran_node_name request)\<rparr>;
            state = state\<lparr>default_paging_drx := req_default_paging_drx request\<rparr>
        in (case ta_loop env (supported_ta_list request) [] of
              Err e \<Rightarrow>
                (Some (Err (new_failure_error (build_failure new_semantic_error_cause)
                   (ConversionError e))), state)
            | Ok supported_tais \<Rightarrow>
                (let ran_tai_set = supported_tai ` set supported_tais;
                     found = list_ex (\<lambda>t. t \<in> ran_tai_set) (support_tai_list config)
                 in if \<not> found
                    then (Some (Err (new_failure_error (build_failure (CauseMisc UnknownPlmnOrSnpn))
                            (UnsupportedTais supported_tais))), state)
                    else
                      (do {
                         plmns \<leftarrow> from_plmn_support_list (hexlib env) (plmn_support_list config);
                         guamis \<leftarrow> from_guami_list (bitlib env) (served_guami_list config);
                         Some (Ok \<lparr>resp_plmn_support_list = plmns, resp_served_guami_list = guamis,
                           relative_amf_capacity = 255, resp_amf_name = app_name config\<rparr>)
                       }, state))))"

subsection \<open>The announced tracking areas, in order\<close>

definition announced :: "('r, 'x) ng_setup_request \<Rightarrow> (octets3 \<times> broadcast_plmn_item) list" where
  "announced request =
     concat (map (\<lambda>ta. map (Pair (ta_tac ta)) (broadcast_plmn_list ta)) (supported_ta_list request))"

fun convert_all ::
  "('r, 'x, 's, 'a, 'io, 'gm, 'um) amf_env \<Rightarrow> (octets3 \<times> broadcast_plmn_item) list \<Rightarrow>
     ('x supported_tai list, conversion_error) result" where
  "convert_all env [] = Ok []"
| "convert_all env ((tac, item) # rest) =
     and_then (convert_broadcast_plmn env tac item) (\<lambda>t. map_ok (Cons t) (convert_all env rest))"

lemma convert_all_append:
  "convert_all env (xs @ ys) =
     and_then (convert_all env xs) (\<lambda>ts. map_ok ((@) ts) (convert_all env ys))"
proof (induction env xs rule: convert_all.induct)
  case (1 env)
  then show ?case
    by (cases "convert_all env ys") simp_all
next
  case (2 env tac item rest)
  then show ?case
    by (cases "convert_broadcast_plmn env tac item"; cases "convert_all env rest"; cases "convert_all env ys")
      simp_all
qed

lemma plmn_loop_eq:
  "plmn_loop env tac items acc = map_ok ((@) acc) (convert_all env (map (Pair tac) items))"
proof (induction items arbitrary: acc)
  case (Cons item items)
  then show ?case
    by (cases "convert_broadcast_plmn env tac item"; cases "convert_all env (map (Pair tac) items)")
      simp_all
qed simp

lemma ta_loop_eq_acc:
  "ta_loop env tas acc = map_ok ((@) acc) (convert_all env
     (concat (map (\<lambda>ta. map (Pair (ta_tac ta)) (broadcast_plmn_list ta)) tas)))"
proof (induction tas arbitrary: acc)
  case (Cons ta tas)
  let ?xs = "map (Pair (ta_tac ta)) (broadcast_plmn_list ta)"
    and ?ys = "concat (map (\<lambda>ta. map (Pair (ta_tac ta)) (broadcast_plmn_list ta)) tas)"
  from Cons show ?case
    by (cases "convert_all env ?xs"; cases "convert_all env ?ys")
      (simp_all add: plmn_loop_eq convert_all_append)
qed simp

lemma ta_loop_eq: "ta_loop env (supported_ta_list request) [] = convert_all env (announced request)"
  by (cases "convert_all env (announced request)") (simp_all add: ta_loop_eq_acc announced_def)

lemma convert_all_Ok:
  "convert_all env xs = Ok ts \<longleftrightarrow> list_all2 (\<lambda>(tac, item) t. convert_broadcast_plmn env tac item = Ok t) xs ts"
proof (induction env xs arbitrary: ts rule: convert_all.induct)
  case (2 env tac item rest)
  show ?case
  proof (cases ts)
    case (Cons t ts')
    with 2 show ?thesis
      by (cases "convert_broadcast_plmn env tac item"; cases "convert_all env rest") auto
  qed (auto simp: and_then_eq_Ok)
qed auto

lemma convert_all_Err:
  assumes "convert_all env xs = Err e"
  shows "\<exists>(tac, item) \<in> set xs. try_from_ngap_plmn (bp_plmn_identity item) = Err e"
  using assms
proof (induction env xs rule: convert_all.induct)
  case (2 env tac item rest)
  then show ?case
    by (cases "try_from_ngap_plmn (bp_plmn_identity item)"; cases "convert_all env rest")
      (auto simp: convert_broadcast_plmn_def Let_def and_then_eq_Err)
qed simp

lemma convert_broadcast_plmn_Ok:
  "convert_broadcast_plmn env tac item = Ok t \<Longrightarrow>
     try_from_ngap_plmn (bp_plmn_identity item) = Ok (tai_plmn_id (supported_tai t)) \<and>
     tai_tac (supported_tai t) = convert_ngap_tac_to_sbi_tac (hexlib env) tac \<and>
     tai_rest (supported_tai t) = tai_rest_default env \<and>
     ne_list (snssais t) = map (convert_ngap_snssai_to_sbi_snssai (hexlib env) \<circ> item_snssai)
       (ne_list (tai_slice_support_list item))"
  by (auto simp: convert_broadcast_plmn_def Let_def and_then_eq_Ok ne_list_def)

text \<open>The announcement of one tracking area identity.\<close>

definition announces ::
  "('r, 'x, 's, 'a, 'io, 'gm, 'um) amf_env \<Rightarrow> ('r, 'x) ng_setup_request \<Rightarrow> 'x tai \<Rightarrow> bool" where
  "announces env request t \<longleftrightarrow> tai_rest t = tai_rest_default env \<and>
     (\<exists>(tac, item) \<in> set (announced request).
        try_from_ngap_plmn (bp_plmn_identity item) = Ok (tai_plmn_id t) \<and>
        convert_ngap_tac_to_sbi_tac (hexlib env) tac = tai_tac t)"

lemma announces_iff:
  assumes "convert_all env (announced request) = Ok ts"
  shows "t \<in> supported_tai ` set ts \<longleftrightarrow> announces env request t"
proof
  note all2 = assms [unfolded convert_all_Ok]
  {
    assume "t \<in> supported_tai ` set ts"
    then obtain st where "st \<in> set ts" and t: "t = supported_tai st"
      by blast
    with all2 obtain tac item where "(tac, item) \<in> set (announced request)"
        "convert_broadcast_plmn env tac item = Ok st"
      by (fastforce dest: list_all2_in_right)
    then show "announces env request t"
      using convert_broadcast_plmn_Ok [of env tac item st] t by (auto simp: announces_def)
  next
    assume "announces env request t"
    then obtain tac item where "(tac, item) \<in> set (announced request)"
      and *: "try_from_ngap_plmn (bp_plmn_identity item) = Ok (tai_plmn_id t)"
        "tai_tac t = convert_ngap_tac_to_sbi_tac (hexlib env) tac" "tai_rest t = tai_rest_default env"
      by (auto simp: announces_def)
    with all2 obtain st where st: "st \<in> set ts" "convert_broadcast_plmn env tac item = Ok st"
      by (fastforce dest: list_all2_in_left)
    with * convert_broadcast_plmn_Ok [of env tac item st] have "supported_tai st = t"
      by (cases t; cases "supported_tai st") auto
    with st show "t \<in> supported_tai ` set ts"
      by blast
  }
qed

lemma convert_all_is_ok:
  "is_ok (convert_all env xs) \<longleftrightarrow>
     (\<forall>(tac, item) \<in> set xs. is_ok (try_from_ngap_plmn (bp_plmn_identity item)))"
proof (induction env xs rule: convert_all.induct)
  case (2 env tac item rest)
  then show ?case
    by (cases "try_from_ngap_plmn (bp_plmn_identity item)"; cases "convert_all env rest")
      (simp_all add: convert_broadcast_plmn_def Let_def)
qed simp

lemma tai_found_iff:
  assumes "convert_all env (announced request) = Ok ts"
  shows "list_ex (\<lambda>t. t \<in> supported_tai ` set ts) (support_tai_list config) \<longleftrightarrow>
    (\<exists>t \<in> set (support_tai_list config). announces env request t)"
  by (simp only: announces_iff [OF assms] list_ex_iff)

subsection \<open>Properties\<close>

text \<open>
  What the SBI models guarantee of a configuration: the codes of every PLMN have digits of the
  right number, and the differentiators of every slice are six hexadecimal digits.
\<close>

definition valid_app_config :: "('u, 'x) app_configuration \<Rightarrow> bool" where
  "valid_app_config config \<longleftrightarrow>
     list_all (\<lambda>item. valid_mcc (mcc (item_plmn_id item)) \<and> valid_mnc (mnc (item_plmn_id item)) \<and>
       list_all valid_snssai (ne_list (snssai_list item))) (ne_list (plmn_support_list config)) \<and>
     list_all (\<lambda>g. valid_mcc (mcc (guami_plmn_id g)) \<and> valid_mnc (mnc (guami_plmn_id g)))
       (ne_list (served_guami_list config))"

lemma valid_app_config_converts:
  assumes "hex_codec hx" and "bitvec bv" and "valid_app_config config"
  shows "\<exists>p g. from_plmn_support_list hx (plmn_support_list config) = Some p \<and>
    from_guami_list bv (served_guami_list config) = Some g"
proof -
  have "\<exists>w. from_plmn_support_list hx (plmn_support_list config) = Some w \<and>
      list_all2 (\<lambda>_ _. True) (ne_list w) (ne_list (plmn_support_list config))"
    unfolding from_plmn_support_list_def
  proof (rule transform_nonempty_pointwise)
    fix item
    assume "item \<in> set (ne_list (plmn_support_list config))"
    with assms(3) have "valid_mcc (mcc (item_plmn_id item))" "valid_mnc (mnc (item_plmn_id item))"
        "\<forall>v \<in> set (ne_list (snssai_list item)). valid_snssai v"
      by (auto simp: valid_app_config_def list_all_iff)
    with from_sbi_plmn_id_converts from_snssai_list_converts [OF assms(1)]
    obtain n l where "from_sbi_plmn_id (item_plmn_id item) = Some n"
      "from_snssai_list hx (snssai_list item) = Some l"
      by metis
    then show "\<exists>y. do {
        plmn \<leftarrow> from_sbi_plmn_id (item_plmn_id item);
        slices \<leftarrow> from_snssai_list hx (snssai_list item);
        Some \<lparr>item_plmn_identity = plmn, slice_support_list = slices\<rparr>
      } = Some y \<and> True"
      by simp
  qed
  moreover have "\<exists>w. from_guami_list bv (served_guami_list config) = Some w \<and>
      list_all2 (\<lambda>_ _. True) (ne_list w) (ne_list (served_guami_list config))"
    unfolding from_guami_list_def
  proof (rule transform_nonempty_pointwise)
    fix g
    assume "g \<in> set (ne_list (served_guami_list config))"
    with assms(3) plmn_encode_decode obtain n where
      "convert_mcc_mnc_to_plmn_id (mcc (guami_plmn_id g)) (mnc (guami_plmn_id g)) = Some n"
      by (auto simp: valid_app_config_def list_all_iff) blast
    then show "\<exists>y. do { n \<leftarrow> from_sbi_guami bv g; Some \<lparr>item_guami = n\<rparr> } = Some y \<and> True"
      by (simp add: from_sbi_guami_def from_sbi_amf_id_eq [OF assms(2)] from_sbi_plmn_id_nid_def)
  qed
  ultimately show ?thesis by blast
qed

lemma handle_ng_setup_succeeds:
  assumes "scc_hash_map (gnb_ops env) entries" and "hex_codec (hexlib env)" and "bitvec (bitlib env)"
    and "valid_app_config config" and "entries gnbs (req_global_ran_node_id request) = None"
    and "\<forall>(tac, item) \<in> set (announced request). is_ok (try_from_ngap_plmn (bp_plmn_identity item))"
    and "\<exists>t \<in> set (support_tai_list config). announces env request t"
  shows "\<exists>resp gnb. handle_ng_setup env config gnbs request state = (Some (Ok resp), gnb)"
proof -
  obtain p g where "from_plmn_support_list (hexlib env) (plmn_support_list config) = Some p"
    "from_guami_list (bitlib env) (served_guami_list config) = Some g"
    using valid_app_config_converts [OF assms(2-4)] by blast
  moreover obtain ts where Ok: "convert_all env (announced request) = Ok ts"
    using assms(6) convert_all_is_ok [of env "announced request"]
    by (cases "convert_all env (announced request)") auto
  ultimately show ?thesis
    using assms(5,7) tai_found_iff [OF Ok, of config]
    by (simp add: handle_ng_setup_def ta_loop_eq scc_hash_map.contains_iff [OF assms(1)] Let_def
        cong: if_cong)
qed

text \<open>
  C7: when NG Setup succeeds.  With a valid configuration the handler never panics, and it
  accepts a request exactly when the RAN node is not connected yet, every announced PLMN
  identity consists of digits, and one of the tracking areas of the configuration is announced.
  The response then carries the configured name, the full capacity, and the configured PLMNs
  and GUAMIs, one for one.
\<close>

theorem ng_setup_accepts_iff:
  assumes "scc_hash_map (gnb_ops env) entries" and "hex_codec (hexlib env)" and "bitvec (bitlib env)"
    and "valid_app_config config"
  shows "\<exists>out. fst (handle_ng_setup env config gnbs request state) = Some out \<and>
    (is_ok out \<longleftrightarrow> entries gnbs (req_global_ran_node_id request) = None \<and>
       (\<forall>(tac, item) \<in> set (announced request). is_ok (try_from_ngap_plmn (bp_plmn_identity item))) \<and>
       (\<exists>t \<in> set (support_tai_list config). announces env request t)) \<and>
    (\<forall>resp. out = Ok resp \<longrightarrow> resp_amf_name resp = app_name config \<and> relative_amf_capacity resp = 255 \<and>
       from_plmn_support_list (hexlib env) (plmn_support_list config) = Some (resp_plmn_support_list resp) \<and>
       from_guami_list (bitlib env) (served_guami_list config) = Some (resp_served_guami_list resp))"
proof -
  obtain p g where pg: "from_plmn_support_list (hexlib env) (plmn_support_list config) = Some p"
    "from_guami_list (bitlib env) (served_guami_list config) = Some g"
    using valid_app_config_converts [OF assms(2-4)] by blast
  note known = scc_hash_map.contains_iff [OF assms(1)]
  show ?thesis
  proof (cases "convert_all env (announced request)")
    case (Ok ts)
    with pg show ?thesis
      using convert_all_is_ok [of env "announced request"] tai_found_iff [OF Ok, of config]
      by (simp add: handle_ng_setup_def ta_loop_eq known Let_def cong: if_cong)
  next
    case (Err e)
    then have "\<not> (\<forall>(tac, item) \<in> set (announced request). is_ok (try_from_ngap_plmn (bp_plmn_identity item)))"
      using convert_all_is_ok [of env "announced request"] by simp
    with Err show ?thesis
      by (simp add: handle_ng_setup_def ta_loop_eq Let_def)
  qed
qed

lemma convert_all_first_error:
  assumes "\<forall>(tac, item) \<in> set xs. is_ok (try_from_ngap_plmn (bp_plmn_identity item))"
    and "try_from_ngap_plmn (bp_plmn_identity item) = Err e"
  shows "convert_all env (xs @ (tac, item) # ys) = Err e"
proof -
  from assms(1) have "is_ok (convert_all env xs)"
    using convert_all_is_ok [of env xs] by simp
  then obtain ts where "convert_all env xs = Ok ts"
    by (cases "convert_all env xs") simp_all
  with assms(2) show ?thesis
    by (simp add: convert_all_append convert_broadcast_plmn_def)
qed

text \<open>What is reported of an announced PLMN of a tracking area.\<close>

definition reported ::
  "('r, 'x, 's, 'a, 'io, 'gm, 'um) amf_env \<Rightarrow> octets3 \<times> broadcast_plmn_item \<Rightarrow> 'x supported_tai \<Rightarrow> bool" where
  "reported env = (\<lambda>(tac, item) t.
     try_from_ngap_plmn (bp_plmn_identity item) = Ok (tai_plmn_id (supported_tai t)) \<and>
     tai_tac (supported_tai t) = convert_ngap_tac_to_sbi_tac (hexlib env) tac \<and>
     ne_list (snssais t) = map (convert_ngap_snssai_to_sbi_snssai (hexlib env) \<circ> item_snssai)
       (ne_list (tai_slice_support_list item)))"

lemma convert_all_reported:
  assumes "convert_all env xs = Ok ts"
  shows "list_all2 (reported env) xs ts"
  using assms unfolding convert_all_Ok
  by (rule list_all2_mono) (auto simp: reported_def dest: convert_broadcast_plmn_Ok)

text \<open>
  C13: which NG Setup requests are refused, what the refusal reports, and what it leaves behind.
  A node identifier in use is refused as a semantic error that names it, and the context stays
  as it was.  Otherwise the context takes the identifier, name and paging cycle of the request
  and nothing else; a PLMN identity with a nibble that is no digit is refused as a semantic
  error, with the error of the first such identity; and when all are digits, a request without
  a common tracking area is refused for its PLMN and the refusal reports every announced area in
  order.  No other request is refused.
\<close>

theorem ng_setup_failures:
  assumes "scc_hash_map (gnb_ops env) entries"
    and "handle_ng_setup env config gnbs request state = (out, state')"
  shows "if entries gnbs (req_global_ran_node_id request) \<noteq> None
    then out = Some (Err \<lparr>resp_failure = Failure \<lparr>failure_cause = CauseProtocol SemanticError\<rparr>,
        resp_error = ConflictingRanId (req_global_ran_node_id request)\<rparr>) \<and> state' = state
    else state' = state\<lparr>global_ran_node_id := req_global_ran_node_id request,
        gnb_name := resolve_ran_name (req_ran_node_name request) (req_extended_ran_node_name request),
        default_paging_drx := req_default_paging_drx request\<rparr> \<and>
      (\<forall>xs tac item ys e. announced request = xs @ (tac, item) # ys \<and>
         (\<forall>(tac, item) \<in> set xs. is_ok (try_from_ngap_plmn (bp_plmn_identity item))) \<and>
         try_from_ngap_plmn (bp_plmn_identity item) = Err e \<longrightarrow>
         out = Some (Err \<lparr>resp_failure = Failure \<lparr>failure_cause = CauseProtocol SemanticError\<rparr>,
           resp_error = ConversionError e\<rparr>)) \<and>
      ((\<forall>(tac, item) \<in> set (announced request). is_ok (try_from_ngap_plmn (bp_plmn_identity item))) \<longrightarrow>
         (if \<exists>t \<in> set (support_tai_list config). announces env request t
          then \<forall>e. out \<noteq> Some (Err e)
          else \<exists>ts. out = Some (Err \<lparr>resp_failure = Failure \<lparr>failure_cause = CauseMisc UnknownPlmnOrSnpn\<rparr>,
              resp_error = UnsupportedTais ts\<rparr>) \<and> list_all2 (reported env) (announced request) ts))"
proof (cases "entries gnbs (req_global_ran_node_id request)")
  case (Some a)
  with assms show ?thesis
    by (auto simp: handle_ng_setup_def scc_hash_map.contains_iff [OF assms(1)] new_failure_error_def
        build_failure_def new_semantic_error_cause_def)
next
  case None
  note handled = assms(2) [unfolded handle_ng_setup_def scc_hash_map.contains_iff [OF assms(1)] None ta_loop_eq]
  show ?thesis
  proof (cases "convert_all env (announced request)")
    case (Err e)
    then have "\<not> (\<forall>(tac, item) \<in> set (announced request). is_ok (try_from_ngap_plmn (bp_plmn_identity item)))"
      using convert_all_is_ok [of env "announced request"] by simp
    moreover have "e' = e" if "announced request = xs @ (tac, item) # ys"
      "\<forall>(tac, item) \<in> set xs. is_ok (try_from_ngap_plmn (bp_plmn_identity item))"
      "try_from_ngap_plmn (bp_plmn_identity item) = Err e'" for xs tac item ys e'
      using convert_all_first_error [OF that(2,3), of env tac ys] Err that(1) by simp
    ultimately show ?thesis
      using handled Err None
      by (auto simp: Let_def new_failure_error_def build_failure_def new_semantic_error_cause_def)
  next
    case (Ok ts)
    then have ok: "\<forall>(tac, item) \<in> set (announced request). is_ok (try_from_ngap_plmn (bp_plmn_identity item))"
      using convert_all_is_ok [of env "announced request"] by simp
    then have "try_from_ngap_plmn (bp_plmn_identity item) \<noteq> Err e"
      if "announced request = xs @ (tac, item) # ys" for xs tac item ys e
      using that by force
    then show ?thesis
      using handled None Ok ok convert_all_reported [OF Ok] tai_found_iff [OF Ok, of config]
      by (auto simp: Let_def new_failure_error_def build_failure_def bind_eq_Some_conv
          split: if_splits)
  qed
qed



subsection \<open>Witnesses\<close>

text \<open>
  An environment with the reference libraries.  PDUs are written as one octet each; only the
  setup response has octets the peer can read.
\<close>

definition demo_ngap :: "(nat, unit) ngap_models" where
  "demo_ngap = \<lparr>
     from_bytes = (\<lambda>bs. if bs = [15] then Ok (InitiatingMessage (InitialUeMessage
         \<lparr>iu_ran_ue_ngap_id = 9, iu_nas_pdu = [], iu_rrc_establishment_cause = (),
          iu_five_g_s_tmsi = None\<rparr>))
       else Err \<lparr>diagnostics = (), codec_error = ()\<rparr>),
     new_codec_data = (), encode_pdu = (\<lambda>pdu d. Ok d), codec_into_bytes = (\<lambda>d. [21]),
     get_message_info = (\<lambda>bs. (None, None, None)), convert_diagnostics_to_ie = (\<lambda>d. None),
     error_indication_to_pdu = (\<lambda>e. InitiatingMessage (OtherInitiatingMessage ())),
     ng_setup_response_to_pdu = (\<lambda>r. SuccessfulOutcome ()),
     ng_setup_failure_to_pdu = (\<lambda>f. UnsuccessfulOutcome ()),
     downlink_nas_transport_to_pdu = (\<lambda>d. InitiatingMessage (OtherInitiatingMessage ()))\<rparr>"

definition demo_env ::
  "(nat, unit, nat, nat, unit, nat \<rightharpoonup> nat, ran_ue_ngap_id \<rightharpoonup> nat) amf_env" where
  "demo_env = \<lparr>ngap = demo_ngap, hexlib = hex_ref, bitlib = bitvec_ref, sctp_lib = demo_sctp,
     gnb_ops = map_ops, ue_ops = map_ops, tai_rest_default = (), paging_drx_default = (),
     ran_node_id_default = 0\<rparr>"

definition demo_app :: "(nat, unit) app_configuration" where
  "demo_app = configuration_new demo_text 0 (SerdeValidated demo_config)"

definition demo_request :: "(nat, unit) ng_setup_request" where
  "demo_request = \<lparr>req_global_ran_node_id = 77, req_ran_node_name = Some ''gnb'',
     supported_ta_list = [\<lparr>ta_tac = (0, 0, 1), broadcast_plmn_list =
       [\<lparr>bp_plmn_identity = (0x02, 0xF8, 0x39), tai_slice_support_list =
          \<lparr>head = \<lparr>item_snssai = \<lparr>ngap_sst = 1, ngap_sd = None\<rparr>\<rparr>, tail = []\<rparr>\<rparr>]\<rparr>],
     req_default_paging_drx = (), req_extended_ran_node_name = None\<rparr>"

definition demo_gnb :: "(nat, unit, nat, nat, ran_ue_ngap_id \<rightharpoonup> nat) gnb_context" where
  "demo_gnb = gnb_context_new demo_env demo_tnla"

lemma demo_env_laws:
  "scc_hash_map (gnb_ops demo_env) (\<lambda>m. m)" "scc_hash_map (ue_ops demo_env) (\<lambda>m. m)"
  "hex_codec (hexlib demo_env)" "bitvec (bitlib demo_env)"
  by (simp_all add: demo_env_def map_scc.scc_hash_map_axioms ref_hex.hex_codec_axioms
      ref_bitvec.bitvec_axioms)

lemma demo_app_lists:
  "plmn_support_list demo_app = demo_plmn_support"
  "served_guami_list demo_app = \<lparr>head = demo_guami, tail = []\<rparr>"
  by (simp_all add: demo_app_def configuration_new_def demo_config_def Let_def)

lemma demo_app_valid: "valid_app_config demo_app"
  unfolding valid_app_config_def demo_app_lists by code_simp

lemma demo_announced:
  "announced demo_request = [((0, 0, 1), \<lparr>bp_plmn_identity = (0x02, 0xF8, 0x39),
     tai_slice_support_list = \<lparr>head = \<lparr>item_snssai = \<lparr>ngap_sst = 1, ngap_sd = None\<rparr>\<rparr>, tail = []\<rparr>\<rparr>)]"
  by (simp add: announced_def demo_request_def)

lemma demo_tai:
  "try_from_ngap_plmn (0x02, 0xF8, 0x39) = Ok \<lparr>mcc = ''208'', mnc = ''93''\<rparr>"
  "convert_ngap_tac_to_sbi_tac hex_ref (0, 0, 1) = ''000001''"
  by code_simp+

lemma demo_announces:
  "announces demo_env demo_request
     \<lparr>tai_plmn_id = \<lparr>mcc = ''208'', mnc = ''93''\<rparr>, tai_tac = ''000001'', tai_rest = ()\<rparr>"
  by (simp add: announces_def demo_announced demo_tai demo_env_def)

lemma demo_announced_ok:
  "\<forall>(tac, item) \<in> set (announced demo_request). is_ok (try_from_ngap_plmn (bp_plmn_identity item))"
  by (simp add: demo_announced demo_tai)

theorem ng_setup_accepts_iff_witness:
  "\<exists>resp. fst (handle_ng_setup demo_env demo_app Map.empty demo_request demo_gnb) = Some (Ok resp) \<and>
    resp_amf_name resp = ''AMF''"
proof -
  have tais: "support_tai_list demo_app =
      [\<lparr>tai_plmn_id = \<lparr>mcc = ''208'', mnc = ''93''\<rparr>, tai_tac = ''000001'', tai_rest = ()\<rparr>]"
    and "app_name demo_app = ''AMF''"
    by (simp_all add: demo_app_def configuration_new_def demo_config_def Let_def)
  with ng_setup_accepts_iff [OF demo_env_laws(1,3,4) demo_app_valid, of Map.empty demo_request demo_gnb]
    demo_announces demo_announced_ok
  obtain out where out: "fst (handle_ng_setup demo_env demo_app Map.empty demo_request demo_gnb) = Some out"
    "is_ok out" "\<forall>resp. out = Ok resp \<longrightarrow> resp_amf_name resp = ''AMF''"
    by auto
  then show ?thesis
    by (cases out) auto
qed

theorem ng_setup_failures_witness:
  "fst (handle_ng_setup demo_env demo_app [77 \<mapsto> 0] demo_request demo_gnb) =
     Some (Err \<lparr>resp_failure = Failure \<lparr>failure_cause = CauseProtocol SemanticError\<rparr>,
       resp_error = ConflictingRanId 77\<rparr>) \<and>
   snd (handle_ng_setup demo_env demo_app [77 \<mapsto> 0] demo_request demo_gnb) = demo_gnb"
proof -
  have "req_global_ran_node_id demo_request = 77"
    by (simp add: demo_request_def)
  with ng_setup_failures [OF demo_env_laws(1), of demo_app "[77 \<mapsto> 0]" demo_request demo_gnb,
      OF prod.collapse [symmetric]]
  show ?thesis
    by simp
qed

end
