(* ===== verification/Initial_Ue.thy ===== *)
theory Initial_Ue
  imports Ng_Setup
begin

text \<open>
  \<open>ngap/core/initial_ue_message.rs\<close>, the handler of the initial UE message, with
  \<open>nas/ue_actions.rs\<close>, whose \<open>handle_nas\<close> has an empty body.  The handler suspends between
  its operations on the table of UE contexts, so it is given in pieces, one per operation; the
  handler is their composition, and the step relation interleaves the pieces of any number of
  handlers that serve the same gNB.

  \<open>gref\<close> is the address of the gNB context, which the new UE context refers to.
\<close>

datatype 'x ue_context_already_exists_error =
    ExistsInitialUeMessage "'x initial_ue_message"
  | ExistsUeContext "'x ue_context"

datatype 'x initial_ue_message_error =
    UeContextAlreadyExists "'x ue_context_already_exists_error"
  | UeContextNotFound ran_ue_ngap_id

type_synonym 'x initial_ue_result =
  "(empty_response, (empty_response, 'x, 'x initial_ue_message_error) ngap_response_error) result"

definition handle_nas :: "bytes \<Rightarrow> 'x ue_context \<Rightarrow> 'x ue_context" where
  "handle_nas nas_pdu ue = ue"

text \<open>The identity of the table: the method \<open>id\<close> of \<open>UeContext\<close>.\<close>

definition ue_id :: "'x ue_context \<Rightarrow> ran_ue_ngap_id" where
  "ue_id ue = ran_ue_ngap_id ue"

definition iu_check ::
  "('r, 'x, 's, 'a, 'io, 'gm, 'um) amf_env \<Rightarrow> 'x initial_ue_message \<Rightarrow>
     ('r, 'x, 's, 'a, 'um) gnb_context \<Rightarrow> 'x initial_ue_result option" where
  "iu_check env request gnb =
     (if contains_context (ue_ops env) (iu_ran_ue_ngap_id request) (ue_context_manager gnb)
      then Some (Err (new_empty_failure_error
             (UeContextAlreadyExists (ExistsInitialUeMessage request))))
      else None)"

text \<open>Drawing the AMF identifier and building the context; \<open>None\<close> is a panic.\<close>

definition iu_build ::
  "('r, 'x, 's, 'a, 'io, 'gm, 'um) amf_env \<Rightarrow> nat \<Rightarrow> 'x initial_ue_message \<Rightarrow>
     ('r, 'x, 's, 'a, 'um) gnb_context \<Rightarrow>
     'x ue_context option \<times> ('r, 'x, 's, 'a, 'um) gnb_context" where
  "iu_build env gref request gnb =
     (let (i, generator) = increment (amf_ue_id_generator gnb);
          stmsi = (case iu_five_g_s_tmsi request of
              None \<Rightarrow> Some None
            | Some v \<Rightarrow> map_option Some (from_ngap_five_g_s_tmsi (hexlib env) (bitlib env) v))
      in (do {
            s \<leftarrow> stmsi;
            Some (ue_context_new (iu_ran_ue_ngap_id request) i (iu_rrc_establishment_cause request)
              gref s (state_machine nas_context_new))
          }, gnb\<lparr>amf_ue_id_generator := generator\<rparr>))"

text \<open>
  Registering it: \<open>Some None\<close> goes on, \<open>Some (Some r)\<close> returns, \<open>None\<close> is a panic, either of
  \<open>add_context\<close> or of the \<open>unreachable!()\<close> for its other errors.
\<close>

definition iu_add ::
  "('r, 'x, 's, 'a, 'io, 'gm, 'um) amf_env \<Rightarrow> 'x ue_context \<Rightarrow>
     ('r, 'x, 's, 'a, 'um) gnb_context \<Rightarrow>
     'x initial_ue_result option option \<times> ('r, 'x, 's, 'a, 'um) gnb_context" where
  "iu_add env ue gnb =
     (case add_context (ue_ops env) ue_id ue (ue_context_manager gnb) of
        (r, m) \<Rightarrow>
          (do {
             res \<leftarrow> r;
             case res of
               Err (ContextAlreadyExists _ ue') \<Rightarrow>
                 Some (Some (Err (new_empty_failure_error
                   (UeContextAlreadyExists (ExistsUeContext ue')))))
             | Err _ \<Rightarrow> None
             | Ok _ \<Rightarrow> Some None
           }, gnb\<lparr>ue_context_manager := m\<rparr>))"

text \<open>Handing the NAS message to the context through its queue.\<close>

definition iu_with ::
  "('r, 'x, 's, 'a, 'io, 'gm, 'um) amf_env \<Rightarrow> 'x initial_ue_message \<Rightarrow>
     ('r, 'x, 's, 'a, 'um) gnb_context \<Rightarrow>
     'x initial_ue_result option \<times> ('r, 'x, 's, 'a, 'um) gnb_context" where
  "iu_with env request gnb =
     (let future_closure = (\<lambda>ue. (handle_nas (iu_nas_pdu request) ue, Some ()))
      in case with_context (ue_ops env) (iu_ran_ue_ngap_id request) future_closure
            (ue_context_manager gnb) of
           (r, m) \<Rightarrow>
             (map_option (\<lambda>res. case res of
                  Err _ \<Rightarrow> Err (new_empty_failure_error (UeContextNotFound (iu_ran_ue_ngap_id request)))
                | Ok _ \<Rightarrow> Ok EmptyResponse) r,
              gnb\<lparr>ue_context_manager := m\<rparr>))"

definition handle_initial_ue ::
  "('r, 'x, 's, 'a, 'io, 'gm, 'um) amf_env \<Rightarrow> nat \<Rightarrow> 'x initial_ue_message \<Rightarrow>
     ('r, 'x, 's, 'a, 'um) gnb_context \<Rightarrow>
     'x initial_ue_result option \<times> ('r, 'x, 's, 'a, 'um) gnb_context" where
  "handle_initial_ue env gref request gnb =
     (case iu_check env request gnb of
        Some r \<Rightarrow> (Some r, gnb)
      | None \<Rightarrow>
          (case iu_build env gref request gnb of
             (None, gnb) \<Rightarrow> (None, gnb)
           | (Some ue, gnb) \<Rightarrow>
               (case iu_add env ue gnb of
                  (None, gnb) \<Rightarrow> (None, gnb)
                | (Some (Some r), gnb) \<Rightarrow> (Some r, gnb)
                | (Some None, gnb) \<Rightarrow> iu_with env request gnb)))"

subsection \<open>Concurrent handlers of one gNB\<close>

datatype 'x ue_task =
    Started "'x initial_ue_message"
  | Checked "'x initial_ue_message"
  | Built "'x initial_ue_message" "'x ue_context"
  | Registered "'x initial_ue_message"
  | Finished "'x initial_ue_message" "'x initial_ue_result"
  | TaskPanicked "'x initial_ue_message"

record ('r, 'x, 's, 'a, 'um) ue_sys =
  sys_gnb :: "('r, 'x, 's, 'a, 'um) gnb_context"
  sys_tasks :: "'x ue_task list"

text \<open>What one task does next, with the context of the gNB.\<close>

fun task_step ::
  "('r, 'x, 's, 'a, 'io, 'gm, 'um) amf_env \<Rightarrow> nat \<Rightarrow> 'x ue_task \<Rightarrow>
     ('r, 'x, 's, 'a, 'um) gnb_context \<Rightarrow> 'x ue_task \<times> ('r, 'x, 's, 'a, 'um) gnb_context" where
  "task_step env gref (Started req) gnb =
     ((case iu_check env req gnb of Some r \<Rightarrow> Finished req r | None \<Rightarrow> Checked req), gnb)"
| "task_step env gref (Checked req) gnb =
     (case iu_build env gref req gnb of
        (None, gnb) \<Rightarrow> (TaskPanicked req, gnb)
      | (Some ue, gnb) \<Rightarrow> (Built req ue, gnb))"
| "task_step env gref (Built req ue) gnb =
     (case iu_add env ue gnb of
        (None, gnb) \<Rightarrow> (TaskPanicked req, gnb)
      | (Some (Some r), gnb) \<Rightarrow> (Finished req r, gnb)
      | (Some None, gnb) \<Rightarrow> (Registered req, gnb))"
| "task_step env gref (Registered req) gnb =
     (case iu_with env req gnb of
        (None, gnb) \<Rightarrow> (TaskPanicked req, gnb)
      | (Some r, gnb) \<Rightarrow> (Finished req r, gnb))"
| "task_step env gref (Finished req r) gnb = (Finished req r, gnb)"
| "task_step env gref (TaskPanicked req) gnb = (TaskPanicked req, gnb)"

inductive ue_step ::
  "('r, 'x, 's, 'a, 'io, 'gm, 'um) amf_env \<Rightarrow> nat \<Rightarrow> ('r, 'x, 's, 'a, 'um) ue_sys \<Rightarrow>
     ('r, 'x, 's, 'a, 'um) ue_sys \<Rightarrow> bool" for env gref where
  arrive: "ue_step env gref s (s\<lparr>sys_tasks := sys_tasks s @ [Started req]\<rparr>)"
| task: "sys_tasks s = ps @ p # ps' \<Longrightarrow> task_step env gref p (sys_gnb s) = (p', gnb) \<Longrightarrow>
    ue_step env gref s \<lparr>sys_gnb = gnb, sys_tasks = ps @ p' # ps'\<rparr>"

inductive ue_reachable ::
  "('r, 'x, 's, 'a, 'io, 'gm, 'um) amf_env \<Rightarrow> nat \<Rightarrow> ('s, 'a) tnla_association \<Rightarrow>
     ('r, 'x, 's, 'a, 'um) ue_sys \<Rightarrow> bool" for env gref tnla where
  init: "ue_reachable env gref tnla \<lparr>sys_gnb = gnb_context_new env tnla, sys_tasks = []\<rparr>"
| step: "ue_reachable env gref tnla s \<Longrightarrow> ue_step env gref s t \<Longrightarrow> ue_reachable env gref tnla t"

fun task_request :: "'x ue_task \<Rightarrow> 'x initial_ue_message" where
  "task_request (Started req) = req"
| "task_request (Checked req) = req"
| "task_request (Built req ue) = req"
| "task_request (Registered req) = req"
| "task_request (Finished req r) = req"
| "task_request (TaskPanicked req) = req"

subsection \<open>The effect of the pieces on the table of contexts\<close>

abbreviation ue_table ::
  "('um \<Rightarrow> ran_ue_ngap_id \<Rightarrow> nat option) \<Rightarrow> ('r, 'x, 's, 'a, 'um) gnb_context \<Rightarrow>
     ran_ue_ngap_id \<Rightarrow> 'x ue_context option" where
  "ue_table entries gnb \<equiv> contexts entries (ue_context_manager gnb)"

lemma iu_check_iff:
  assumes "scc_hash_map (ue_ops env) entries" and "manager_inv entries (ue_context_manager gnb)"
  shows "iu_check env req gnb =
    (if ue_table entries gnb (iu_ran_ue_ngap_id req) = None then None
     else Some (Err (new_empty_failure_error (UeContextAlreadyExists (ExistsInitialUeMessage req)))))"
  using assms by (simp add: iu_check_def contains_context_def scc_hash_map.contains_iff contexts_None_iff)

lemma iu_build_effect:
  assumes "iu_build env gref req gnb = (r, gnb')"
  shows "ue_context_manager gnb' = ue_context_manager gnb \<and>
    amf_ue_id_generator gnb' = snd (increment (amf_ue_id_generator gnb)) \<and>
    (\<forall>ue. r = Some ue \<longrightarrow> ran_ue_ngap_id ue = iu_ran_ue_ngap_id req \<and>
       amf_ue_ngap_id ue = fst (increment (amf_ue_id_generator gnb)) \<and> gnb_context_ref ue = gref) \<and>
    (r = None \<longrightarrow> iu_five_g_s_tmsi req \<noteq> None)"
  using assms
  by (cases "iu_five_g_s_tmsi req")
    (auto simp: iu_build_def split_beta Let_def ue_context_new_def bind_eq_Some_conv)

lemma iu_build_total:
  assumes "bitvec (bitlib env)"
    and "\<forall>v. iu_five_g_s_tmsi req = Some v \<longrightarrow>
      length (tmsi_amf_set_id v) = 10 \<and> length (tmsi_amf_pointer v) = 6"
  shows "\<exists>ue g. iu_build env gref req gnb = (Some ue, g) \<and> machine_state (gmm ue) = Deregistered"
proof (cases "iu_five_g_s_tmsi req")
  case None
  then show ?thesis
    by (simp add: iu_build_def split_beta Let_def ue_context_new_def state_machine_def)
next
  case (Some v)
  with assms(2) have "8 < length (tmsi_amf_set_id v)" "tmsi_amf_pointer v \<noteq> []"
    by auto
  from from_ngap_five_g_s_tmsi_total [OF assms(1) this] obtain bs where
    "from_ngap_five_g_s_tmsi (hexlib env) (bitlib env) v = Some (hex_string (hexlib env) bs)"
    by blast
  with Some show ?thesis
    by (simp add: iu_build_def split_beta Let_def ue_context_new_def state_machine_def)
qed

lemma iu_add_vacant:
  assumes "scc_hash_map (ue_ops env) entries" and "manager_inv entries (ue_context_manager gnb)"
    and "ue_table entries gnb (ran_ue_ngap_id ue) = None" and "iu_add env ue gnb = (r, gnb')"
  shows "r = Some None \<and> ue_table entries gnb' = (ue_table entries gnb)(ran_ue_ngap_id ue \<mapsto> ue) \<and>
    manager_inv entries (ue_context_manager gnb') \<and> amf_ue_id_generator gnb' = amf_ue_id_generator gnb"
  using assms(4) arc_table.add_context_vacant [OF arc_table.intro [OF assms(1)] assms(2), of ue_id ue]
    assms(3)
  by (auto simp: iu_add_def split_beta ue_id_def)

lemma iu_add_occupied:
  assumes "scc_hash_map (ue_ops env) entries" and "manager_inv entries (ue_context_manager gnb)"
    and "ue_table entries gnb (ran_ue_ngap_id ue) = Some c" and "iu_add env ue gnb = (r, gnb')"
  shows "r = None \<and> ue_table entries gnb' = ue_table entries gnb \<and>
    manager_inv entries (ue_context_manager gnb') \<and> amf_ue_id_generator gnb' = amf_ue_id_generator gnb"
  using assms(4) arc_table.add_context_occupied [OF arc_table.intro [OF assms(1)] assms(2), of ue_id ue c]
    assms(3)
  by (auto simp: iu_add_def split_beta ue_id_def)

lemma iu_with_known:
  assumes "scc_hash_map (ue_ops env) entries" and "manager_inv entries (ue_context_manager gnb)"
    and "ue_table entries gnb (iu_ran_ue_ngap_id req) = Some c" and "iu_with env req gnb = (r, gnb')"
  shows "r = Some (Ok EmptyResponse) \<and> ue_table entries gnb' = ue_table entries gnb \<and>
    manager_inv entries (ue_context_manager gnb') \<and> amf_ue_id_generator gnb' = amf_ue_id_generator gnb"
  using assms(4) arc_table.with_context_known [OF arc_table.intro [OF assms(1)] assms(3,2),
      of "\<lambda>ue. (handle_nas (iu_nas_pdu req) ue, Some ())"] assms(3)
  by (auto simp: iu_with_def split_beta handle_nas_def fun_upd_idem_iff)

lemmas iu_effects = iu_add_vacant iu_add_occupied iu_with_known

subsection \<open>The invariant\<close>

fun built_id :: "'x ue_task \<Rightarrow> amf_ue_ngap_id list" where
  "built_id (Built req ue) = [amf_ue_ngap_id ue]"
| "built_id _ = []"

fun drew_id :: "'x ue_task \<Rightarrow> bool" where
  "drew_id (Started req) = False"
| "drew_id (Checked req) = False"
| "drew_id _ = True"

fun task_ok :: "(ran_ue_ngap_id \<Rightarrow> 'x ue_context option) \<Rightarrow> 'x ue_task \<Rightarrow> bool" where
  "task_ok tab (Built req ue) \<longleftrightarrow> ran_ue_ngap_id ue = iu_ran_ue_ngap_id req"
| "task_ok tab (Registered req) \<longleftrightarrow> tab (iu_ran_ue_ngap_id req) \<noteq> None"
| "task_ok tab (Finished req r) \<longleftrightarrow> tab (iu_ran_ue_ngap_id req) \<noteq> None"
| "task_ok tab (TaskPanicked req) \<longleftrightarrow>
     tab (iu_ran_ue_ngap_id req) \<noteq> None \<or> iu_five_g_s_tmsi req \<noteq> None"
| "task_ok tab _ \<longleftrightarrow> True"

text \<open>The identifiers in use: those of the registered contexts and of contexts being built.\<close>

definition table_ok :: "(ran_ue_ngap_id \<Rightarrow> 'x ue_context option) \<Rightarrow> bool" where
  "table_ok tab \<longleftrightarrow> (\<forall>i c. tab i = Some c \<longrightarrow> ran_ue_ngap_id c = i) \<and>
     (\<forall>i j c d. tab i = Some c \<and> tab j = Some d \<and> amf_ue_ngap_id c = amf_ue_ngap_id d \<longrightarrow> i = j)"

definition ids_ok ::
  "64 counter \<Rightarrow> (ran_ue_ngap_id \<Rightarrow> 'x ue_context option) \<Rightarrow> 'x ue_task list \<Rightarrow> bool" where
  "ids_ok gen tab tasks \<longleftrightarrow> distinct (concat (map built_id tasks)) \<and>
     amf_ue_ngap_id ` ran tab \<inter> set (concat (map built_id tasks)) = {} \<and>
     (\<forall>i \<in> amf_ue_ngap_id ` ran tab \<union> set (concat (map built_id tasks)). unat i < unat gen) \<and>
     unat gen \<le> Suc (length (filter drew_id tasks))"

definition ue_inv ::
  "('um \<Rightarrow> ran_ue_ngap_id \<Rightarrow> nat option) \<Rightarrow> ('r, 'x, 's, 'a, 'um) ue_sys \<Rightarrow> bool" where
  "ue_inv entries s \<longleftrightarrow>
     manager_inv entries (ue_context_manager (sys_gnb s)) \<and>
     table_ok (ue_table entries (sys_gnb s)) \<and>
     list_all (task_ok (ue_table entries (sys_gnb s))) (sys_tasks s) \<and>
     ids_ok (amf_ue_id_generator (sys_gnb s)) (ue_table entries (sys_gnb s)) (sys_tasks s)"

lemma task_ok_mono: "task_ok tab p \<Longrightarrow> tab i = None \<Longrightarrow> task_ok (tab(i \<mapsto> c)) p"
  by (cases p) auto

lemma list_all_task_ok_mono:
  "list_all (task_ok tab) ps \<Longrightarrow> tab i = None \<Longrightarrow> list_all (task_ok (tab(i \<mapsto> c))) ps"
  by (auto simp: list_all_iff intro: task_ok_mono)

lemma ran_update_new: "tab i = None \<Longrightarrow> ran (tab(i \<mapsto> c)) = insert c (ran tab)"
  by (rule ran_map_upd)

lemma ids_ok_build:
  assumes "ids_ok gen tab (ps @ Checked req # ps')" and "unat gen < 2 ^ 64 - 1"
  shows "amf_ue_ngap_id ue = fst (increment gen) \<Longrightarrow>
      ids_ok (snd (increment gen)) tab (ps @ Built req ue # ps')"
    and "ids_ok (snd (increment gen)) tab (ps @ TaskPanicked req # ps')"
proof -
  let ?used = "amf_ue_ngap_id ` ran tab \<union> set (concat (map built_id (ps @ ps')))"
  have below: "\<forall>i \<in> ?used. unat i < unat gen"
    using assms(1) unfolding ids_ok_def by fastforce
  have clk: "unat (snd (increment gen)) = Suc (unat gen)"
    using ctr.clock_next [of gen] assms(2) by simp
  have fresh: "fst (increment gen) \<notin> ?used"
    and below': "\<forall>i \<in> insert (fst (increment gen)) ?used. unat i < unat (snd (increment gen))"
    using ctr.next_fresh [of gen ?used] ctr.used_next [of gen ?used] below assms(2) by simp_all
  show "ids_ok (snd (increment gen)) tab (ps @ TaskPanicked req # ps')"
    using assms(1) below' clk unfolding ids_ok_def by auto
  show "ids_ok (snd (increment gen)) tab (ps @ Built req ue # ps')"
    if "amf_ue_ngap_id ue = fst (increment gen)"
    using assms(1) below' fresh clk that unfolding ids_ok_def by auto
qed

lemma ids_ok_register:
  assumes "ids_ok gen tab (ps @ Built req ue # ps')" and "tab i = None"
  shows "ids_ok gen (tab(i \<mapsto> ue)) (ps @ Registered req # ps')"
  using assms unfolding ids_ok_def by (auto simp: ran_update_new)

lemma ids_ok_drop:
  assumes "ids_ok gen tab (ps @ p # ps')" and "built_id p' = []" and "drew_id p \<longrightarrow> drew_id p'"
  shows "ids_ok gen tab (ps @ p' # ps')"
  using assms unfolding ids_ok_def by (auto split: if_splits)

lemma table_ok_register:
  assumes "table_ok tab" and "tab (ran_ue_ngap_id ue) = None"
    and "amf_ue_ngap_id ue \<notin> amf_ue_ngap_id ` ran tab"
  shows "table_ok (tab(ran_ue_ngap_id ue \<mapsto> ue))"
  using assms unfolding table_ok_def by (auto simp: ran_def image_iff)


lemma ids_ok_register_new:
  "ids_ok gen tab (ps @ Built req ue # ps') \<Longrightarrow> amf_ue_ngap_id ue \<notin> amf_ue_ngap_id ` ran tab"
  unfolding ids_ok_def by auto

lemma ids_ok_bound:
  assumes "ids_ok gen tab (ps @ p # ps')" and "\<not> drew_id p"
  shows "unat gen \<le> length (ps @ p # ps')"
proof -
  have "unat gen \<le> Suc (length (filter drew_id ps) + length (filter drew_id ps'))"
    using assms by (simp add: ids_ok_def)
  also have "\<dots> \<le> length (ps @ p # ps')"
    using add_mono [OF length_filter_le [of drew_id ps] length_filter_le [of drew_id ps']] by simp
  finally show ?thesis .
qed

lemma ue_inv_task:
  assumes scc: "scc_hash_map (ue_ops env) entries"
    and inv: "ue_inv entries \<lparr>sys_gnb = gnb, sys_tasks = ps @ p # ps'\<rparr>"
    and bound: "length (ps @ p # ps') < 2 ^ 64 - 1"
    and step: "task_step env gref p gnb = (p', gnb')"
  shows "ue_inv entries \<lparr>sys_gnb = gnb', sys_tasks = ps @ p' # ps'\<rparr>"
proof -
  let ?tab = "ue_table entries gnb" and ?gen = "amf_ue_id_generator gnb"
  from inv have mgr: "manager_inv entries (ue_context_manager gnb)" and tab: "table_ok ?tab"
    and tasks: "list_all (task_ok ?tab) ps" "task_ok ?tab p" "list_all (task_ok ?tab) ps'"
    and ids: "ids_ok ?gen ?tab (ps @ p # ps')"
    by (simp_all add: ue_inv_def)
  show ?thesis
  proof (cases p)
    case (Started req)
    with step have "gnb' = gnb" and "p' = Checked req \<or> (\<exists>r. p' = Finished req r) \<and> task_ok ?tab p'"
      by (auto simp: iu_check_iff [OF scc mgr] split: option.splits if_splits)
    with Started mgr tab tasks ids show ?thesis
      by (auto simp: ue_inv_def intro: ids_ok_drop)
  next
    case (Checked req)
    obtain r g where build: "iu_build env gref req gnb = (r, g)"
      by force
    from ids_ok_bound [OF ids] Checked bound have "unat ?gen < 2 ^ 64 - 1"
      by simp
    note next_ids = ids_ok_build [OF ids [unfolded Checked] this]
    from step Checked build have "gnb' = g" and "p' = (case r of None \<Rightarrow> TaskPanicked req | Some ue \<Rightarrow> Built req ue)"
      by (auto split: option.splits)
    with iu_build_effect [OF build] next_ids mgr tab tasks show ?thesis
      by (cases r) (auto simp: ue_inv_def)
  next
    case (Built req ue)
    then have ran: "ran_ue_ngap_id ue = iu_ran_ue_ngap_id req"
      using tasks by simp
    obtain r g where add: "iu_add env ue gnb = (r, g)"
      by force
    show ?thesis
    proof (cases "?tab (ran_ue_ngap_id ue)")
      case None
      note added = iu_add_vacant [OF scc mgr None add]
      with step Built add have "gnb' = g" and "p' = Registered req"
        by auto
      with added Built ran tab tasks None ids_ok_register [OF ids [unfolded Built] None]
        table_ok_register [OF tab None] ids_ok_register_new [OF ids [unfolded Built]]
      show ?thesis
        by (auto simp: ue_inv_def intro: list_all_task_ok_mono)
    next
      case (Some c)
      note refused = iu_add_occupied [OF scc mgr Some add]
      with step Built add have "gnb' = g" and "p' = TaskPanicked req"
        by auto
      with refused Built ran tab tasks Some show ?thesis
        by (auto simp: ue_inv_def intro: ids_ok_drop [OF ids])
    qed
  next
    case (Registered req)
    then obtain c where c: "?tab (iu_ran_ue_ngap_id req) = Some c"
      using tasks by auto
    obtain r g where w: "iu_with env req gnb = (r, g)"
      by force
    note ran = iu_with_known [OF scc mgr c w]
    with step Registered w have "gnb' = g" and "p' = Finished req (Ok EmptyResponse)"
      by auto
    with ran Registered tab tasks c show ?thesis
      by (auto simp: ue_inv_def intro: ids_ok_drop [OF ids])
  qed (use step inv in auto)
qed

lemma ue_inv_reachable:
  assumes "scc_hash_map (ue_ops env) entries" and "ue_reachable env gref tnla s"
    and "length (sys_tasks s) < 2 ^ 64 - 1"
  shows "ue_inv entries s"
  using assms(2,3)
proof (induction rule: ue_reachable.induct)
  case init
  have "ue_table entries (gnb_context_new env tnla) = Map.empty"
    using scc_hash_map.entries_new [OF assms(1)]
    by (auto simp: contexts_def context_manager_new_def gnb_context_new_def fun_eq_iff)
  moreover have "manager_inv entries (ue_context_manager (gnb_context_new env tnla))"
    unfolding gnb_context_new_def
    by (simp add: arc_table.manager_inv_new [OF arc_table.intro [OF assms(1)]])
  ultimately show ?case
    by (simp add: ue_inv_def table_ok_def ids_ok_def) (simp add: gnb_context_new_def counter_new_def)
next
  case (step s t)
  from step.hyps(2) show ?case
  proof cases
    case (arrive req)
    with step have "ue_inv entries s"
      by simp
    with arrive show ?thesis
      by (simp add: ue_inv_def ids_ok_def)
  next
    case (task ps p ps' p' gnb)
    with step have "ue_inv entries s" "length (ps @ p # ps') < 2 ^ 64 - 1"
      by simp_all
    with task ue_inv_task [OF assms(1), of "sys_gnb s" ps p ps' gref p' gnb] show ?thesis
      by (cases s) simp
  qed
qed

subsection \<open>Properties\<close>

text \<open>
  C12: one initial UE message, alone.  If the gNB has a context for the UE already, the request
  is refused with the message and nothing changes.  Otherwise, when the message has no
  5G-S-TMSI or one with the bit lengths of the standard, the handler answers with nothing,
  registers exactly one new context under the identifier of the message, with the next AMF
  identifier and its mobility machine deregistered, and leaves every other context alone.
\<close>

theorem handle_initial_ue_outcome:
  assumes "scc_hash_map (ue_ops env) entries" and "hex_codec (hexlib env)" and "bitvec (bitlib env)"
    and "manager_inv entries (ue_context_manager gnb)"
    and "handle_initial_ue env gref req gnb = (out, gnb')"
  shows "case ue_table entries gnb (iu_ran_ue_ngap_id req) of
      Some c \<Rightarrow> gnb' = gnb \<and>
        out = Some (Err (new_empty_failure_error (UeContextAlreadyExists (ExistsInitialUeMessage req))))
    | None \<Rightarrow> (\<forall>v. iu_five_g_s_tmsi req = Some v \<longrightarrow>
          length (tmsi_amf_set_id v) = 10 \<and> length (tmsi_amf_pointer v) = 6) \<longrightarrow>
        out = Some (Ok EmptyResponse) \<and> manager_inv entries (ue_context_manager gnb') \<and>
        (\<exists>ue. ue_table entries gnb' = (ue_table entries gnb)(iu_ran_ue_ngap_id req \<mapsto> ue) \<and>
           ran_ue_ngap_id ue = iu_ran_ue_ngap_id req \<and> amf_ue_ngap_id ue = amf_ue_id_generator gnb \<and>
           gnb_context_ref ue = gref \<and> machine_state (gmm ue) = Deregistered) \<and>
        amf_ue_id_generator gnb' = amf_ue_id_generator gnb + 1"
proof (cases "ue_table entries gnb (iu_ran_ue_ngap_id req)")
  case (Some c)
  with assms(5) show ?thesis
    by (auto simp: handle_initial_ue_def iu_check_iff [OF assms(1,4)])
next
  case None
  have "out = Some (Ok EmptyResponse) \<and> manager_inv entries (ue_context_manager gnb') \<and>
      (\<exists>ue. ue_table entries gnb' = (ue_table entries gnb)(iu_ran_ue_ngap_id req \<mapsto> ue) \<and>
         ran_ue_ngap_id ue = iu_ran_ue_ngap_id req \<and> amf_ue_ngap_id ue = amf_ue_id_generator gnb \<and>
         gnb_context_ref ue = gref \<and> machine_state (gmm ue) = Deregistered) \<and>
      amf_ue_id_generator gnb' = amf_ue_id_generator gnb + 1"
    if lens: "\<forall>v. iu_five_g_s_tmsi req = Some v \<longrightarrow>
      length (tmsi_amf_set_id v) = 10 \<and> length (tmsi_amf_pointer v) = 6"
  proof -
    obtain g1 ue where build: "iu_build env gref req gnb = (Some ue, g1)"
      and ue: "machine_state (gmm ue) = Deregistered"
      using iu_build_total [OF assms(3) lens] by metis
    obtain r g2 where add: "iu_add env ue g1 = (r, g2)"
      by force
    obtain r' g3 where w: "iu_with env req g2 = (r', g3)"
      by force
    note b = iu_build_effect [OF build]
    have a: "r = Some None \<and> ue_table entries g2 = (ue_table entries g1)(ran_ue_ngap_id ue \<mapsto> ue) \<and>
        manager_inv entries (ue_context_manager g2) \<and> amf_ue_id_generator g2 = amf_ue_id_generator g1"
      by (rule iu_add_vacant [OF assms(1) _ _ add]) (use b assms(4) None in auto)
    have "r' = Some (Ok EmptyResponse) \<and> ue_table entries g3 = ue_table entries g2 \<and>
        manager_inv entries (ue_context_manager g3) \<and> amf_ue_id_generator g3 = amf_ue_id_generator g2"
      by (rule iu_with_known [OF assms(1) _ _ w]) (use a b in auto)
    with a b ue build add w None assms(5) show ?thesis
      by (auto simp: handle_initial_ue_def iu_check_iff [OF assms(1,4)] increment_def)
  qed
  with None show ?thesis by simp
qed

text \<open>
  C8: many initial UE messages, handled concurrently.  In every reachable state, whatever the
  interleaving, each context is filed under its own RAN identifier, no two contexts have the
  same AMF identifier, and a handler that has returned, in whatever way, leaves a context for
  its UE behind; a handler that panicked either lost the race for its UE, whose context is
  there, or carried a 5G-S-TMSI.
\<close>

theorem initial_ue_concurrent:
  assumes "scc_hash_map (ue_ops env) entries" and "ue_reachable env gref tnla s"
    and "length (sys_tasks s) < 2 ^ 64 - 1"
  shows "(\<forall>i c. ue_table entries (sys_gnb s) i = Some c \<longrightarrow> ran_ue_ngap_id c = i) \<and>
    (\<forall>i j c d. ue_table entries (sys_gnb s) i = Some c \<and> ue_table entries (sys_gnb s) j = Some d \<and>
       amf_ue_ngap_id c = amf_ue_ngap_id d \<longrightarrow> i = j) \<and>
    (\<forall>req r. Finished req r \<in> set (sys_tasks s) \<longrightarrow>
       ue_table entries (sys_gnb s) (iu_ran_ue_ngap_id req) \<noteq> None) \<and>
    (\<forall>req. TaskPanicked req \<in> set (sys_tasks s) \<longrightarrow>
       ue_table entries (sys_gnb s) (iu_ran_ue_ngap_id req) \<noteq> None \<or> iu_five_g_s_tmsi req \<noteq> None)"
proof -
  have inv: "ue_inv entries s"
    by (rule ue_inv_reachable [OF assms])
  then have "\<forall>p \<in> set (sys_tasks s). task_ok (ue_table entries (sys_gnb s)) p"
    by (simp add: ue_inv_def list_all_iff)
  then have "\<forall>req r. Finished req r \<in> set (sys_tasks s) \<longrightarrow>
       ue_table entries (sys_gnb s) (iu_ran_ue_ngap_id req) \<noteq> None"
    and "\<forall>req. TaskPanicked req \<in> set (sys_tasks s) \<longrightarrow>
       ue_table entries (sys_gnb s) (iu_ran_ue_ngap_id req) \<noteq> None \<or> iu_five_g_s_tmsi req \<noteq> None"
    by (metis task_ok.simps(3), metis task_ok.simps(4))
  with inv show ?thesis
    unfolding ue_inv_def table_ok_def by blast
qed


subsection \<open>Witnesses\<close>

definition demo_iu :: "unit initial_ue_message" where
  "demo_iu = \<lparr>iu_ran_ue_ngap_id = 9, iu_nas_pdu = [126], iu_rrc_establishment_cause = (),
     iu_five_g_s_tmsi = None\<rparr>"

definition demo_ue :: "amf_ue_ngap_id \<Rightarrow> unit ue_context" where
  "demo_ue i = ue_context_new 9 i () 0 None (state_machine nas_context_new)"

definition demo_registered :: "64 counter \<Rightarrow> (nat, unit, nat, nat, ran_ue_ngap_id \<rightharpoonup> nat) gnb_context" where
  "demo_registered gen = demo_gnb\<lparr>amf_ue_id_generator := gen, ue_context_manager :=
     \<lparr>queues = [9 \<mapsto> 0], arcs = [0 \<mapsto> context_queue_new (demo_ue 1)], next_arc = 1\<rparr>\<rparr>"

lemma demo_gnb_eq:
  "demo_gnb = \<lparr>tnla_association = demo_tnla, global_ran_node_id = 0,
     ue_context_manager = \<lparr>queues = Map.empty, arcs = Map.empty, next_arc = 0\<rparr>, gnb_name = [],
     default_paging_drx = (), amf_ue_id_generator = 1\<rparr>"
  by (simp add: demo_gnb_def gnb_context_new_def demo_env_def context_manager_new_def counter_new_def)

text \<open>Two messages of the same UE: both handlers pass the check, one of them panics.\<close>

lemma demo_race_steps:
  "task_step demo_env 0 (Started demo_iu) demo_gnb = (Checked demo_iu, demo_gnb)"
  "task_step demo_env 0 (Checked demo_iu) demo_gnb =
     (Built demo_iu (demo_ue 1), demo_gnb\<lparr>amf_ue_id_generator := 2\<rparr>)"
  "task_step demo_env 0 (Checked demo_iu) (demo_gnb\<lparr>amf_ue_id_generator := 2\<rparr>) =
     (Built demo_iu (demo_ue 2), demo_gnb\<lparr>amf_ue_id_generator := 3\<rparr>)"
  "task_step demo_env 0 (Built demo_iu (demo_ue 1)) (demo_gnb\<lparr>amf_ue_id_generator := 3\<rparr>) =
     (Registered demo_iu, demo_registered 3)"
  "task_step demo_env 0 (Built demo_iu (demo_ue 2)) (demo_registered 3) =
     (TaskPanicked demo_iu, demo_registered 3)"
  by (simp_all add: demo_gnb_eq demo_env_def demo_iu_def demo_ue_def demo_registered_def iu_check_def
      iu_build_def iu_add_def contains_context_def add_context_def increment_def ue_id_def
      ue_context_new_def arc_into_inner_def Let_def)

lemma ue_reachable_task:
  assumes "ue_reachable env gref tnla \<lparr>sys_gnb = g, sys_tasks = ps @ p # ps'\<rparr>"
    and "task_step env gref p g = (p', g')"
  shows "ue_reachable env gref tnla \<lparr>sys_gnb = g', sys_tasks = ps @ p' # ps'\<rparr>"
  by (rule ue_reachable.step [OF assms(1)], rule ue_step.task) (use assms(2) in simp_all)

lemma ue_reachable_arrive:
  assumes "ue_reachable env gref tnla \<lparr>sys_gnb = g, sys_tasks = ps\<rparr>"
  shows "ue_reachable env gref tnla \<lparr>sys_gnb = g, sys_tasks = ps @ [Started req]\<rparr>"
  using ue_reachable.step [OF assms ue_step.arrive] by simp

lemma demo_race:
  "ue_reachable demo_env 0 demo_tnla
     \<lparr>sys_gnb = demo_registered 3, sys_tasks = [Registered demo_iu, TaskPanicked demo_iu]\<rparr>"
proof -
  note first = ue_reachable_task [where ps = "[]", simplified]
    and second = ue_reachable_task [where ps = "[p]" and ps' = "[]" for p, simplified]
  have "ue_reachable demo_env 0 demo_tnla
      \<lparr>sys_gnb = demo_gnb, sys_tasks = [Started demo_iu, Started demo_iu]\<rparr>"
    using ue_reachable_arrive [OF ue_reachable_arrive [OF ue_reachable.init
        [of demo_env 0 demo_tnla, folded demo_gnb_def]]]
    by simp
  note first [OF this demo_race_steps(1)]
  note second [OF this demo_race_steps(1)]
  note first [OF this demo_race_steps(2)]
  note second [OF this demo_race_steps(3)]
  note first [OF this demo_race_steps(4)]
  note second [OF this demo_race_steps(5)]
  then show ?thesis .
qed

theorem handle_initial_ue_outcome_witness:
  "\<exists>gnb. handle_initial_ue demo_env 0 demo_iu demo_gnb = (Some (Ok EmptyResponse), gnb) \<and>
    (\<exists>ue. ue_table (\<lambda>m. m) gnb 9 = Some ue \<and> amf_ue_ngap_id ue = 1)"
proof -
  obtain out gnb where run: "handle_initial_ue demo_env 0 demo_iu demo_gnb = (out, gnb)"
    by force
  have "manager_inv (\<lambda>m. m) (ue_context_manager demo_gnb)"
    by (simp add: demo_gnb_eq manager_inv_def)
  moreover have "ue_table (\<lambda>m. m) demo_gnb 9 = None" "amf_ue_id_generator demo_gnb = 1"
    by (simp_all add: demo_gnb_eq contexts_def)
  moreover have "iu_ran_ue_ngap_id demo_iu = 9" "iu_five_g_s_tmsi demo_iu = None"
    by (simp_all add: demo_iu_def)
  ultimately show ?thesis
    using handle_initial_ue_outcome [OF demo_env_laws(2-4) _ run] run by auto
qed

theorem initial_ue_concurrent_witness:
  "ue_table (\<lambda>m. m) (demo_registered 3) 9 \<noteq> None \<and>
   ue_reachable demo_env 0 demo_tnla
     \<lparr>sys_gnb = demo_registered 3, sys_tasks = [Registered demo_iu, TaskPanicked demo_iu]\<rparr>"
  using initial_ue_concurrent [OF demo_env_laws(2) demo_race] demo_race
  by (simp add: demo_iu_def)

end
