(* ===== verification/Ngap_Controller.thy ===== *)
theory Ngap_Controller
  imports Initial_Ue
begin

text \<open>
  \<open>ngap/engine/controller.rs\<close>, \<open>ngap/core/ngap_route.rs\<close> and \<open>ngap/engine/ue_actions.rs\<close>:
  the life of a connection to a RAN node, from the accepted association through NG Setup to
  the message loop and its end.

  What a read of a socket answers is an argument.  A definition that writes to sockets returns
  the messages it passed to them next to its result.  The last part is the step relation of the
  whole AMF with any number of connections, one step being what a task does between two
  operations on shared state.
\<close>

subsection \<open>Writing\<close>

datatype ('a, 'io, 'x) ngap_write_error =
    WriteNetworkError "('a, 'io) network_error"
  | EncodingError "'x three_gpp_asn1_per_error"

type_synonym 's wire = "('s \<times> bytes \<times> send_options) list"

definition encode_and_write_ngap_pdu ::
  "('r, 'x, 's, 'a, 'io, 'gm, 'um) amf_env \<Rightarrow> ('s, 'a) tnla_association \<Rightarrow> ('r, 'x) ngap_pdu \<Rightarrow>
     (unit, ('a, 'io, 'x) ngap_write_error) result \<times> 's wire" where
  "encode_and_write_ngap_pdu env tnla pdu =
     (case codec_to_bytes (ngap env) pdu of
        Ok bytes \<Rightarrow>
          (case write_data (sctp_lib env) tnla bytes None of
             (r, msg) \<Rightarrow>
               (map_err (\<lambda>err. WriteNetworkError (TnlaSendError (assoc_id tnla) err)) r, [msg]))
      | Err e \<Rightarrow> (Err (EncodingError e), []))"

definition send_downlink_nas_transport ::
  "('r, 'x, 's, 'a, 'io, 'gm, 'um) amf_env \<Rightarrow> ('r, 'x, 's, 'a, 'um) gnb_context \<Rightarrow>
     'x ue_context \<Rightarrow> bytes \<Rightarrow> (unit, ('a, 'io, 'x) ngap_write_error) result \<times> 's wire" where
  "send_downlink_nas_transport env gnb ue nas_pdu =
     (let msg = \<lparr>dl_ran_ue_ngap_id = ran_ue_ngap_id ue, dl_amf_ue_ngap_id = amf_ue_ngap_id ue,
            dl_nas_pdu = nas_pdu\<rparr>
      in encode_and_write_ngap_pdu env (tnla_association gnb)
           (downlink_nas_transport_to_pdu (ngap env) msg))"

subsection \<open>NG Setup of a connection\<close>

datatype ('r, 'x, 'a, 'io) ngap_setup_error =
    SetupNetworkError "('a, 'io) network_error"
  | PerCodecEncodingError 'x
  | PerCodecDecodingError 'x
  | SetupWriteError "('a, 'io, 'x) ngap_write_error"
  | DidNotReceiveNgSetup "('r, 'x) ngap_pdu"
  | NgSetupError "('r, 'x) ng_setup_error"
  | SocketClosed

text \<open>
  The part of \<open>try_ng_setup\<close> between reading and writing: the result to return and the PDU to
  answer with; \<open>None\<close> is a panic of the handler.
\<close>

definition setup_answer ::
  "('r, 'x, 's, 'a, 'io, 'gm, 'um) amf_env \<Rightarrow> ('u, 'x) app_configuration \<Rightarrow> 'gm \<Rightarrow>
     bytes \<Rightarrow> ('r, 'x, 's, 'a, 'um) gnb_context \<Rightarrow>
     ((('r, 'x, 's, 'a, 'um) gnb_context, ('r, 'x, 'a, 'io) ngap_setup_error) result \<times>
      ('r, 'x) ngap_pdu) option" where
  "setup_answer env config gnb_contexts request gnb =
     (case decode_ngap_pdu (ngap env) request of
        Ok (InitiatingMessage (NgSetupRequest ng_setup_request)) \<Rightarrow>
          (case handle_ng_setup env config gnb_contexts ng_setup_request gnb of
             (None, gnb) \<Rightarrow> None
           | (Some (Ok success), gnb) \<Rightarrow> Some (Ok gnb, ng_setup_response_to_pdu (ngap env) success)
           | (Some (Err e), gnb) \<Rightarrow>
               Some (Err (NgSetupError (resp_error e)),
                 ngap_failure_to_pdu (ngap env) (ng_setup_failure_to_pdu (ngap env)) (resp_failure e)))
      | Err (e, err) \<Rightarrow> Some (Err (PerCodecEncodingError err), e)
      | Ok request \<Rightarrow>
          Some (Err (DidNotReceiveNgSetup request),
            error_indication_to_pdu (ngap env) (error_indication_default\<lparr>ei_cause :=
              Some (CauseProtocol MessageNotCompatibleWithReceiverState)\<rparr>)))"

definition try_ng_setup ::
  "('r, 'x, 's, 'a, 'io, 'gm, 'um) amf_env \<Rightarrow> ('u, 'x) app_configuration \<Rightarrow> 'gm \<Rightarrow>
     (nat \<times> bytes, 'io) result \<Rightarrow> ('s, 'a) tnla_association \<Rightarrow>
     (('r, 'x, 's, 'a, 'um) gnb_context, ('r, 'x, 'a, 'io) ngap_setup_error) result option \<times> 's wire" where
  "try_ng_setup env config gnb_contexts recvmsg tnla =
     (let gnb = gnb_context_new env tnla
      in case read_data recvmsg of
           Err e \<Rightarrow> (Some (Err (SetupNetworkError (TnlaReadError (assoc_id tnla) e))), [])
         | Ok None \<Rightarrow> (Some (Err SocketClosed), [])
         | Ok (Some request) \<Rightarrow>
             (case setup_answer env config gnb_contexts request gnb of
                None \<Rightarrow> (None, [])
              | Some (res, response) \<Rightarrow>
                  (case encode_and_write_ngap_pdu env tnla response of
                     (Err e, wire) \<Rightarrow> (Some (Err (SetupWriteError e)), wire)
                   | (Ok _, wire) \<Rightarrow> (Some res, wire))))"

definition INITIAL_GNB_CAPACITY :: nat where
  "INITIAL_GNB_CAPACITY = 1024"

definition INITIALIZATION_RETRIES :: nat where
  "INITIALIZATION_RETRIES = 3"

text \<open>
  The attempts \<open>attempt ..= INITIALIZATION_RETRIES\<close>.  \<open>inputs k\<close> is what attempt \<open>k\<close> meets: the
  answer of the read and the table of gNB contexts at its check.
\<close>

function retry_loop ::
  "('r, 'x, 's, 'a, 'io, 'gm, 'um) amf_env \<Rightarrow> ('u, 'x) app_configuration \<Rightarrow>
     ('s, 'a) tnla_association \<Rightarrow> (nat \<Rightarrow> (nat \<times> bytes, 'io) result \<times> 'gm) \<Rightarrow> nat \<Rightarrow>
     ('r, 'x, 's, 'a, 'um) gnb_context option option" where
  "retry_loop env config tnla inputs attempt =
     (if INITIALIZATION_RETRIES < attempt then Some None
      else case fst (try_ng_setup env config (snd (inputs attempt)) (fst (inputs attempt)) tnla) of
          None \<Rightarrow> None
        | Some (Ok ctx) \<Rightarrow> Some (Some ctx)
        | Some (Err e) \<Rightarrow> retry_loop env config tnla inputs (Suc attempt))"
  by auto
termination
  by (relation "measure (\<lambda>(_, _, _, _, attempt). Suc INITIALIZATION_RETRIES - attempt)") auto

declare retry_loop.simps [simp del]

definition try_ng_setup_with_retries ::
  "('r, 'x, 's, 'a, 'io, 'gm, 'um) amf_env \<Rightarrow> ('u, 'x) app_configuration \<Rightarrow>
     ('s, 'a) tnla_association \<Rightarrow> (nat \<Rightarrow> (nat \<times> bytes, 'io) result \<times> 'gm) \<Rightarrow>
     ('r, 'x, 's, 'a, 'um) gnb_context option option" where
  "try_ng_setup_with_retries env config tnla inputs = retry_loop env config tnla inputs 1"

subsection \<open>The table of gNB contexts\<close>

text \<open>
  The map holds \<open>Arc\<close>s: addresses in \<open>gnb_store\<close>.  \<open>register_gnb\<close> is the insertion of
  \<open>start_ngap_processing\<close>, whose result is unwrapped: \<open>None\<close> is that panic.
\<close>

record ('r, 'x, 's, 'a, 'gm, 'um) gnb_registry =
  gnb_contexts :: 'gm
  gnb_store :: "nat \<rightharpoonup> ('r, 'x, 's, 'a, 'um) gnb_context"
  next_gnb :: nat

definition register_gnb ::
  "('r, 'x, 's, 'a, 'io, 'gm, 'um) amf_env \<Rightarrow> ('r, 'x, 's, 'a, 'um) gnb_context \<Rightarrow>
     ('r, 'x, 's, 'a, 'gm, 'um) gnb_registry \<Rightarrow>
     nat option \<times> ('r, 'x, 's, 'a, 'gm, 'um) gnb_registry" where
  "register_gnb env gnb reg =
     (let a = next_gnb reg;
          reg = reg\<lparr>gnb_store := (gnb_store reg)(a \<mapsto> gnb), next_gnb := Suc a\<rparr>
      in case insert_async (gnb_ops env) (global_ran_node_id gnb) a (gnb_contexts reg) of
           (Ok _, m) \<Rightarrow> (Some a, reg\<lparr>gnb_contexts := m\<rparr>)
         | (Err _, m) \<Rightarrow> (None, reg\<lparr>gnb_contexts := m\<rparr>))"

definition close_ran_connection ::
  "('r, 'x, 's, 'a, 'io, 'gm, 'um) amf_env \<Rightarrow> ('r, 'x, 's, 'a, 'um) gnb_context \<Rightarrow>
     ('r, 'x, 's, 'a, 'gm, 'um) gnb_registry \<Rightarrow> ('r, 'x, 's, 'a, 'gm, 'um) gnb_registry" where
  "close_ran_connection env gnb reg =
     reg\<lparr>gnb_contexts := snd (remove_async (gnb_ops env) (global_ran_node_id gnb) (gnb_contexts reg))\<rparr>"

text \<open>
  \<open>start_ngap_processing\<close> of one connection: \<open>None\<close> is a panic, \<open>Some None\<close> the return after
  the last attempt, \<open>Some (Some a)\<close> the spawned message loop of the context at \<open>a\<close>.
\<close>

definition start_ngap_processing ::
  "('r, 'x, 's, 'a, 'io, 'gm, 'um) amf_env \<Rightarrow> ('u, 'x) app_configuration \<Rightarrow>
     ('s, 'a) tnla_association \<Rightarrow> (nat \<Rightarrow> (nat \<times> bytes, 'io) result \<times> 'gm) \<Rightarrow>
     ('r, 'x, 's, 'a, 'gm, 'um) gnb_registry \<Rightarrow>
     nat option option \<times> ('r, 'x, 's, 'a, 'gm, 'um) gnb_registry" where
  "start_ngap_processing env config tnla inputs reg =
     (case try_ng_setup_with_retries env config tnla inputs of
        None \<Rightarrow> (None, reg)
      | Some None \<Rightarrow> (Some None, reg)
      | Some (Some gnb) \<Rightarrow>
          (case register_gnb env gnb reg of
             (None, reg) \<Rightarrow> (None, reg)
           | (Some a, reg) \<Rightarrow> (Some (Some a), reg)))"

subsection \<open>Messages of a connected RAN node\<close>

text \<open>\<open>ngap_route\<close>: only the initial UE message has a handler; \<open>None\<close> is a panic in it.\<close>

definition ngap_route ::
  "('r, 'x, 's, 'a, 'io, 'gm, 'um) amf_env \<Rightarrow> nat \<Rightarrow> ('r, 'x) ngap_pdu \<Rightarrow>
     ('r, 'x, 's, 'a, 'um) gnb_context \<Rightarrow>
     ('r, 'x) ngap_pdu option option \<times> ('r, 'x, 's, 'a, 'um) gnb_context" where
  "ngap_route env gref request gnb =
     (case request of
        InitiatingMessage (InitialUeMessage pdu) \<Rightarrow>
          (case handle_initial_ue env gref pdu gnb of
             (resp, gnb) \<Rightarrow>
               (map_option (log_and_convert_to_pdu (ngap env) empty_response_to_pdu empty_response_to_pdu)
                  resp, gnb))
      | InitiatingMessage _ \<Rightarrow>
          (Some (to_pdu_some (error_indication_to_pdu (ngap env)) (new_semantic_error None None)), gnb)
      | _ \<Rightarrow> (Some (to_pdu_some (error_indication_to_pdu (ngap env)) (new_semantic_error None None)), gnb))"

text \<open>The task spawned for a message; \<open>False\<close> is a panic.\<close>

definition message_task ::
  "('r, 'x, 's, 'a, 'io, 'gm, 'um) amf_env \<Rightarrow> nat \<Rightarrow> bytes \<Rightarrow>
     ('r, 'x, 's, 'a, 'um) gnb_context \<Rightarrow> bool \<times> 's wire \<times> ('r, 'x, 's, 'a, 'um) gnb_context" where
  "message_task env gref message gnb =
     (let (response, gnb) =
        (case decode_ngap_pdu (ngap env) message of
           Ok pdu \<Rightarrow> ngap_route env gref pdu gnb
         | Err (pdu, e) \<Rightarrow> (Some (Some pdu), gnb))
      in case response of
           None \<Rightarrow> (False, [], gnb)
         | Some (Some pdu) \<Rightarrow> (True, snd (encode_and_write_ngap_pdu env (tnla_association gnb) pdu), gnb)
         | Some None \<Rightarrow> (True, [], gnb))"

text \<open>
  \<open>run_ngap_loop\<close> on the answers of its reads: how it ends, and the messages it spawned tasks
  for.  With no answer left it waits.
\<close>

fun run_ngap_loop ::
  "('s, 'a) tnla_association \<Rightarrow> (nat \<times> bytes, 'io) result list \<Rightarrow>
     (unit, ('a, 'io) network_error) result fut \<times> bytes list" where
  "run_ngap_loop tnla [] = (Pending, [])"
| "run_ngap_loop tnla (recvmsg # reads) =
     (case read_data recvmsg of
        Err err \<Rightarrow> (Ready (Err (TnlaReadError (assoc_id tnla) err)), [])
      | Ok None \<Rightarrow> (Ready (Ok ()), [])
      | Ok (Some message) \<Rightarrow>
          (case run_ngap_loop tnla reads of (r, spawned) \<Rightarrow> (r, message # spawned)))"

subsection \<open>The AMF with all its connections\<close>

text \<open>
  A connection is being set up (with the number of the attempt), has an answered setup and is
  about to be registered, runs its message loop on the context at an address, or has ended:
  closed by the peer, broken by a read error, given up after the last attempt, or dead by a
  panic.
\<close>

datatype ('r, 'x, 's, 'a, 'um) conn =
    SettingUp "('s, 'a) tnla_association" nat
  | Answered "('r, 'x, 's, 'a, 'um) gnb_context"
  | Running nat
  | Closed nat
  | Broken nat
  | GaveUp
  | Crashed

record ('r, 'x, 's, 'a, 'l, 'gm, 'um) amf_sys =
  amf_counter :: "64 counter"
  amf_network :: "('l, 's, 'a) network"
  amf_registry :: "('r, 'x, 's, 'a, 'gm, 'um) gnb_registry"
  amf_conns :: "('r, 'x, 's, 'a, 'um) conn list"

text \<open>\<open>NgapContext::new\<close>.\<close>

definition ngap_context_new ::
  "('r, 'x, 's, 'a, 'io, 'gm, 'um) amf_env \<Rightarrow> ('l, 's, 'a) network \<Rightarrow>
     ('r, 'x, 's, 'a, 'l, 'gm, 'um) amf_sys" where
  "ngap_context_new env net =
     \<lparr>amf_counter = counter_new, amf_network = net,
      amf_registry = \<lparr>gnb_contexts = with_capacity_and_hasher (gnb_ops env) INITIAL_GNB_CAPACITY, gnb_store = Map.empty, next_gnb = 0\<rparr>,
      amf_conns = []\<rparr>"

text \<open>A turn of the loop of \<open>run\<close> in which the accept branch is taken.\<close>

definition run_accept ::
  "('r, 'x, 's, 'a, 'io, 'gm, 'um) amf_env \<Rightarrow> ('s \<times> 'a, 'io) result \<Rightarrow>
     ('r, 'x, 's, 'a, 'l, 'gm, 'um) amf_sys \<Rightarrow> ('r, 'x, 's, 'a, 'l, 'gm, 'um) amf_sys" where
  "run_accept env accept s =
     (case accept_and_create_tnla (sctp_lib env) accept (amf_counter s) (amf_network s) of
        (r, counter, net) \<Rightarrow>
          s\<lparr>amf_counter := counter, amf_network := net,
            amf_conns := amf_conns s @ (case r of Ok tnla \<Rightarrow> [SettingUp tnla 1] | Err _ \<Rightarrow> [])\<rparr>)"

fun conn_step ::
  "('r, 'x, 's, 'a, 'io, 'gm, 'um) amf_env \<Rightarrow> ('u, 'x) app_configuration \<Rightarrow>
     (nat \<times> bytes, 'io) result \<Rightarrow> ('r, 'x, 's, 'a, 'um) conn \<Rightarrow>
     ('r, 'x, 's, 'a, 'gm, 'um) gnb_registry \<Rightarrow>
     ('r, 'x, 's, 'a, 'um) conn \<times> ('r, 'x, 's, 'a, 'gm, 'um) gnb_registry" where
  "conn_step env config recvmsg (SettingUp tnla k) reg =
     (case fst (try_ng_setup env config (gnb_contexts reg) recvmsg tnla) of
        None \<Rightarrow> (Crashed, reg)
      | Some (Ok gnb) \<Rightarrow> (Answered gnb, reg)
      | Some (Err e) \<Rightarrow> (if k < INITIALIZATION_RETRIES then SettingUp tnla (Suc k) else GaveUp, reg))"
| "conn_step env config recvmsg (Answered gnb) reg =
     (case register_gnb env gnb reg of
        (None, reg) \<Rightarrow> (Crashed, reg)
      | (Some a, reg) \<Rightarrow> (Running a, reg))"
| "conn_step env config recvmsg (Running a) reg =
     (case gnb_store reg a of
        None \<Rightarrow> (Running a, reg)
      | Some gnb \<Rightarrow>
          (case read_data recvmsg of
             Err e \<Rightarrow> (Broken a, reg)
           | Ok None \<Rightarrow> (Closed a, close_ran_connection env gnb reg)
           | Ok (Some message) \<Rightarrow>
               (Running a, reg\<lparr>gnb_store :=
                  (gnb_store reg)(a \<mapsto> snd (snd (message_task env a message gnb)))\<rparr>)))"
| "conn_step env config recvmsg c reg = (c, reg)"

inductive amf_step ::
  "('r, 'x, 's, 'a, 'io, 'gm, 'um) amf_env \<Rightarrow> ('u, 'x) app_configuration \<Rightarrow>
     ('r, 'x, 's, 'a, 'l, 'gm, 'um) amf_sys \<Rightarrow> ('r, 'x, 's, 'a, 'l, 'gm, 'um) amf_sys \<Rightarrow> bool"
  for env config where
  accept: "amf_step env config s (run_accept env ans s)"
| conn: "amf_conns s = cs @ c # cs' \<Longrightarrow> conn_step env config recvmsg c (amf_registry s) = (c', reg) \<Longrightarrow>
    amf_step env config s (s\<lparr>amf_registry := reg, amf_conns := cs @ c' # cs'\<rparr>)"

inductive_cases amf_stepE: "amf_step env config s t"

inductive amf_steps ::
  "('r, 'x, 's, 'a, 'io, 'gm, 'um) amf_env \<Rightarrow> ('u, 'x) app_configuration \<Rightarrow>
     ('r, 'x, 's, 'a, 'l, 'gm, 'um) amf_sys \<Rightarrow> ('r, 'x, 's, 'a, 'l, 'gm, 'um) amf_sys \<Rightarrow> bool"
  for env config where
  start: "amf_steps env config s s"
| step: "amf_steps env config s t \<Longrightarrow> amf_step env config t u \<Longrightarrow> amf_steps env config s u"

subsection \<open>The registry invariant\<close>

text \<open>Connections whose entry is in the table: those that run and those a read error broke.\<close>

fun live_addr :: "('r, 'x, 's, 'a, 'um) conn \<Rightarrow> nat list" where
  "live_addr (Running a) = [a]"
| "live_addr (Broken a) = [a]"
| "live_addr _ = []"

definition live_addrs :: "('r, 'x, 's, 'a, 'um) conn list \<Rightarrow> nat list" where
  "live_addrs cs = concat (map live_addr cs)"

definition registry_inv ::
  "('gm \<Rightarrow> 'r \<Rightarrow> nat option) \<Rightarrow> ('r, 'x, 's, 'a, 'gm, 'um) gnb_registry \<Rightarrow>
     ('r, 'x, 's, 'a, 'um) conn list \<Rightarrow> bool" where
  "registry_inv entries reg cs \<longleftrightarrow>
     distinct (live_addrs cs) \<and>
     (\<forall>a \<in> set (live_addrs cs). \<exists>gnb. gnb_store reg a = Some gnb \<and>
        entries (gnb_contexts reg) (global_ran_node_id gnb) = Some a) \<and>
     (\<forall>r a. entries (gnb_contexts reg) r = Some a \<longrightarrow> a \<in> set (live_addrs cs) \<and>
        (\<exists>gnb. gnb_store reg a = Some gnb \<and> global_ran_node_id gnb = r)) \<and>
     (\<forall>a. gnb_store reg a \<noteq> None \<longrightarrow> a < next_gnb reg)"

lemma live_addrs_simps [simp]:
  "live_addrs [] = []"
  "live_addrs (c # cs) = live_addr c @ live_addrs cs"
  "live_addrs (cs @ cs') = live_addrs cs @ live_addrs cs'"
  by (simp_all add: live_addrs_def)

lemma live_addrs_iff: "a \<in> set (live_addrs cs) \<longleftrightarrow> Running a \<in> set cs \<or> Broken a \<in> set cs"
proof (induction cs)
  case (Cons c cs)
  then show ?case by (cases c) auto
qed simp

lemma iu_pieces_id:
  "iu_build env gref req gnb = (b, g) \<Longrightarrow>
     global_ran_node_id g = global_ran_node_id gnb \<and> tnla_association g = tnla_association gnb"
  "iu_add env ue gnb = (d, g) \<Longrightarrow>
     global_ran_node_id g = global_ran_node_id gnb \<and> tnla_association g = tnla_association gnb"
  "iu_with env req gnb = (w, g) \<Longrightarrow>
     global_ran_node_id g = global_ran_node_id gnb \<and> tnla_association g = tnla_association gnb"
  by (auto simp: iu_build_def iu_add_def iu_with_def Let_def split: prod.splits)

lemma handle_initial_ue_id:
  assumes "handle_initial_ue env gref req gnb = (r, g)"
  shows "global_ran_node_id g = global_ran_node_id gnb" "tnla_association g = tnla_association gnb"
proof -
  obtain b g1 where b: "iu_build env gref req gnb = (b, g1)" by force
  obtain d g2 where d: "iu_add env (the b) g1 = (d, g2)" by force
  obtain w g3 where w: "iu_with env req g2 = (w, g3)" by force
  have "global_ran_node_id g1 = global_ran_node_id gnb \<and> tnla_association g1 = tnla_association gnb"
    "global_ran_node_id g2 = global_ran_node_id g1 \<and> tnla_association g2 = tnla_association g1"
    "global_ran_node_id g3 = global_ran_node_id g2 \<and> tnla_association g3 = tnla_association g2"
    using b d w by (auto dest: iu_pieces_id)
  with assms b d w
  show "global_ran_node_id g = global_ran_node_id gnb" "tnla_association g = tnla_association gnb"
    by (auto simp: handle_initial_ue_def split: option.splits)
qed

lemma message_task_id [simp]:
  "global_ran_node_id (snd (snd (message_task env gref message gnb))) = global_ran_node_id gnb"
  and message_task_tnla:
  "tnla_association (snd (snd (message_task env gref message gnb))) = tnla_association gnb"
proof -
  have "global_ran_node_id (snd (ngap_route env gref pdu gnb)) = global_ran_node_id gnb"
    "tnla_association (snd (ngap_route env gref pdu gnb)) = tnla_association gnb" for pdu
    using handle_initial_ue_id [OF prod.collapse [symmetric], of env gref _ gnb]
    by (auto simp: ngap_route_def split_beta split: ngap_pdu.splits initiating_message.splits)
  then show "global_ran_node_id (snd (snd (message_task env gref message gnb))) = global_ran_node_id gnb"
    "tnla_association (snd (snd (message_task env gref message gnb))) = tnla_association gnb"
    by (auto simp: message_task_def Let_def split_beta split: result.splits option.splits)
qed


lemma registry_inv_fresh:
  "registry_inv entries reg cs \<Longrightarrow> next_gnb reg \<notin> set (live_addrs cs)"
  unfolding registry_inv_def by fastforce

lemma registry_inv_cong:
  "live_addrs cs = live_addrs cs' \<Longrightarrow> registry_inv entries reg cs \<longleftrightarrow> registry_inv entries reg cs'"
  by (simp add: registry_inv_def)

lemma register_gnb_vacant:
  assumes "scc_hash_map (gnb_ops env) entries"
    and "entries (gnb_contexts reg) (global_ran_node_id gnb) = None"
  shows "\<exists>m. register_gnb env gnb reg = (Some (next_gnb reg), \<lparr>gnb_contexts = m,
      gnb_store = (gnb_store reg)(next_gnb reg \<mapsto> gnb), next_gnb = Suc (next_gnb reg)\<rparr>) \<and>
    entries m = (entries (gnb_contexts reg))(global_ran_node_id gnb \<mapsto> next_gnb reg)"
proof -
  obtain r m where ins: "insert_async (gnb_ops env) (global_ran_node_id gnb) (next_gnb reg)
      (gnb_contexts reg) = (r, m)"
    by force
  then have "r = Ok ()" "entries m = (entries (gnb_contexts reg))(global_ran_node_id gnb \<mapsto> next_gnb reg)"
    using scc_hash_map.insert_vacant [OF assms] scc_hash_map.entries_insert_vacant [OF assms]
    by (metis fst_conv, metis snd_conv)
  with ins show ?thesis
    by (cases reg) (auto simp: register_gnb_def Let_def)
qed

lemma register_gnb_occupied:
  assumes "scc_hash_map (gnb_ops env) entries"
    and "entries (gnb_contexts reg) (global_ran_node_id gnb) = Some b"
  shows "\<exists>m. register_gnb env gnb reg = (None, \<lparr>gnb_contexts = m,
      gnb_store = (gnb_store reg)(next_gnb reg \<mapsto> gnb), next_gnb = Suc (next_gnb reg)\<rparr>) \<and>
    entries m = entries (gnb_contexts reg)"
proof -
  obtain r m where ins: "insert_async (gnb_ops env) (global_ran_node_id gnb) (next_gnb reg)
      (gnb_contexts reg) = (r, m)"
    by force
  then have "r = Err (global_ran_node_id gnb, next_gnb reg)" "entries m = entries (gnb_contexts reg)"
    using scc_hash_map.insert_occupied [OF assms] scc_hash_map.entries_insert_occupied [OF assms]
    by (metis fst_conv, metis snd_conv)
  with ins show ?thesis
    by (cases reg) (auto simp: register_gnb_def Let_def)
qed

lemma registry_inv_register:
  assumes inv: "registry_inv entries reg (cs @ Answered gnb # cs')"
    and vac: "entries (gnb_contexts reg) (global_ran_node_id gnb) = None"
    and m: "entries m = (entries (gnb_contexts reg))(global_ran_node_id gnb \<mapsto> next_gnb reg)"
  shows "registry_inv entries \<lparr>gnb_contexts = m,
      gnb_store = (gnb_store reg)(next_gnb reg \<mapsto> gnb), next_gnb = Suc (next_gnb reg)\<rparr>
    (cs @ Running (next_gnb reg) # cs')"
proof -
  have fresh: "next_gnb reg \<notin> set (live_addrs cs)" "next_gnb reg \<notin> set (live_addrs cs')"
    using registry_inv_fresh [OF inv] by simp_all
  have "\<exists>g. gnb_store reg a = Some g \<and> entries (gnb_contexts reg) (global_ran_node_id g) = Some a \<and>
      global_ran_node_id g \<noteq> global_ran_node_id gnb"
    if "a \<in> set (live_addrs cs) \<union> set (live_addrs cs')" for a
    using that inv vac unfolding registry_inv_def by fastforce
  with inv fresh m show ?thesis
    unfolding registry_inv_def by (auto simp: less_Suc_eq) (metis Un_iff)+
qed

lemma registry_inv_lost:
  assumes inv: "registry_inv entries reg (cs @ Answered gnb # cs')"
    and m: "entries m = entries (gnb_contexts reg)"
  shows "registry_inv entries \<lparr>gnb_contexts = m,
      gnb_store = (gnb_store reg)(next_gnb reg \<mapsto> gnb), next_gnb = Suc (next_gnb reg)\<rparr>
    (cs @ Crashed # cs')"
proof -
  have "next_gnb reg \<notin> set (live_addrs cs)" "next_gnb reg \<notin> set (live_addrs cs')"
    using registry_inv_fresh [OF inv] by simp_all
  with inv m show ?thesis
    unfolding registry_inv_def by (auto simp: less_Suc_eq)
qed

text \<open>Of the contexts the invariant depends on the identifiers only.\<close>

definition gnb_ids :: "('r, 'x, 's, 'a, 'gm, 'um) gnb_registry \<Rightarrow> nat \<Rightarrow> 'r option" where
  "gnb_ids reg a = map_option global_ran_node_id (gnb_store reg a)"

lemma registry_inv_ids:
  "registry_inv entries reg cs \<longleftrightarrow>
     distinct (live_addrs cs) \<and>
     (\<forall>a \<in> set (live_addrs cs). \<exists>r. gnb_ids reg a = Some r \<and> entries (gnb_contexts reg) r = Some a) \<and>
     (\<forall>r a. entries (gnb_contexts reg) r = Some a \<longrightarrow> a \<in> set (live_addrs cs) \<and> gnb_ids reg a = Some r) \<and>
     (\<forall>a. gnb_ids reg a \<noteq> None \<longrightarrow> a < next_gnb reg)"
proof -
  have "(\<exists>gnb. gnb_store reg a = Some gnb \<and> entries (gnb_contexts reg) (global_ran_node_id gnb) = Some a) \<longleftrightarrow>
      (\<exists>r. gnb_ids reg a = Some r \<and> entries (gnb_contexts reg) r = Some a)" for a
    by (auto simp: gnb_ids_def)
  moreover have "(\<exists>gnb. gnb_store reg a = Some gnb \<and> global_ran_node_id gnb = r) \<longleftrightarrow>
      gnb_ids reg a = Some r" for a r
    by (auto simp: gnb_ids_def)
  moreover have "gnb_store reg a = None \<longleftrightarrow> gnb_ids reg a = None" for a
    by (simp add: gnb_ids_def)
  ultimately show ?thesis
    unfolding registry_inv_def by simp
qed

lemma registry_inv_message:
  assumes inv: "registry_inv entries reg cs" and "gnb_store reg a = Some gnb"
    and "global_ran_node_id gnb' = global_ran_node_id gnb"
  shows "registry_inv entries (reg\<lparr>gnb_store := (gnb_store reg)(a \<mapsto> gnb')\<rparr>) cs"
proof -
  have "gnb_ids (reg\<lparr>gnb_store := (gnb_store reg)(a \<mapsto> gnb')\<rparr>) = gnb_ids reg"
    using assms(2,3) by (auto simp: gnb_ids_def fun_eq_iff)
  with inv show ?thesis
    unfolding registry_inv_ids by simp
qed

lemma registry_inv_close:
  assumes scc: "scc_hash_map (gnb_ops env) entries"
    and inv: "registry_inv entries reg (cs @ Running a # cs')" and gnb: "gnb_store reg a = Some gnb"
  shows "registry_inv entries (close_ran_connection env gnb reg) (cs @ Closed a # cs')"
proof -
  have e: "entries (gnb_contexts (close_ran_connection env gnb reg)) =
      (entries (gnb_contexts reg))(global_ran_node_id gnb := None)"
    by (simp add: close_ran_connection_def scc_hash_map.entries_remove [OF scc])
  have a: "entries (gnb_contexts reg) (global_ran_node_id gnb) = Some a"
    and notin: "a \<notin> set (live_addrs cs)" "a \<notin> set (live_addrs cs')"
    using inv gnb unfolding registry_inv_def by auto
  have "\<exists>g. gnb_store reg b = Some g \<and> entries (gnb_contexts reg) (global_ran_node_id g) = Some b \<and>
      global_ran_node_id g \<noteq> global_ran_node_id gnb"
    if "b \<in> set (live_addrs cs) \<union> set (live_addrs cs')" for b
    using that inv a notin unfolding registry_inv_def by fastforce
  then have "\<forall>b \<in> set (live_addrs (cs @ Closed a # cs')). \<exists>g. gnb_store reg b = Some g \<and>
      entries (gnb_contexts (close_ran_connection env gnb reg)) (global_ran_node_id g) = Some b"
    by (fastforce simp: e)
  moreover have "b \<in> set (live_addrs (cs @ Closed a # cs')) \<and>
      (\<exists>g. gnb_store reg b = Some g \<and> global_ran_node_id g = r)"
    if "entries (gnb_contexts (close_ran_connection env gnb reg)) r = Some b" for r b
  proof -
    from that have "r \<noteq> global_ran_node_id gnb" "entries (gnb_contexts reg) r = Some b"
      by (auto simp: e split: if_splits)
    with inv gnb show ?thesis
      unfolding registry_inv_def by fastforce
  qed
  ultimately show ?thesis
    using inv unfolding registry_inv_def by (simp add: close_ran_connection_def)
qed

lemma registry_inv_conn:
  assumes scc: "scc_hash_map (gnb_ops env) entries"
    and inv: "registry_inv entries reg (cs @ c # cs')"
    and step: "conn_step env config recvmsg c reg = (c', reg')"
  shows "registry_inv entries reg' (cs @ c' # cs')"
proof (cases c)
  case (SettingUp tnla k)
  with step have "reg' = reg" and "live_addr c' = live_addr c"
    by (auto split: option.splits result.splits if_splits)
  with inv show ?thesis
    by (simp add: registry_inv_def)
next
  case (Answered gnb)
  show ?thesis
  proof (cases "entries (gnb_contexts reg) (global_ran_node_id gnb)")
    case None
    from register_gnb_vacant [OF scc None] registry_inv_register [OF inv [unfolded Answered] None] step Answered
    show ?thesis by auto
  next
    case (Some b)
    from register_gnb_occupied [OF scc Some] registry_inv_lost [OF inv [unfolded Answered]] step Answered
    show ?thesis by auto
  qed
next
  case (Running a)
  show ?thesis
  proof (cases "gnb_store reg a")
    case (Some gnb)
    show ?thesis
      using step Running Some inv registry_inv_close [OF scc inv [unfolded Running] Some]
        registry_inv_message [OF inv [unfolded Running] Some]
        registry_inv_cong [of "cs @ Running a # cs'" "cs @ Broken a # cs'" entries reg]
      by (auto split: result.splits option.splits)
  qed (use step Running inv in simp)
qed (use step inv in auto)

lemma registry_inv_init:
  assumes "scc_hash_map (gnb_ops env) entries"
  shows "registry_inv entries (amf_registry (ngap_context_new env net)) (amf_conns (ngap_context_new env net))"
  using scc_hash_map.entries_with_capacity [OF assms] by (simp add: registry_inv_def ngap_context_new_def)

lemma registry_inv_accept:
  "registry_inv entries (amf_registry s) (amf_conns s) \<Longrightarrow>
   registry_inv entries (amf_registry (run_accept env ans s)) (amf_conns (run_accept env ans s))"
  by (auto simp: run_accept_def split_beta registry_inv_def split: result.splits)

lemma registry_inv_steps:
  assumes "scc_hash_map (gnb_ops env) entries" and "amf_steps env config s t"
    and "registry_inv entries (amf_registry s) (amf_conns s)"
  shows "registry_inv entries (amf_registry t) (amf_conns t)"
  using assms(2,3)
proof (induction rule: amf_steps.induct)
  case (step s t u)
  from step.hyps(2) step.IH [OF step.prems] show ?case
    by (cases rule: amf_stepE) (auto intro: registry_inv_accept registry_inv_conn [OF assms(1)])
qed

text \<open>An entry of a broken connection stays, and so do the addresses of an association.\<close>

lemma broken_conn_step:
  "conn_step env config recvmsg c reg = (c', reg') \<Longrightarrow> c = Broken a \<Longrightarrow> c' = Broken a"
  by auto

lemma broken_steps:
  assumes "amf_steps env config s t" and "Broken a \<in> set (amf_conns s)"
  shows "Broken a \<in> set (amf_conns t)"
  using assms
proof (induction rule: amf_steps.induct)
  case (step s t u)
  then have "Broken a \<in> set (amf_conns t)"
    by simp
  with step.hyps(2) show ?case
    by (cases rule: amf_stepE) (auto simp: run_accept_def split_beta)
qed


lemma association_steps:
  assumes "amf_steps env config s t" and "p \<in> associations_set (net_associations (amf_network s))"
  shows "p \<in> associations_set (net_associations (amf_network t))"
  using assms
proof (induction rule: amf_steps.induct)
  case (step s t u)
  then have old: "p \<in> associations_set (net_associations (amf_network t))"
    by simp
  from step.hyps(2) show ?case
  proof cases
    case (accept ans)
    show ?thesis
    proof (cases ans)
      case (Ok sa)
      show ?thesis
        by (cases rule: add_tnla_association_cases
            [of "sctp_lib env" "fst sa" "amf_counter t" "net_associations (amf_network t)"])
          (use accept Ok old in \<open>auto simp: run_accept_def accept_and_create_tnla_def split_beta\<close>)
    qed (use accept old in \<open>simp add: run_accept_def accept_and_create_tnla_def\<close>)
  qed (use old in simp)
qed

subsection \<open>What a successful setup has done\<close>

lemma encode_and_write_wire:
  "snd (encode_and_write_ngap_pdu env tnla pdu) = [] \<or>
   (\<exists>bytes opts. snd (encode_and_write_ngap_pdu env tnla pdu) = [(stream tnla, bytes, opts)] \<and>
     ppid opts = 60)"
  by (auto simp: encode_and_write_ngap_pdu_def write_data_def NGAP_PPID_def Let_def split: result.splits)

lemma encode_and_write_Ok:
  assumes "encode_and_write_ngap_pdu env tnla pdu = (Ok u, wire)"
  obtains bytes opts where "codec_to_bytes (ngap env) pdu = Ok bytes"
    "is_ok (sendmsg (sctp_lib env) (stream tnla) bytes opts)" "wire = [(stream tnla, bytes, opts)]"
proof -
  from assms obtain bytes where "codec_to_bytes (ngap env) pdu = Ok bytes"
    by (auto simp: encode_and_write_ngap_pdu_def split: result.splits)
  with assms show thesis
    using that [of bytes "(default_options (sctp_lib env))\<lparr>ppid := NGAP_PPID\<rparr>"]
    by (auto simp: encode_and_write_ngap_pdu_def write_data_def Let_def and_then_eq_Ok)
qed

text \<open>
  What is on the wire when one PDU was passed to the socket of a connection: its octets, with the
  NGAP payload identifier, or nothing when the PDU cannot be encoded; and whether it was taken.
\<close>

definition ngap_send_options :: "('r, 'x, 's, 'a, 'io, 'gm, 'um) amf_env \<Rightarrow> send_options" where
  "ngap_send_options env = (default_options (sctp_lib env))\<lparr>ppid := 60\<rparr>"

definition pdu_wire ::
  "('r, 'x, 's, 'a, 'io, 'gm, 'um) amf_env \<Rightarrow> ('s, 'a) tnla_association \<Rightarrow> ('r, 'x) ngap_pdu \<Rightarrow> 's wire" where
  "pdu_wire env tnla pdu = (case codec_to_bytes (ngap env) pdu of
     Ok bytes \<Rightarrow> [(stream tnla, bytes, ngap_send_options env)] | Err _ \<Rightarrow> [])"

definition pdu_taken ::
  "('r, 'x, 's, 'a, 'io, 'gm, 'um) amf_env \<Rightarrow> ('s, 'a) tnla_association \<Rightarrow> ('r, 'x) ngap_pdu \<Rightarrow> bool" where
  "pdu_taken env tnla pdu \<longleftrightarrow> (\<exists>bytes. codec_to_bytes (ngap env) pdu = Ok bytes \<and>
     is_ok (sendmsg (sctp_lib env) (stream tnla) bytes (ngap_send_options env)))"

lemma encode_and_write_outcome:
  "snd (encode_and_write_ngap_pdu env tnla pdu) = pdu_wire env tnla pdu"
  "is_ok (fst (encode_and_write_ngap_pdu env tnla pdu)) \<longleftrightarrow> pdu_taken env tnla pdu"
proof -
  have options: "(default_options (sctp_lib env))\<lparr>ppid := NGAP_PPID\<rparr> = ngap_send_options env"
    by (simp add: ngap_send_options_def NGAP_PPID_def)
  have "is_ok (map_err f (and_then (map_err g r) (\<lambda>_. Ok ()))) \<longleftrightarrow> is_ok r" for f g and r :: "('p, 'q) result"
    by (cases r) simp_all
  then show "snd (encode_and_write_ngap_pdu env tnla pdu) = pdu_wire env tnla pdu"
    and "is_ok (fst (encode_and_write_ngap_pdu env tnla pdu)) \<longleftrightarrow> pdu_taken env tnla pdu"
    by (auto simp: encode_and_write_ngap_pdu_def write_data_def Let_def pdu_wire_def pdu_taken_def options
        split: result.splits)
qed

text \<open>The error indication for octets that are no PDU.\<close>

definition falsely_constructed ::
  "('r, 'x) ngap_models \<Rightarrow> bytes \<Rightarrow> 'x three_gpp_asn1_per_error \<Rightarrow> 'x error_indication" where
  "falsely_constructed ng octets e = \<lparr>ei_amf_ue_ngap_id = None, ei_ran_ue_ngap_id = None,
     ei_cause = Some (CauseProtocol AbstractSyntaxErrorFalselyConstructedMessage),
     ei_criticality_diagnostics = Some \<lparr>
       diag_procedure_code = fst (snd (get_message_info ng octets)),
       triggering_message = fst (get_message_info ng octets),
       procedure_criticality = snd (snd (get_message_info ng octets)),
       i_es_criticality_diagnostics = convert_diagnostics_to_ie ng (diagnostics e)\<rparr>\<rparr>"

lemma decode_ngap_pdu_eq:
  "decode_ngap_pdu ng octets = (case from_bytes ng octets of
     Ok pdu \<Rightarrow> Ok pdu
   | Err e \<Rightarrow> Err (error_indication_to_pdu ng (falsely_constructed ng octets e), codec_error e))"
  unfolding decode_ngap_pdu_outcome falsely_constructed_def ..

lemma handle_ng_setup_accepted:
  assumes "scc_hash_map (gnb_ops env) entries"
    and "handle_ng_setup env config gnbs req st = (Some (Ok resp), gnb)"
  shows "entries gnbs (req_global_ran_node_id req) = None \<and>
    global_ran_node_id gnb = req_global_ran_node_id req \<and> tnla_association gnb = tnla_association st"
  using assms(2)
  by (auto simp: handle_ng_setup_def scc_hash_map.contains_iff [OF assms(1)] Let_def bind_eq_Some_conv
      split: if_splits result.splits)

lemma setup_answer_success:
  assumes "setup_answer env config gnbs buf st = Some (Ok gnb, pdu)"
  obtains req resp where "from_bytes (ngap env) buf = Ok (InitiatingMessage (NgSetupRequest req))"
    "handle_ng_setup env config gnbs req st = (Some (Ok resp), gnb)"
    "pdu = ng_setup_response_to_pdu (ngap env) resp"
proof -
  from assms obtain req where dec: "decode_ngap_pdu (ngap env) buf = Ok (InitiatingMessage (NgSetupRequest req))"
    by (auto simp: setup_answer_def split: result.splits prod.splits ngap_pdu.splits initiating_message.splits)
  then have "from_bytes (ngap env) buf = Ok (InitiatingMessage (NgSetupRequest req))"
    by (auto simp: decode_ngap_pdu_def split: result.splits prod.splits)
  moreover from dec assms obtain resp where "handle_ng_setup env config gnbs req st = (Some (Ok resp), gnb)"
      "pdu = ng_setup_response_to_pdu (ngap env) resp"
    by (auto simp: setup_answer_def split: result.splits prod.splits option.splits)
  ultimately show thesis by (rule that)
qed

lemma try_ng_setup_success:
  assumes "try_ng_setup env config gnbs recvmsg tnla = (Some (Ok gnb), wire)"
  obtains n buf pdu where "recvmsg = Ok (n, buf)" "n \<noteq> 0"
    "setup_answer env config gnbs buf (gnb_context_new env tnla) = Some (Ok gnb, pdu)"
    "encode_and_write_ngap_pdu env tnla pdu = (Ok (), wire)"
proof -
  from assms obtain buf where rd: "read_data recvmsg = Ok (Some buf)"
    by (auto simp: try_ng_setup_def Let_def split: result.splits option.splits)
  then obtain n where "recvmsg = Ok (n, buf)" "n \<noteq> 0"
    by (auto simp: read_data_def and_then_eq_Ok split: if_splits)
  moreover from assms rd obtain res pdu where
    ans: "setup_answer env config gnbs buf (gnb_context_new env tnla) = Some (res, pdu)"
    by (auto simp: try_ng_setup_def split: option.splits)
  moreover from assms rd ans have "encode_and_write_ngap_pdu env tnla pdu = (Ok (), wire)" "res = Ok gnb"
    by (auto simp: try_ng_setup_def split: prod.splits result.splits)
  ultimately show thesis
    using that by simp
qed

lemma handle_ng_setup_failure:
  assumes "handle_ng_setup env config gnbs req st = (Some (Err e), gnb)"
  obtains f where "resp_failure e = Failure f"
  using assms
  by (auto simp: handle_ng_setup_def new_failure_error_def Let_def bind_eq_Some_conv
      split: if_splits result.splits)

text \<open>The answer and the result of an attempt whose octets were read.\<close>

lemma setup_answer_cases:
  assumes "scc_hash_map (gnb_ops env) entries"
    and "setup_answer env config gnbs octets (gnb_context_new env tnla) = Some (out, answer)"
  shows "case from_bytes (ngap env) octets of
     Ok (InitiatingMessage (NgSetupRequest req)) \<Rightarrow>
       (case handle_ng_setup env config gnbs req (gnb_context_new env tnla) of
          (Some (Ok resp), gnb) \<Rightarrow> answer = ng_setup_response_to_pdu (ngap env) resp \<and> out = Ok gnb \<and>
            entries gnbs (req_global_ran_node_id req) = None \<and>
            global_ran_node_id gnb = req_global_ran_node_id req \<and> tnla_association gnb = tnla
        | (Some (Err e), gnb) \<Rightarrow> (\<exists>f. resp_failure e = Failure f \<and>
            answer = ng_setup_failure_to_pdu (ngap env) f \<and> out = Err (NgSetupError (resp_error e)))
        | (None, gnb) \<Rightarrow> False)
   | Ok pdu \<Rightarrow> answer = error_indication_to_pdu (ngap env) \<lparr>ei_amf_ue_ngap_id = None,
         ei_ran_ue_ngap_id = None, ei_cause = Some (CauseProtocol MessageNotCompatibleWithReceiverState),
         ei_criticality_diagnostics = None\<rparr> \<and> out = Err (DidNotReceiveNgSetup pdu)
   | Err e \<Rightarrow> answer = error_indication_to_pdu (ngap env) (falsely_constructed (ngap env) octets e) \<and>
       out = Err (PerCodecEncodingError (codec_error e))"
proof (cases "\<exists>req. from_bytes (ngap env) octets = Ok (InitiatingMessage (NgSetupRequest req))")
  case True
  then obtain req where dec: "from_bytes (ngap env) octets = Ok (InitiatingMessage (NgSetupRequest req))"
    by blast
  obtain h gnb where handled: "handle_ng_setup env config gnbs req (gnb_context_new env tnla) = (h, gnb)"
    by force
  from assms(2) dec handled obtain r where h: "h = Some r"
    by (auto simp: setup_answer_def decode_ngap_pdu_eq split: option.splits)
  show ?thesis
  proof (cases r)
    case (Ok resp)
    with handle_ng_setup_accepted [OF assms(1), of config gnbs req "gnb_context_new env tnla" resp gnb]
      assms(2) dec handled h show ?thesis
      by (auto simp: setup_answer_def decode_ngap_pdu_eq gnb_context_new_def)
  next
    case (Err e)
    from handle_ng_setup_failure [OF handled [unfolded h Err]] obtain f where "resp_failure e = Failure f" .
    with assms(2) dec handled h Err show ?thesis
      by (simp add: setup_answer_def decode_ngap_pdu_eq)
  qed
next
  case False
  with assms(2) show ?thesis
    by (auto simp: setup_answer_def decode_ngap_pdu_eq error_indication_default_def
        split: result.splits ngap_pdu.splits initiating_message.splits)
qed

text \<open>A connection that is about to be registered has answered its peer in an earlier state.\<close>

definition told ::
  "('r, 'x, 's, 'a, 'io, 'gm, 'um) amf_env \<Rightarrow> ('u, 'x) app_configuration \<Rightarrow> ('l, 's, 'a) network \<Rightarrow>
     ('r, 'x, 's, 'a, 'um) gnb_context \<Rightarrow> ('r, 'x, 's, 'a, 'l, 'gm, 'um) amf_sys \<Rightarrow> bool" where
  "told env config net gnb s \<longleftrightarrow>
     (\<exists>s0 k octets resp. amf_steps env config (ngap_context_new env net) s0 \<and> amf_steps env config s0 s \<and>
        SettingUp (tnla_association gnb) k \<in> set (amf_conns s0) \<and>
        try_ng_setup env config (gnb_contexts (amf_registry s0)) octets (tnla_association gnb) =
          (Some (Ok gnb), pdu_wire env (tnla_association gnb) (ng_setup_response_to_pdu (ngap env) resp)) \<and>
        pdu_taken env (tnla_association gnb) (ng_setup_response_to_pdu (ngap env) resp))"

lemma told_step:
  "told env config net gnb s \<Longrightarrow> amf_step env config s t \<Longrightarrow> told env config net gnb t"
  unfolding told_def by (meson amf_steps.step)

lemma answered_step:
  assumes "conn_step env config recvmsg c reg = (Answered gnb, reg')" and "c \<noteq> Answered gnb"
  obtains tnla k wire where "c = SettingUp tnla k"
    "try_ng_setup env config (gnb_contexts reg) recvmsg tnla = (Some (Ok gnb), wire)"
proof (cases c)
  case (SettingUp tnla k)
  with assms(1) obtain wire where "try_ng_setup env config (gnb_contexts reg) recvmsg tnla = (Some (Ok gnb), wire)"
    by (cases "try_ng_setup env config (gnb_contexts reg) recvmsg tnla")
      (auto split: option.splits result.splits if_splits)
  with SettingUp that show thesis by blast
next
  case (Running a)
  with assms show thesis
    by (auto split: option.splits result.splits)
qed (use assms in \<open>auto split: option.splits prod.splits\<close>)

lemma setup_told:
  assumes "scc_hash_map (gnb_ops env) entries" and "amf_steps env config (ngap_context_new env net) s"
    and "SettingUp tnla k \<in> set (amf_conns s)"
    and "try_ng_setup env config (gnb_contexts (amf_registry s)) recvmsg tnla = (Some (Ok gnb), wire)"
  shows "told env config net gnb s"
proof -
  obtain n buf pdu where
    ans: "setup_answer env config (gnb_contexts (amf_registry s)) buf (gnb_context_new env tnla) = Some (Ok gnb, pdu)"
    and enc: "encode_and_write_ngap_pdu env tnla pdu = (Ok (), wire)"
    by (rule try_ng_setup_success [OF assms(4)])
  from ans obtain req resp where handled: "handle_ng_setup env config (gnb_contexts (amf_registry s)) req
      (gnb_context_new env tnla) = (Some (Ok resp), gnb)" and pdu: "pdu = ng_setup_response_to_pdu (ngap env) resp"
    by (rule setup_answer_success)
  from handle_ng_setup_accepted [OF assms(1) handled] have tnla: "tnla_association gnb = tnla"
    by (simp add: gnb_context_new_def)
  from encode_and_write_outcome [of env tnla pdu] enc have "wire = pdu_wire env tnla pdu" "pdu_taken env tnla pdu"
    by simp_all
  with assms(2-4) tnla pdu show ?thesis
    unfolding told_def by (metis amf_steps.start)
qed

lemma answered_told:
  assumes "scc_hash_map (gnb_ops env) entries" and "amf_steps env config (ngap_context_new env net) s"
    and "Answered gnb \<in> set (amf_conns s)"
  shows "told env config net gnb s"
  using assms(2,3)
proof (induction "ngap_context_new env net" s arbitrary: gnb rule: amf_steps.induct)
  case start
  then show ?case by (simp add: ngap_context_new_def)
next
  case (step t u)
  from step.hyps(3) show ?case
  proof cases
    case (accept ans)
    with step.prems have "Answered gnb \<in> set (amf_conns t)"
      by (auto simp: run_accept_def split_beta split: result.splits)
    with step.hyps(2) told_step [OF _ step.hyps(3)] show ?thesis by blast
  next
    case (conn cs c cs' recvmsg c' reg)
    show ?thesis
    proof (cases "Answered gnb \<in> set (amf_conns t)")
      case True
      with step.hyps(2) told_step [OF _ step.hyps(3)] show ?thesis by blast
    next
      case False
      with conn step.prems have "c' = Answered gnb" "c \<noteq> Answered gnb"
        by auto
      with conn obtain tnla k wire where "c = SettingUp tnla k"
        "try_ng_setup env config (gnb_contexts (amf_registry t)) recvmsg tnla = (Some (Ok gnb), wire)"
        by (auto elim: answered_step)
      with conn setup_told [OF assms(1) step.hyps(1), of tnla k recvmsg gnb wire] have "told env config net gnb t"
        by simp
      with told_step [OF _ step.hyps(3)] show ?thesis by blast
    qed
  qed
qed

text \<open>The outcome of attempt \<open>k\<close>.\<close>

definition setup_attempt ::
  "('r, 'x, 's, 'a, 'io, 'gm, 'um) amf_env \<Rightarrow> ('u, 'x) app_configuration \<Rightarrow>
     ('s, 'a) tnla_association \<Rightarrow> (nat \<Rightarrow> (nat \<times> bytes, 'io) result \<times> 'gm) \<Rightarrow> nat \<Rightarrow>
     (('r, 'x, 's, 'a, 'um) gnb_context, ('r, 'x, 'a, 'io) ngap_setup_error) result option" where
  "setup_attempt env config tnla inputs k =
     fst (try_ng_setup env config (snd (inputs k)) (fst (inputs k)) tnla)"

lemma handle_initial_ue_failure:
  assumes "fst (handle_initial_ue env gref req gnb) = Some r"
  shows "\<forall>e. r = Err e \<longrightarrow> (\<exists>f. resp_failure e = Failure f)"
proof -
  have check: "iu_check env req gnb = Some (Err e) \<Longrightarrow> resp_failure e = Failure EmptyResponse" for e
    by (auto simp: iu_check_def new_empty_failure_error_def new_failure_error_def split: if_splits)
  have add: "resp_failure e = Failure EmptyResponse"
    if "iu_add env ue g = (Some (Some (Err e)), g')" for ue g g' e
  proof -
    obtain r m where *: "add_context (ue_ops env) ue_id ue (ue_context_manager g) = (r, m)"
      by force
    with that obtain x where "r = Some x"
      by (auto simp: iu_add_def bind_eq_Some_conv)
    with that * obtain i ue' where "r = Some (Err (ContextAlreadyExists i ue'))"
      by (cases x; cases "case x of Err c \<Rightarrow> c") (auto simp: iu_add_def)
    with that * show ?thesis
      by (auto simp: iu_add_def new_empty_failure_error_def new_failure_error_def)
  qed
  have w: "resp_failure e = Failure EmptyResponse" if "fst (iu_with env req g) = Some (Err e)" for g e
  proof -
    obtain r m where *: "with_context (ue_ops env) (iu_ran_ue_ngap_id req)
        (\<lambda>ue. (handle_nas (iu_nas_pdu req) ue, Some ())) (ue_context_manager g) = (r, m)"
      by force
    with that obtain x where "r = Some x"
      by (auto simp: iu_with_def)
    with that * show ?thesis
      by (cases x) (auto simp: iu_with_def new_empty_failure_error_def new_failure_error_def)
  qed
  show ?thesis
    using assms by (auto simp: handle_initial_ue_def split: option.splits prod.splits dest: check add w)
qed

lemma empty_failures_silent:
  assumes "\<forall>e. r = Err e \<longrightarrow> (\<exists>f. resp_failure e = Failure f)"
  shows "log_and_convert_to_pdu ng empty_response_to_pdu empty_response_to_pdu r = None"
proof -
  have "empty_response_to_pdu er = None" for er
    by (cases er) simp
  with assms show ?thesis
    by (cases r) auto
qed

subsection \<open>Properties\<close>

text \<open>
  C2: the table of gNB contexts.  In every state the AMF can reach, and for every interleaving
  of its connections, the table has an entry for a RAN node exactly when a connection of that
  node runs its message loop or was broken by a read error, the entry leads to the context of
  that connection, and no RAN node has two such connections.
\<close>

theorem gnb_registry_exact:
  assumes "scc_hash_map (gnb_ops env) entries"
    and "amf_steps env config (ngap_context_new env net) s"
  shows "(entries (gnb_contexts (amf_registry s)) r = Some a \<longleftrightarrow>
       (Running a \<in> set (amf_conns s) \<or> Broken a \<in> set (amf_conns s)) \<and>
       (\<exists>gnb. gnb_store (amf_registry s) a = Some gnb \<and> global_ran_node_id gnb = r)) \<and>
    distinct (live_addrs (amf_conns s))"
proof -
  have inv: "registry_inv entries (amf_registry s) (amf_conns s)"
    by (rule registry_inv_steps [OF assms registry_inv_init [OF assms(1)]])
  then show ?thesis
    unfolding live_addrs_iff [symmetric] registry_inv_def by fastforce
qed

text \<open>
  C29: a broken connection blocks its RAN node.  Once the message loop of a node has ended with
  a read error, its entry is never removed: in every later state an NG Setup of the same node
  is refused as a conflict.
\<close>

theorem broken_connection_blocks_node:
  assumes "scc_hash_map (gnb_ops env) entries"
    and "amf_steps env config (ngap_context_new env net) s" and "amf_steps env config s t"
    and "Broken a \<in> set (amf_conns s)" and "gnb_store (amf_registry t) a = Some gnb"
    and "req_global_ran_node_id request = global_ran_node_id gnb"
  shows "fst (handle_ng_setup env config' (gnb_contexts (amf_registry t)) request state) =
    Some (Err (new_failure_error (build_failure new_semantic_error_cause)
      (ConflictingRanId (global_ran_node_id gnb))))"
proof -
  have "registry_inv entries (amf_registry t) (amf_conns t)"
    by (rule registry_inv_steps [OF assms(1,3) registry_inv_steps [OF assms(1,2) registry_inv_init [OF assms(1)]]])
  moreover have "a \<in> set (live_addrs (amf_conns t))"
    using broken_steps [OF assms(3,4)] by (force simp: live_addrs_def)
  ultimately have "entries (gnb_contexts (amf_registry t)) (global_ran_node_id gnb) = Some a"
    using assms(5) unfolding registry_inv_def by fastforce
  with assms(6) show ?thesis
    by (simp add: handle_ng_setup_def scc_hash_map.contains_iff [OF assms(1)])
qed

text \<open>
  C30: addresses are never given back.  No step of the AMF removes an association: once a
  connection between two addresses was accepted, every later connection between them is
  refused, also after the first one was closed by the peer.
\<close>

theorem association_never_released:
  assumes "amf_steps env config s t"
    and "(l, r) \<in> associations_set (net_associations (amf_network s))"
    and "stream_local_addr (sctp_lib env) strm = Ok l" and "stream_peer_addr (sctp_lib env) strm = Ok r"
  shows "fst (accept_and_create_tnla (sctp_lib env) (Ok (strm, addr)) (amf_counter t) (amf_network t)) =
      Err (AssociationAlreadyExists l r) \<and>
    amf_conns (run_accept env (Ok (strm, addr)) t) = amf_conns t"
proof -
  have "(l, r) \<in> associations_set (net_associations (amf_network t))"
    by (rule association_steps [OF assms(1,2)])
  then show ?thesis
    using assms(3,4)
    by (simp add: run_accept_def accept_and_create_tnla_def add_tnla_association_def tnla_new_def
        increment_def)
qed

text \<open>
  C28: the race of two setups of one RAN node.  Whenever a connection comes to its registration,
  its peer was told in an earlier state of the same run that the setup succeeded.  If another connection of the same
  node runs by then, or was broken by a read error, the task dies in the \<open>unwrap\<close> of the
  insertion and the table stays as it was; otherwise the connection is entered and runs.
\<close>

theorem setup_race_crashes:
  assumes "scc_hash_map (gnb_ops env) entries"
    and "amf_steps env config (ngap_context_new env net) s"
    and "amf_conns s = cs @ Answered gnb # cs'"
    and "conn_step env config recvmsg (Answered gnb) (amf_registry s) = (c, reg)"
  shows "(\<exists>s0 k octets resp. amf_steps env config (ngap_context_new env net) s0 \<and> amf_steps env config s0 s \<and>
      SettingUp (tnla_association gnb) k \<in> set (amf_conns s0) \<and>
      try_ng_setup env config (gnb_contexts (amf_registry s0)) octets (tnla_association gnb) =
        (Some (Ok gnb), pdu_wire env (tnla_association gnb) (ng_setup_response_to_pdu (ngap env) resp)) \<and>
      pdu_taken env (tnla_association gnb) (ng_setup_response_to_pdu (ngap env) resp)) \<and>
    (if \<exists>a g. (Running a \<in> set (amf_conns s) \<or> Broken a \<in> set (amf_conns s)) \<and>
        gnb_store (amf_registry s) a = Some g \<and> global_ran_node_id g = global_ran_node_id gnb
     then c = Crashed \<and> entries (gnb_contexts reg) = entries (gnb_contexts (amf_registry s))
     else c = Running (next_gnb (amf_registry s)) \<and> gnb_store reg (next_gnb (amf_registry s)) = Some gnb \<and>
       entries (gnb_contexts reg) = (entries (gnb_contexts (amf_registry s)))
         (global_ran_node_id gnb \<mapsto> next_gnb (amf_registry s)))"
proof
  from answered_told [OF assms(1,2)] assms(3)
  show "\<exists>s0 k octets resp. amf_steps env config (ngap_context_new env net) s0 \<and> amf_steps env config s0 s \<and>
      SettingUp (tnla_association gnb) k \<in> set (amf_conns s0) \<and>
      try_ng_setup env config (gnb_contexts (amf_registry s0)) octets (tnla_association gnb) =
        (Some (Ok gnb), pdu_wire env (tnla_association gnb) (ng_setup_response_to_pdu (ngap env) resp)) \<and>
      pdu_taken env (tnla_association gnb) (ng_setup_response_to_pdu (ngap env) resp)"
    by (simp add: told_def)
  let ?tab = "entries (gnb_contexts (amf_registry s))"
  have inv: "registry_inv entries (amf_registry s) (amf_conns s)"
    by (rule registry_inv_steps [OF assms(1,2) registry_inv_init [OF assms(1)]])
  show "if \<exists>a g. (Running a \<in> set (amf_conns s) \<or> Broken a \<in> set (amf_conns s)) \<and>
        gnb_store (amf_registry s) a = Some g \<and> global_ran_node_id g = global_ran_node_id gnb
     then c = Crashed \<and> entries (gnb_contexts reg) = ?tab
     else c = Running (next_gnb (amf_registry s)) \<and> gnb_store reg (next_gnb (amf_registry s)) = Some gnb \<and>
       entries (gnb_contexts reg) = ?tab(global_ran_node_id gnb \<mapsto> next_gnb (amf_registry s))"
  proof (cases "?tab (global_ran_node_id gnb)")
    case None
    with inv have "\<not> (\<exists>a g. a \<in> set (live_addrs (amf_conns s)) \<and>
        gnb_store (amf_registry s) a = Some g \<and> global_ran_node_id g = global_ran_node_id gnb)"
      unfolding registry_inv_def by fastforce
    with register_gnb_vacant [OF assms(1) None] assms(4) show ?thesis
      by (auto simp: live_addrs_iff)
  next
    case (Some a)
    with inv have "\<exists>a g. a \<in> set (live_addrs (amf_conns s)) \<and>
        gnb_store (amf_registry s) a = Some g \<and> global_ran_node_id g = global_ran_node_id gnb"
      unfolding registry_inv_def by fastforce
    with register_gnb_occupied [OF assms(1) Some] assms(4) show ?thesis
      by (auto simp: live_addrs_iff)
  qed
qed

text \<open>
  C19: an attempt at NG Setup.  Without octets to read the attempt fails and sends nothing.
  Otherwise it passes exactly one PDU to the socket of its own connection, with the NGAP payload
  identifier, unless that PDU cannot be encoded: a falsely constructed message and a PDU that is
  no NG Setup request are answered with an error indication that says so, a refused request with
  the failure of the handler, an accepted one with its response.  The attempt succeeds exactly
  when the request was accepted and its response taken by the socket, the context then being that
  of the request, of a node that was not in the table; an answer that could not be sent fails
  with the write error, and every other failure names its reason.
\<close>

theorem try_ng_setup_outcome:
  assumes "scc_hash_map (gnb_ops env) entries"
    and "try_ng_setup env config gnbs recvmsg tnla = (Some res, wire)"
  shows "case read_data recvmsg of
     Ok (Some octets) \<Rightarrow> (\<exists>answer. wire = pdu_wire env tnla answer \<and>
       (pdu_taken env tnla answer \<or> (\<exists>e. res = Err (SetupWriteError e))) \<and>
       (case from_bytes (ngap env) octets of
          Ok (InitiatingMessage (NgSetupRequest req)) \<Rightarrow>
            (case handle_ng_setup env config gnbs req (gnb_context_new env tnla) of
               (Some (Ok resp), gnb) \<Rightarrow> answer = ng_setup_response_to_pdu (ngap env) resp \<and>
                 entries gnbs (req_global_ran_node_id req) = None \<and>
                 global_ran_node_id gnb = req_global_ran_node_id req \<and> tnla_association gnb = tnla \<and>
                 (pdu_taken env tnla answer \<longrightarrow> res = Ok gnb)
             | (Some (Err e), gnb) \<Rightarrow> (\<exists>f. resp_failure e = Failure f \<and>
                 answer = ng_setup_failure_to_pdu (ngap env) f \<and>
                 (pdu_taken env tnla answer \<longrightarrow> res = Err (NgSetupError (resp_error e))))
             | (None, gnb) \<Rightarrow> False)
        | Ok pdu \<Rightarrow> answer = error_indication_to_pdu (ngap env) \<lparr>ei_amf_ue_ngap_id = None,
              ei_ran_ue_ngap_id = None, ei_cause = Some (CauseProtocol MessageNotCompatibleWithReceiverState),
              ei_criticality_diagnostics = None\<rparr> \<and>
            (pdu_taken env tnla answer \<longrightarrow> res = Err (DidNotReceiveNgSetup pdu))
        | Err e \<Rightarrow> answer = error_indication_to_pdu (ngap env) (falsely_constructed (ngap env) octets e) \<and>
            (pdu_taken env tnla answer \<longrightarrow> res = Err (PerCodecEncodingError (codec_error e)))))
   | _ \<Rightarrow> wire = [] \<and> (\<forall>gnb. res \<noteq> Ok gnb)"
proof (cases "\<exists>octets. read_data recvmsg = Ok (Some octets)")
  case True
  then obtain octets where read: "read_data recvmsg = Ok (Some octets)"
    by blast
  then obtain out answer where ans: "setup_answer env config gnbs octets (gnb_context_new env tnla) = Some (out, answer)"
    using assms(2) by (auto simp: try_ng_setup_def Let_def split: option.splits)
  obtain r w where enc: "encode_and_write_ngap_pdu env tnla answer = (r, w)"
    by force
  with encode_and_write_outcome [of env tnla answer]
  have sent: "w = pdu_wire env tnla answer" "is_ok r \<longleftrightarrow> pdu_taken env tnla answer"
    by simp_all
  from assms(2) read ans enc have res: "wire = w" "res = (case r of Ok _ \<Rightarrow> out | Err e \<Rightarrow> Err (SetupWriteError e))"
    by (simp_all add: try_ng_setup_def Let_def split: result.splits)
  note cases = setup_answer_cases [OF assms(1) ans]
  show ?thesis
  proof (cases r)
    case (Ok u)
    with res sent have "wire = pdu_wire env tnla answer" "pdu_taken env tnla answer" "res = out"
      by simp_all
    with cases show ?thesis
      unfolding read result.case option.case
      by (intro exI [where x = answer])
        (auto split: result.splits ngap_pdu.splits initiating_message.splits prod.splits option.splits)
  next
    case (Err e)
    with res sent have "wire = pdu_wire env tnla answer" "\<not> pdu_taken env tnla answer" "res = Err (SetupWriteError e)"
      by simp_all
    with cases show ?thesis
      unfolding read result.case option.case
      by (intro exI [where x = answer])
        (auto split: result.splits ngap_pdu.splits initiating_message.splits prod.splits option.splits)
  qed
next
  case False
  with assms(2) show ?thesis
    by (auto simp: try_ng_setup_def Let_def split: result.splits option.splits)
qed


text \<open>
  C20: retries.  The loop makes at most three attempts: it returns the context of the first
  attempt that succeeds when all before it failed, gives up exactly when all three fail, and
  ends with a panic only if an attempt panics.
\<close>

theorem setup_retries_outcome:
  "case try_ng_setup_with_retries env config tnla inputs of
     Some (Some gnb) \<Rightarrow> (\<exists>k \<in> {1..3}.
        setup_attempt env config tnla inputs k = Some (Ok gnb) \<and>
        (\<forall>j \<in> {1..<k}. \<exists>e. setup_attempt env config tnla inputs j = Some (Err e)))
   | Some None \<Rightarrow> (\<forall>j \<in> {1..3}. \<exists>e. setup_attempt env config tnla inputs j = Some (Err e))
   | None \<Rightarrow> (\<exists>k \<in> {1..3}. setup_attempt env config tnla inputs k = None)"
proof -
  note unroll = retry_loop.simps [of env config tnla inputs, folded setup_attempt_def]
  have "retry_loop env config tnla inputs k =
      (case setup_attempt env config tnla inputs k of
         None \<Rightarrow> None
       | Some (Ok ctx) \<Rightarrow> Some (Some ctx)
       | Some (Err e) \<Rightarrow> retry_loop env config tnla inputs (Suc k))" if "k \<le> 3" for k
    using that by (subst unroll) (auto simp: INITIALIZATION_RETRIES_def)
  note step = this
  have sucs: "Suc 1 = 2" "Suc 2 = 3" "Suc 3 = 4" and le: "1 \<le> (3 :: nat)" "2 \<le> (3 :: nat)" "3 \<le> (3 :: nat)"
    by simp_all
  have last: "retry_loop env config tnla inputs 4 = Some None"
    by (subst unroll) (simp add: INITIALIZATION_RETRIES_def)
  have loop: "retry_loop env config tnla inputs 1 =
      (case setup_attempt env config tnla inputs 1 of
         None \<Rightarrow> None
       | Some (Ok ctx) \<Rightarrow> Some (Some ctx)
       | Some (Err e) \<Rightarrow>
      (case setup_attempt env config tnla inputs 2 of
         None \<Rightarrow> None
       | Some (Ok ctx) \<Rightarrow> Some (Some ctx)
       | Some (Err e) \<Rightarrow>
      (case setup_attempt env config tnla inputs 3 of
         None \<Rightarrow> None
       | Some (Ok ctx) \<Rightarrow> Some (Some ctx)
       | Some (Err e) \<Rightarrow> Some None)))"
    unfolding step [OF le(1), unfolded sucs] step [OF le(2), unfolded sucs]
      step [OF le(3), unfolded sucs] last ..
  have ivl: "{1..3} = {1, 2, 3 :: nat}" "{1..<1} = ({} :: nat set)" "{1..<2} = {1 :: nat}"
      "{1..<3} = {1, 2 :: nat}"
    by auto
  show ?thesis
    unfolding try_ng_setup_with_retries_def loop ivl
    by (simp add: ivl del: One_nat_def split: option.splits result.splits)
qed

text \<open>
  The message loop.  It spawns one task per message, in the order of arrival and for every
  message up to the first read that fails or finds the stream closed; it returns normally
  exactly when the stream was closed, with an error that names the connection exactly when a
  read failed, and waits otherwise.
\<close>

theorem run_ngap_loop_outcome:
  "case run_ngap_loop tnla reads of
     (Pending, spawned) \<Rightarrow> map (\<lambda>r. read_data r) reads = map (Ok \<circ> Some) spawned
   | (Ready (Ok _), spawned) \<Rightarrow> (\<exists>rest. map (\<lambda>r. read_data r) reads =
       map (Ok \<circ> Some) spawned @ Ok None # rest)
   | (Ready (Err e), spawned) \<Rightarrow> (\<exists>rest err. map (\<lambda>r. read_data r) reads =
       map (Ok \<circ> Some) spawned @ Err err # rest \<and> e = TnlaReadError (assoc_id tnla) err)
   | (Panicked, _) \<Rightarrow> False"
proof (induction reads)
  case (Cons recvmsg reads)
  show ?case
  proof (cases "read_data recvmsg")
    case (Ok m)
    show ?thesis
    proof (cases m)
      case (Some message)
      with Ok Cons.IH show ?thesis
        by (auto split: prod.splits fut.splits result.splits)
    qed (use Ok in simp)
  qed simp
qed simp

text \<open>
  C21: messages after NG Setup.  Octets that are no PDU, and every PDU other than an initial UE
  message, are answered with one error indication on the socket of the connection, of a falsely
  constructed message and of a semantic error respectively; nothing is sent only if the
  indication cannot be encoded, and the context stays as it was.  An initial UE message is never
  answered directly, whatever its handler returns; it is passed to the handler once, the task
  panics exactly when the handler does, and the connection and the node of the context stay.
\<close>

theorem message_task_outcome:
  assumes "message_task env gref message gnb = (ok, wire, gnb')"
  shows "(case from_bytes (ngap env) message of
      Ok (InitiatingMessage (InitialUeMessage pdu)) \<Rightarrow> wire = [] \<and>
        gnb' = snd (handle_initial_ue env gref pdu gnb) \<and>
        (ok \<longleftrightarrow> fst (handle_initial_ue env gref pdu gnb) \<noteq> None)
    | Ok pdu \<Rightarrow> ok \<and> gnb' = gnb \<and> wire = pdu_wire env (tnla_association gnb) (error_indication_to_pdu (ngap env)
          \<lparr>ei_amf_ue_ngap_id = None, ei_ran_ue_ngap_id = None, ei_cause = Some (CauseProtocol SemanticError),
           ei_criticality_diagnostics = None\<rparr>)
    | Err e \<Rightarrow> ok \<and> gnb' = gnb \<and> wire = pdu_wire env (tnla_association gnb)
          (error_indication_to_pdu (ngap env) (falsely_constructed (ngap env) message e))) \<and>
    tnla_association gnb' = tnla_association gnb \<and> global_ran_node_id gnb' = global_ran_node_id gnb"
proof -
  have "log_and_convert_to_pdu (ngap env) empty_response_to_pdu empty_response_to_pdu r = None"
    if "fst (handle_initial_ue env gref pdu gnb) = Some r" for pdu r
    by (rule empty_failures_silent) (use handle_initial_ue_failure [OF that] in blast)
  moreover have "tnla_association gnb' = tnla_association gnb" "global_ran_node_id gnb' = global_ran_node_id gnb"
    using message_task_id [of env gref message gnb] message_task_tnla [of env gref message gnb] assms by simp_all
  ultimately show ?thesis
    using assms
    by (auto simp: message_task_def ngap_route_def to_pdu_some_def split_beta Let_def decode_ngap_pdu_eq
        encode_and_write_outcome new_semantic_error_def new_semantic_error_cause_def error_indication_default_def
        split: result.splits ngap_pdu.splits initiating_message.splits option.splits)
qed


subsection \<open>Witnesses\<close>

text \<open>A codec that reads the octet 21 as the setup request of \<open>demo_request\<close>.\<close>

definition demo_amf ::
  "(nat, unit, nat, nat, unit, nat \<rightharpoonup> nat, ran_ue_ngap_id \<rightharpoonup> nat) amf_env" where
  "demo_amf = demo_env\<lparr>ngap := demo_ngap\<lparr>from_bytes := (\<lambda>bs. if bs = [21]
     then Ok (InitiatingMessage (NgSetupRequest demo_request)) else from_bytes demo_ngap bs)\<rparr>\<rparr>"

lemma demo_amf_laws:
  "scc_hash_map (gnb_ops demo_amf) (\<lambda>m. m)" "hexlib demo_amf = hexlib demo_env"
  "bitlib demo_amf = bitlib demo_env"
  by (simp_all add: demo_amf_def demo_env_def map_scc.scc_hash_map_axioms)

definition demo_net :: "(unit, nat, nat) network" where
  "demo_net = \<lparr>listener = (), net_associations = associations_new\<rparr>"

definition demo_connected_on ::
  "(nat, nat) tnla_association \<Rightarrow> (nat, unit, nat, nat, ran_ue_ngap_id \<rightharpoonup> nat) gnb_context" where
  "demo_connected_on tnla = (gnb_context_new demo_amf tnla)\<lparr>global_ran_node_id := 77, gnb_name := ''gnb''\<rparr>"

definition demo_connected :: "(nat, unit, nat, nat, ran_ue_ngap_id \<rightharpoonup> nat) gnb_context" where
  "demo_connected = demo_connected_on demo_tnla"

lemma demo_setup_on:
  "\<exists>wire. try_ng_setup demo_amf demo_app Map.empty (Ok (1, [21])) tnla = (Some (Ok (demo_connected_on tnla)), wire)"
proof -
  obtain p g where pg: "from_plmn_support_list hex_ref demo_plmn_support = Some p"
    "from_guami_list bitvec_ref \<lparr>head = demo_guami, tail = []\<rparr> = Some g"
    using valid_app_config_converts [OF ref_hex.hex_codec_axioms ref_bitvec.bitvec_axioms demo_app_valid]
    unfolding demo_app_lists by blast
  have conv: "ta_loop demo_amf (supported_ta_list demo_request) [] =
      Ok [\<lparr>supported_tai = \<lparr>tai_plmn_id = \<lparr>mcc = ''208'', mnc = ''93''\<rparr>, tai_tac = ''000001'', tai_rest = ()\<rparr>,
        snssais = \<lparr>head = \<lparr>sst = 1, sd = None\<rparr>, tail = []\<rparr>\<rparr>]"
    unfolding ta_loop_eq demo_announced
    by (simp add: convert_broadcast_plmn_def demo_tai demo_amf_def demo_env_def
        convert_ngap_snssai_to_sbi_snssai_def)
  have tais: "support_tai_list demo_app =
      [\<lparr>tai_plmn_id = \<lparr>mcc = ''208'', mnc = ''93''\<rparr>, tai_tac = ''000001'', tai_rest = ()\<rparr>]"
    by (simp add: demo_app_def configuration_new_def demo_config_def Let_def)
  have "handle_ng_setup demo_amf demo_app Map.empty demo_request (gnb_context_new demo_amf tnla) =
      (Some (Ok \<lparr>resp_plmn_support_list = p, resp_served_guami_list = g, relative_amf_capacity = 255,
        resp_amf_name = app_name demo_app\<rparr>), demo_connected_on tnla)"
    unfolding handle_ng_setup_def conv demo_app_lists
    using pg by (simp add: tais demo_amf_laws demo_env_def)
      (simp add: demo_amf_def demo_env_def demo_connected_on_def demo_request_def gnb_context_new_def)
  then show ?thesis
    by (simp add: try_ng_setup_def setup_answer_def read_data_def decode_ngap_pdu_def
        encode_and_write_ngap_pdu_def write_data_def codec_to_bytes_def demo_sctp_def Let_def
        demo_amf_def demo_env_def demo_ngap_def)
qed

lemmas demo_setup = demo_setup_on [of demo_tnla, folded demo_connected_def]

lemma demo_connected_node [simp]:
  "global_ran_node_id (demo_connected_on tnla) = 77" "global_ran_node_id demo_connected = 77"
  "tnla_association (demo_connected_on tnla) = tnla"
  by (simp_all add: demo_connected_def demo_connected_on_def gnb_context_new_def)

lemma demo_amf_ops: "gnb_ops demo_amf = map_ops"
  by (simp add: demo_amf_def demo_env_def)

definition demo_registry :: "(nat, unit, nat, nat, nat \<rightharpoonup> nat, ran_ue_ngap_id \<rightharpoonup> nat) gnb_registry" where
  "demo_registry = \<lparr>gnb_contexts = [77 \<mapsto> 0], gnb_store = [0 \<mapsto> demo_connected], next_gnb = 1\<rparr>"

definition demo_state ::
  "(nat, unit, nat, nat, ran_ue_ngap_id \<rightharpoonup> nat) conn \<Rightarrow>
     (nat, unit, nat, nat, unit, nat \<rightharpoonup> nat, ran_ue_ngap_id \<rightharpoonup> nat) amf_sys" where
  "demo_state c = \<lparr>amf_counter = 2, amf_network = \<lparr>listener = (), net_associations = demo_tab\<rparr>,
     amf_registry = demo_registry, amf_conns = [c]\<rparr>"

definition demo_pending ::
  "(nat, unit, nat, nat, ran_ue_ngap_id \<rightharpoonup> nat) conn \<Rightarrow>
     (nat, unit, nat, nat, unit, nat \<rightharpoonup> nat, ran_ue_ngap_id \<rightharpoonup> nat) amf_sys" where
  "demo_pending c = (demo_state c)\<lparr>amf_registry :=
     \<lparr>gnb_contexts = Map.empty, gnb_store = Map.empty, next_gnb = 0\<rparr>\<rparr>"

lemma demo_transitions:
  "run_accept demo_amf (Ok (7, 7)) (ngap_context_new demo_amf demo_net) =
     demo_pending (SettingUp demo_tnla 1)"
  "conn_step demo_amf demo_app (Ok (1, [21])) (SettingUp demo_tnla 1) (amf_registry (demo_pending c)) =
     (Answered demo_connected, amf_registry (demo_pending c))"
  "conn_step demo_amf demo_app (Ok (1, [21])) (Answered demo_connected) (amf_registry (demo_pending c)) =
     (Running 0, demo_registry)"
proof -
  show "run_accept demo_amf (Ok (7, 7)) (ngap_context_new demo_amf demo_net) =
      demo_pending (SettingUp demo_tnla 1)"
    by (simp add: run_accept_def ngap_context_new_def accept_and_create_tnla_def demo_net_def
        demo_tab_eq(1) demo_amf_def demo_env_def demo_pending_def demo_state_def)
  show "conn_step demo_amf demo_app (Ok (1, [21])) (SettingUp demo_tnla 1) (amf_registry (demo_pending c)) =
      (Answered demo_connected, amf_registry (demo_pending c))"
    using demo_setup by (auto simp: demo_pending_def)
  show "conn_step demo_amf demo_app (Ok (1, [21])) (Answered demo_connected) (amf_registry (demo_pending c)) =
      (Running 0, demo_registry)"
    by (simp add: demo_pending_def register_gnb_def demo_registry_def demo_amf_ops Let_def)
qed

lemma demo_conns [simp]:
  "amf_conns (demo_pending c) = [c]"
  "(demo_pending c)\<lparr>amf_conns := [c']\<rparr> = demo_pending c'"
  "(demo_pending c)\<lparr>amf_registry := demo_registry, amf_conns := [c']\<rparr> = demo_state c'"
  "(demo_pending c)\<lparr>amf_registry := amf_registry (demo_pending c), amf_conns := [c']\<rparr> = demo_pending c'"
  by (simp_all add: demo_pending_def demo_state_def)

lemma demo_running: "amf_steps demo_amf demo_app (ngap_context_new demo_amf demo_net) (demo_state (Running 0))"
proof -
  note one = amf_step.conn [where cs = "[]" and cs' = "[]"]
  note amf_steps.step [OF amf_steps.start amf_step.accept, of demo_amf demo_app
      "ngap_context_new demo_amf demo_net" "Ok (7, 7)", unfolded demo_transitions(1)]
  note amf_steps.step [OF this one [OF _ demo_transitions(2)]]
  then have "amf_steps demo_amf demo_app (ngap_context_new demo_amf demo_net)
      (demo_pending (Answered demo_connected))"
    by simp
  note amf_steps.step [OF this one [OF _ demo_transitions(3)]]
  then show ?thesis by simp
qed

lemma demo_broken:
  "amf_steps demo_amf demo_app (ngap_context_new demo_amf demo_net) (demo_state (Broken 0))"
proof -
  have "conn_step demo_amf demo_app (Err ()) (Running 0) (amf_registry (demo_state (Running 0))) =
      (Broken 0, demo_registry)"
    by (simp add: demo_state_def demo_registry_def read_data_def)
  from amf_steps.step [OF demo_running amf_step.conn [where cs = "[]" and cs' = "[]", OF _ this]]
  show ?thesis
    by (simp add: demo_state_def)
qed

theorem gnb_registry_exact_witness:
  "gnb_contexts (amf_registry (demo_state (Running 0))) 77 = Some 0"
  using gnb_registry_exact [OF demo_amf_laws(1) demo_running, of 77 0]
  by (simp add: demo_state_def demo_registry_def)

theorem broken_connection_blocks_node_witness:
  "fst (handle_ng_setup demo_amf demo_app (gnb_contexts (amf_registry (demo_state (Broken 0))))
     demo_request demo_gnb) =
   Some (Err (new_failure_error (build_failure new_semantic_error_cause) (ConflictingRanId 77)))"
proof -
  have "Broken 0 \<in> set (amf_conns (demo_state (Broken 0)))"
    "gnb_store (amf_registry (demo_state (Broken 0))) 0 = Some demo_connected"
    "req_global_ran_node_id demo_request = global_ran_node_id demo_connected"
    "global_ran_node_id demo_connected = 77"
    by (simp_all add: demo_state_def demo_registry_def demo_request_def)
  with broken_connection_blocks_node [OF demo_amf_laws(1) demo_broken amf_steps.start, of 0 demo_connected demo_request]
  show ?thesis by simp
qed

theorem association_never_released_witness:
  "fst (accept_and_create_tnla (sctp_lib demo_amf) (Ok (7, 7)) (amf_counter (demo_state (Broken 0)))
     (amf_network (demo_state (Broken 0)))) = Err (AssociationAlreadyExists 38412 7)"
  using association_never_released [OF amf_steps.start, of 38412 7 "demo_state (Broken 0)" demo_amf 7 7]
  by (simp add: demo_state_def demo_tab_eq(2) demo_amf_def demo_env_def demo_sctp_def)

text \<open>A second connection of the node, answered before the first is registered.\<close>

definition demo_tnla2 :: "(nat, nat) tnla_association" where
  "demo_tnla2 = \<lparr>assoc_id = 2, local_addr = 38412, remote_addr = 8, stream = 8\<rparr>"

definition demo_two ::
  "(nat, unit, nat, nat, nat \<rightharpoonup> nat, ran_ue_ngap_id \<rightharpoonup> nat) gnb_registry \<Rightarrow>
     (nat, unit, nat, nat, ran_ue_ngap_id \<rightharpoonup> nat) conn list \<Rightarrow>
     (nat, unit, nat, nat, unit, nat \<rightharpoonup> nat, ran_ue_ngap_id \<rightharpoonup> nat) amf_sys" where
  "demo_two reg cs = \<lparr>amf_counter = 3, amf_network = \<lparr>listener = (), net_associations =
     \<lparr>associations_map = [1 \<mapsto> demo_tnla, 2 \<mapsto> demo_tnla2], associations_set = {(38412, 8), (38412, 7)}\<rparr>\<rparr>,
     amf_registry = reg, amf_conns = cs\<rparr>"

lemma demo_told_twice:
  "amf_steps demo_amf demo_app (ngap_context_new demo_amf demo_net)
     (demo_two demo_registry [Running 0, Answered (demo_connected_on demo_tnla2)])"
proof -
  let ?e = "amf_registry (demo_pending (SettingUp demo_tnla 1))"
  let ?r = "\<lambda>reg c c'. amf_steps demo_amf demo_app (ngap_context_new demo_amf demo_net) (demo_two reg [c, c'])"
  have empty: "?e = \<lparr>gnb_contexts = Map.empty, gnb_store = Map.empty, next_gnb = 0\<rparr>"
    by (simp add: demo_pending_def)
  have conn: "?r reg' c' d" if "?r reg c d" "conn_step demo_amf demo_app m c reg = (c', reg')" for reg reg' c c' d m
    using amf_steps.step [OF that(1) amf_step.conn [of _ "[]" c "[d]"]] that(2)
    by (simp add: demo_two_def)
  have second: "?r reg' d c'" if "?r reg d c" "conn_step demo_amf demo_app m c reg = (c', reg')" for reg reg' c c' d m
    using amf_steps.step [OF that(1) amf_step.conn [of _ "[d]" c "[]"]] that(2)
    by (simp add: demo_two_def)
  have attempt: "conn_step demo_amf demo_app (Ok (1, [21])) (SettingUp tnla 1) ?e =
      (Answered (demo_connected_on tnla), ?e)" for tnla
    unfolding empty using demo_setup_on [of tnla] by auto
  have "run_accept demo_amf (Ok (8, 8)) (demo_pending (SettingUp demo_tnla 1)) =
      demo_two ?e [SettingUp demo_tnla 1, SettingUp demo_tnla2 1]"
    by (simp add: run_accept_def accept_and_create_tnla_def add_tnla_association_def tnla_new_def increment_def
        demo_pending_def demo_state_def demo_two_def demo_tab_eq(2) demo_amf_def demo_env_def demo_sctp_def
        demo_tnla2_def insert_commute)
  with amf_steps.step [OF amf_steps.step [OF amf_steps.start amf_step.accept, of demo_amf demo_app
      "ngap_context_new demo_amf demo_net" "Ok (7, 7)", unfolded demo_transitions(1)] amf_step.accept, of "Ok (8, 8)"]
  have "?r ?e (SettingUp demo_tnla 1) (SettingUp demo_tnla2 1)"
    by simp
  from second [OF conn [OF this attempt] attempt]
  have "?r ?e (Answered demo_connected) (Answered (demo_connected_on demo_tnla2))"
    by (simp add: demo_connected_def)
  from conn [OF this demo_transitions(3)] show ?thesis .
qed

theorem setup_race_crashes_witness:
  "amf_steps demo_amf demo_app (ngap_context_new demo_amf demo_net)
     (demo_two demo_registry [Running 0, Answered (demo_connected_on demo_tnla2)]) \<and>
   (\<exists>reg. conn_step demo_amf demo_app (Err ()) (Answered (demo_connected_on demo_tnla2)) demo_registry =
     (Crashed, reg))"
proof -
  let ?s = "demo_two demo_registry [Running 0, Answered (demo_connected_on demo_tnla2)]"
  obtain c reg where step: "conn_step demo_amf demo_app (Err ()) (Answered (demo_connected_on demo_tnla2))
      (amf_registry ?s) = (c, reg)"
    by force
  have "amf_conns ?s = [Running 0] @ Answered (demo_connected_on demo_tnla2) # []"
    by (simp add: demo_two_def)
  moreover have "gnb_store (amf_registry ?s) 0 = Some demo_connected" "Running 0 \<in> set (amf_conns ?s)"
    "amf_registry ?s = demo_registry"
    by (simp_all add: demo_two_def demo_registry_def)
  ultimately have "c = Crashed"
    using setup_race_crashes [OF demo_amf_laws(1) demo_told_twice _ step]
    by (metis (no_types, lifting) demo_connected_node(1,2))
  with step \<open>amf_registry ?s = demo_registry\<close> demo_told_twice show ?thesis
    by auto
qed

theorem try_ng_setup_outcome_witness:
  "try_ng_setup demo_amf demo_app Map.empty (Ok (1, [21])) demo_tnla =
     (Some (Ok demo_connected), [(7, [21], \<lparr>ppid = 60\<rparr>)]) \<and>
   snd (try_ng_setup demo_amf demo_app Map.empty (Ok (1, [99])) demo_tnla) = [(7, [21], \<lparr>ppid = 60\<rparr>)]"
proof -
  have send: "pdu_wire demo_amf demo_tnla pdu = [(7, [21], \<lparr>ppid = 60\<rparr>)]" for pdu
    by (simp add: pdu_wire_def ngap_send_options_def codec_to_bytes_def demo_amf_def demo_env_def demo_ngap_def
        demo_sctp_def demo_tnla_def)
  obtain wire where good: "try_ng_setup demo_amf demo_app Map.empty (Ok (1, [21])) demo_tnla =
      (Some (Ok demo_connected), wire)"
    using demo_setup by blast
  have bad: "try_ng_setup demo_amf demo_app Map.empty (Ok (1, [99])) demo_tnla =
      (Some (Err (PerCodecEncodingError ())), snd (try_ng_setup demo_amf demo_app Map.empty (Ok (1, [99])) demo_tnla))"
    by (simp add: try_ng_setup_def read_data_def setup_answer_def decode_ngap_pdu_eq encode_and_write_ngap_pdu_def
        codec_to_bytes_def write_data_def demo_amf_def demo_env_def demo_ngap_def demo_sctp_def Let_def)
  from try_ng_setup_outcome [OF demo_amf_laws(1) good] try_ng_setup_outcome [OF demo_amf_laws(1) bad] good
  show ?thesis
    by (auto simp: read_data_def send)
qed

theorem message_task_outcome_witness:
  "message_task demo_amf 0 [99] demo_connected = (True, [(7, [21], \<lparr>ppid = 60\<rparr>)], demo_connected)"
proof -
  obtain ok wire gnb' where run: "message_task demo_amf 0 [99] demo_connected = (ok, wire, gnb')"
    by (cases "message_task demo_amf 0 [99] demo_connected") auto
  have "from_bytes (ngap demo_amf) [99] = Err \<lparr>diagnostics = (), codec_error = ()\<rparr>"
    by (simp add: demo_amf_def demo_env_def demo_ngap_def)
  moreover have "pdu_wire demo_amf (tnla_association demo_connected) pdu = [(7, [21], \<lparr>ppid = 60\<rparr>)]" for pdu
    by (simp add: pdu_wire_def ngap_send_options_def codec_to_bytes_def demo_amf_def demo_env_def demo_ngap_def
        demo_sctp_def demo_tnla_def demo_connected_def)
  ultimately show ?thesis
    using message_task_outcome [OF run] run by simp
qed

theorem setup_retries_outcome_witness:
  "try_ng_setup_with_retries demo_amf demo_app demo_tnla (\<lambda>k. (Ok (0, []), Map.empty)) = Some None"
proof -
  have "setup_attempt demo_amf demo_app demo_tnla (\<lambda>k. (Ok (0, []), Map.empty)) k = Some (Err SocketClosed)" for k
    by (simp add: setup_attempt_def try_ng_setup_def read_data_def)
  with setup_retries_outcome [of demo_amf demo_app demo_tnla "\<lambda>k. (Ok (0, []), Map.empty)"]
  show ?thesis
    by (auto split: option.splits)
qed

end
