(* ===== verification/Nas_Registration.thy ===== *)
theory Nas_Registration
  imports Ng_Setup
begin

text \<open>
  \<open>nas/gmm.rs\<close>, \<open>nas/handlers\<close>, \<open>nas/builders\<close> and \<open>nas/error.rs\<close>: the states of the
  mobility management machine and the handler of the registration request.  The machine itself
  is run by the third-party crate \<open>statig\<close>; its state functions are given here, each on the
  pair of NAS context and UE context it may change.  \<open>None\<close> is the panic of a \<open>todo!()\<close>, next
  to the state the panic leaves behind.
\<close>

text \<open>The causes of the protocol, of which the handlers name one.\<close>

datatype five_gmm_cause = ProtocolErrorUnspecified | OtherGmmCause u8

datatype nas_handler_error =
    InvalidNasPdu
  | UnableToParseNasMessage
  | UnknownNasMessageType
  | UnknownError
  | FiveGmmCauseError five_gmm_cause

text \<open>Two enumerations of \<open>nas/nas_context.rs\<close>, declared for states that nothing keeps yet.\<close>

datatype cm_state = CmIdle | CmConnected

datatype ue_gmm_state = GmmDeregistered | GmmRegistered

datatype 'x gmm_message =
    GmmAuthenticationRequest
  | GmmStatus
  | GmmRegistrationRequest "'x nas_registration_request"
  | GmmOther

datatype gmm_response = Handled | Transition gmm_state | Super

type_synonym 'x gmm_data = "'x nas_context \<times> 'x ue_context"

subsection \<open>The registration request\<close>

text \<open>\<open>NonEmptyString::new(s).ok()\<close> and \<open>NonZeroU32::new\<close>.\<close>

definition non_empty_string :: "string \<Rightarrow> string option" where
  "non_empty_string s = (if s = [] then None else Some s)"

definition non_zero_u32 :: "u32 \<Rightarrow> u32 option" where
  "non_zero_u32 n = (if n = 0 then None else Some n)"

fun set_identity :: "mobile_identity \<Rightarrow> 'x ue_context \<Rightarrow> 'x ue_context option" where
  "set_identity NoIdentity ue = Some ue"
| "set_identity (Suci s) ue = Some (ue\<lparr>suci := non_empty_string s\<rparr>)"
| "set_identity (FiveGGuti s) ue = Some (ue\<lparr>guti := non_empty_string s\<rparr>)"
| "set_identity (Imei s) ue = Some (ue\<lparr>pei := non_empty_string s\<rparr>)"
| "set_identity (FiveGSTmsiIdentity n) ue = Some (ue\<lparr>tmsi := non_zero_u32 n\<rparr>)"
| "set_identity (Imeisv s) ue = Some (ue\<lparr>pei := non_empty_string s\<rparr>)"
| "set_identity (MacAddress s) ue = Some (ue\<lparr>mac_addr := non_empty_string s\<rparr>)"
| "set_identity (Eui64 s) ue = None"

definition initial_registration_handler ::
  "'x nas_registration_request \<Rightarrow> 'x gmm_data \<Rightarrow>
     (unit, nas_handler_error) result option \<times> 'x gmm_data" where
  "initial_registration_handler request d =
     (case d of (nas, ue) \<Rightarrow>
        let nas = nas\<lparr>registration_request := Some request\<rparr>
        in case set_identity (mobile_identity request) ue of
             None \<Rightarrow> (None, (nas, ue))
           | Some ue \<Rightarrow>
               (case nas_ue_security_capability request of
                  Some cap \<Rightarrow> (Some (Ok ()), (nas\<lparr>ue_security_capability := Some cap\<rparr>, ue))
                | None \<Rightarrow> (Some (Err (FiveGmmCauseError ProtocolErrorUnspecified)), (nas, ue))))"

definition handle_registration_request ::
  "'x nas_registration_request \<Rightarrow> 'x gmm_data \<Rightarrow>
     (unit, nas_handler_error) result option \<times> 'x gmm_data" where
  "handle_registration_request request d =
     (case registration_type request of
        InitialRegistration \<Rightarrow> initial_registration_handler request d
      | MobilityRegistrationUpdating \<Rightarrow> (None, d)
      | PeriodicRegistrationUpdating \<Rightarrow> (None, d)
      | EmergencyRegistration \<Rightarrow> (None, d)
      | SnpnOnboardingRegistration \<Rightarrow> (None, d)
      | DisasterRoamingMobilityRegistrationUpdating \<Rightarrow> (None, d)
      | DisasterRoamingInitialRegistration \<Rightarrow> (None, d))"

text \<open>The handler of the authentication response and the builder of the request are \<open>todo!()\<close>.\<close>

definition handle_authentication_response ::
  "'x gmm_data \<Rightarrow> (unit, nas_handler_error) result option \<times> 'x gmm_data" where
  "handle_authentication_response d = (None, d)"

definition build_authentication_request ::
  "'x gmm_data \<Rightarrow> ('x gmm_message, nas_handler_error) result option" where
  "build_authentication_request d = None"

subsection \<open>The states\<close>

definition unauthenticated :: "'x gmm_message \<Rightarrow> 'x gmm_data \<Rightarrow> gmm_response option \<times> 'x gmm_data" where
  "unauthenticated event d =
     (case event of
        GmmAuthenticationRequest \<Rightarrow> (Some (Transition Unauthenticated), d)
      | _ \<Rightarrow> (Some Super, d))"

definition authenticated :: "'x gmm_message \<Rightarrow> 'x gmm_data \<Rightarrow> gmm_response option \<times> 'x gmm_data" where
  "authenticated event d = (None, d)"

definition registration_initiated ::
  "'x gmm_message \<Rightarrow> 'x gmm_data \<Rightarrow> gmm_response option \<times> 'x gmm_data" where
  "registration_initiated event d =
     (case event of
        GmmStatus \<Rightarrow> (Some Handled, d)
      | _ \<Rightarrow> (Some Super, d))"

definition deregistered :: "'x gmm_message \<Rightarrow> 'x gmm_data \<Rightarrow> gmm_response option \<times> 'x gmm_data" where
  "deregistered event d =
     (case event of
        GmmStatus \<Rightarrow> (Some Handled, d)
      | GmmRegistrationRequest request \<Rightarrow>
          (case handle_registration_request request d of
             (None, d) \<Rightarrow> (None, d)
           | (Some (Ok _), d) \<Rightarrow>
               (case build_authentication_request d of
                  None \<Rightarrow> (None, d)
                | Some (Ok authentication_request) \<Rightarrow> unauthenticated authentication_request d
                | Some (Err err) \<Rightarrow> (Some Handled, d))
           | (Some (Err err), d) \<Rightarrow> (Some Handled, d))
      | _ \<Rightarrow> (Some Handled, d))"

subsection \<open>Properties\<close>

text \<open>The identity of a UE as one value, and the member a mobile identity goes to.\<close>

definition ue_identities ::
  "'x ue_context \<Rightarrow> string option \<times> string option \<times> string option \<times> string option \<times> u32 option" where
  "ue_identities ue = (suci ue, guti ue, pei ue, mac_addr ue, tmsi ue)"

fun identity_spec ::
  "mobile_identity \<Rightarrow> string option \<times> string option \<times> string option \<times> string option \<times> u32 option \<Rightarrow>
     string option \<times> string option \<times> string option \<times> string option \<times> u32 option" where
  "identity_spec (Suci s) (a, b, c, d, e) = (non_empty_string s, b, c, d, e)"
| "identity_spec (FiveGGuti s) (a, b, c, d, e) = (a, non_empty_string s, c, d, e)"
| "identity_spec (Imei s) (a, b, c, d, e) = (a, b, non_empty_string s, d, e)"
| "identity_spec (Imeisv s) (a, b, c, d, e) = (a, b, non_empty_string s, d, e)"
| "identity_spec (MacAddress s) (a, b, c, d, e) = (a, b, c, non_empty_string s, e)"
| "identity_spec (FiveGSTmsiIdentity n) (a, b, c, d, e) = (a, b, c, d, non_zero_u32 n)"
| "identity_spec _ x = x"

lemma set_identity_Some:
  assumes "set_identity i ue = Some ue'"
  shows "ue_identities ue' = identity_spec i (ue_identities ue)"
    and "ran_ue_ngap_id ue' = ran_ue_ngap_id ue" "amf_ue_ngap_id ue' = amf_ue_ngap_id ue"
  using assms by (cases i; auto simp: ue_identities_def)+

text \<open>
  C38: the initial registration.  The request is kept for a later reallocation whatever happens
  afterwards; the mobile identity is recorded in the one member for its kind, empty texts and
  the zero TMSI as absent, and no other identity of the UE context changes; the security
  capability is taken over when the request has one and left alone otherwise, which is the one
  error of the handler; only an EUI-64 identity makes it panic.
\<close>

theorem initial_registration_outcome:
  assumes "registration_type request = InitialRegistration"
    and "handle_registration_request request (nas, ue) = (out, nas', ue')"
  shows "registration_request nas' = Some request \<and>
    ran_ue_ngap_id ue' = ran_ue_ngap_id ue \<and> amf_ue_ngap_id ue' = amf_ue_ngap_id ue \<and>
    ue_identities ue' = identity_spec (mobile_identity request) (ue_identities ue) \<and>
    (out = None \<longleftrightarrow> (\<exists>s. mobile_identity request = Eui64 s)) \<and>
    (out = Some (Ok ()) \<longleftrightarrow> (\<nexists>s. mobile_identity request = Eui64 s) \<and>
       nas_ue_security_capability request \<noteq> None) \<and>
    ue_security_capability nas' =
      (if out = Some (Ok ()) then nas_ue_security_capability request else ue_security_capability nas)"
proof (cases "set_identity (mobile_identity request) ue")
  case None
  then obtain s where "mobile_identity request = Eui64 s"
    by (cases "mobile_identity request") auto
  with None assms show ?thesis
    by (auto simp: handle_registration_request_def initial_registration_handler_def)
next
  case (Some ue1)
  then have "\<nexists>s. mobile_identity request = Eui64 s"
    by auto
  with Some set_identity_Some [OF Some] assms show ?thesis
    by (cases "nas_ue_security_capability request")
      (auto simp: handle_registration_request_def initial_registration_handler_def Let_def)
qed

text \<open>
  No UE leaves the deregistered state.  Whatever the event, the state either reports it as
  handled or panics, and it panics for every registration request the handler accepts, because
  the authentication request it must then build is not implemented.
\<close>

theorem deregistered_never_leaves:
  "fst (deregistered event d) \<in> {None, Some Handled} \<and>
   (\<forall>request. event = GmmRegistrationRequest request \<and>
      fst (handle_registration_request request d) = Some (Ok ()) \<longrightarrow> fst (deregistered event d) = None)"
proof
  show "fst (deregistered event d) \<in> {None, Some Handled}"
    by (cases event)
      (auto simp: deregistered_def build_authentication_request_def split: prod.splits option.splits result.splits)
  show "\<forall>request. event = GmmRegistrationRequest request \<and>
      fst (handle_registration_request request d) = Some (Ok ()) \<longrightarrow> fst (deregistered event d) = None"
    by (auto simp: deregistered_def build_authentication_request_def split: prod.splits)
qed

subsection \<open>Witnesses\<close>

definition demo_registration :: "unit nas_registration_request" where
  "demo_registration = \<lparr>registration_type = InitialRegistration,
     mobile_identity = Suci ''suci-0-208-93-0-0-0-1'', nas_ue_security_capability = Some ()\<rparr>"

definition demo_gmm :: "unit gmm_data" where
  "demo_gmm = (nas_context_new, ue_context_new 9 1 () 0 None (state_machine nas_context_new))"

theorem initial_registration_outcome_witness:
  "fst (handle_registration_request demo_registration demo_gmm) = Some (Ok ())"
proof -
  obtain out nas' ue' where run: "handle_registration_request demo_registration
      (nas_context_new, ue_context_new 9 1 () 0 None (state_machine nas_context_new)) = (out, nas', ue')"
    by (metis prod_cases3)
  from initial_registration_outcome [OF _ run] run show ?thesis
    by (simp add: demo_gmm_def demo_registration_def)
qed

theorem deregistered_never_leaves_witness:
  "fst (deregistered (GmmRegistrationRequest demo_registration) demo_gmm) = None"
proof -
  have "fst (handle_registration_request demo_registration demo_gmm) = Some (Ok ())"
    by (simp add: handle_registration_request_def initial_registration_handler_def demo_registration_def
        demo_gmm_def Let_def)
  with deregistered_never_leaves [of "GmmRegistrationRequest demo_registration" demo_gmm] show ?thesis
    by simp
qed

end
