(* ===== verification/Token_Store.thy ===== *)
theory Token_Store
  imports Scc_Map Id_Counter
begin

text \<open>
  \<open>utils/client/src/token_store.rs\<close>: a cache of access tokens in which a reader waits while
  a writer obtains the token.  The first part has the operations; \<open>get\<close> and \<open>set\<close> are given
  in pieces, one per operation on the map, and composed for a caller that is alone.  The second
  part interleaves the pieces of any number of readers and writers.

  A \<open>Notify\<close> is a number.  \<open>notify_waiters\<close> wakes the tasks that wait on it at that moment
  and leaves nothing behind for a task that starts to wait later, as documented by \<open>tokio\<close>.
\<close>

datatype 'v token_state_inner = TokenReady 'v | Updating nat | Failed

record 'v token_state =
  token_id :: u32
  token_inner :: "'v token_state_inner"

definition new_ready :: "'v \<Rightarrow> 32 counter \<Rightarrow> 'v token_state \<times> 32 counter" where
  "new_ready value counter =
     (let (i, counter) = increment counter
      in (\<lparr>token_id = i, token_inner = TokenReady value\<rparr>, counter))"

definition token_state_new :: "nat \<Rightarrow> 32 counter \<Rightarrow> 'v token_state \<times> 32 counter" where
  "token_state_new notify counter =
     (let (i, counter) = increment counter
      in (\<lparr>token_id = i, token_inner = Updating notify\<rparr>, counter))"

definition is_updating :: "'v token_state \<Rightarrow> bool" where
  "is_updating t = (case token_inner t of Updating _ \<Rightarrow> True | _ \<Rightarrow> False)"

definition is_ready :: "'v token_state \<Rightarrow> bool" where
  "is_ready t = (case token_inner t of TokenReady _ \<Rightarrow> True | _ \<Rightarrow> False)"

datatype 'e store_error =
    StoreReadError u32
  | InvalidStateTransitionError u32
  | UpdateAlreadyInProgress u32
  | TokenEntryCreationError u32
  | MaximumReadIterations u32
  | InnerFutureError 'e

datatype 'v token_entry = TokenEntry "'v token_state"

definition new_unchecked :: "'v token_state \<Rightarrow> 'v token_entry" where [simp]:
  "new_unchecked value = TokenEntry value"

definition token_entry_new :: "'v token_state \<Rightarrow> ('v token_entry, 'e store_error) result" where
  "token_entry_new value =
     (if \<not> is_ready value then Err (TokenEntryCreationError (token_id value)) else Ok (TokenEntry value))"

text \<open>\<open>TokenEntry::get\<close>; \<open>None\<close> is its \<open>unreachable!()\<close>.\<close>

primrec token_entry_get :: "'v token_entry \<Rightarrow> 'v option" where
  "token_entry_get (TokenEntry t) = (case token_inner t of TokenReady v \<Rightarrow> Some v | _ \<Rightarrow> None)"

text \<open>The \<open>Debug\<close> output of an entry is that of its token.\<close>

definition token_entry_fmt :: "('v \<Rightarrow> string) \<Rightarrow> 'v token_entry \<Rightarrow> string option" where
  "token_entry_fmt fmt t = map_option fmt (token_entry_get t)"

text \<open>An empty store.\<close>

definition HASH_MAP_CAPACITY :: nat where
  "HASH_MAP_CAPACITY = 1024"

definition token_store_new :: "('k, 'v token_state, 'm) scc_ops \<Rightarrow> 'm" where [simp]:
  "token_store_new ops = with_capacity_and_hasher ops HASH_MAP_CAPACITY"

type_synonym ('v, 'e) get_result = "('v token_entry option, 'e store_error) result"
type_synonym ('v, 'e) set_result = "('v token_entry, 'e store_error) result"

subsection \<open>Reading\<close>

text \<open>One turn of the loop of \<open>get\<close>: what it returns, or the notification to wait for.\<close>

definition get_turn ::
  "('k, 'v token_state, 'm) scc_ops \<Rightarrow> 'k \<Rightarrow> 'm \<Rightarrow> ('v, 'e) get_result + nat" where
  "get_turn ops key m =
     (case read_async ops key m of
        None \<Rightarrow> Inl (Ok None)
      | Some val \<Rightarrow>
          (case token_inner val of
             TokenReady _ \<Rightarrow> Inl (Ok (Some (new_unchecked val)))
           | Failed \<Rightarrow> Inl (Err (StoreReadError (token_id val)))
           | Updating notify \<Rightarrow> Inr notify))"

text \<open>
  The loop \<open>for _ in 1..10\<close>; \<open>views i\<close> is the map when turn \<open>i\<close> reads it, the waits between
  the turns having ended.
\<close>

function get_loop ::
  "('k, 'v token_state, 'm) scc_ops \<Rightarrow> 'k \<Rightarrow> (nat \<Rightarrow> 'm) \<Rightarrow> nat \<Rightarrow> ('v, 'e) get_result" where
  "get_loop ops key views i =
     (if i < 10
      then case get_turn ops key (views i) of
          Inl r \<Rightarrow> r
        | Inr notify \<Rightarrow> get_loop ops key views (Suc i)
      else Ok None)"
  by auto
termination
  by (relation "measure (\<lambda>(_, _, _, i). 10 - i)") auto

declare get_loop.simps [simp del]

definition token_get ::
  "('k, 'v token_state, 'm) scc_ops \<Rightarrow> 'k \<Rightarrow> (nat \<Rightarrow> 'm) \<Rightarrow> ('v, 'e) get_result" where
  "token_get ops key views = get_loop ops key views 1"

subsection \<open>Writing\<close>

definition set_check ::
  "('k, 'v token_state, 'm) scc_ops \<Rightarrow> 'k \<Rightarrow> 'm \<Rightarrow> ('v, 'e) set_result option" where
  "set_check ops key m =
     (case get_async ops key m of
        Some val \<Rightarrow>
          if is_updating val then Some (Err (UpdateAlreadyInProgress (token_id val))) else None
      | None \<Rightarrow> None)"

text \<open>What the result of the future makes of the state, and of the answer.\<close>

definition set_complete :: "u32 \<Rightarrow> ('v, 'e) result \<Rightarrow> 'v token_state \<times> ('v, 'e) set_result" where
  "set_complete i res =
     (let (val, res) = (case res of
          Ok value \<Rightarrow> (TokenReady value, Ok ())
        | Err err \<Rightarrow> (Failed, Err (InnerFutureError err)));
          token_state = \<lparr>token_id = i, token_inner = val\<rparr>
      in (token_state, map_ok (\<lambda>_. new_unchecked token_state) res))"

definition set_update ::
  "('k, 'v token_state, 'm) scc_ops \<Rightarrow> 'k \<Rightarrow> 'v token_state \<Rightarrow> 'm \<Rightarrow> 'm" where
  "set_update ops key token_state m = update_async ops key (\<lambda>_. token_state) m"

text \<open>\<open>set\<close> by a caller that is alone; \<open>future\<close> is what the future it is given returns.\<close>

definition token_set ::
  "('k, 'v token_state, 'm) scc_ops \<Rightarrow> 'k \<Rightarrow> ('v, 'e) result \<Rightarrow> nat \<Rightarrow> 32 counter \<Rightarrow> 'm \<Rightarrow>
     ('v, 'e) set_result \<times> 32 counter \<times> 'm" where
  "token_set ops key future notify counter m =
     (let (new_token_state, counter) = token_state_new notify counter;
          i = token_id new_token_state
      in case set_check ops key m of
           Some r \<Rightarrow> (r, counter, m)
         | None \<Rightarrow>
             (let m = upsert_async ops key new_token_state m;
                  (token_state, r) = set_complete i future;
                  m = set_update ops key token_state m
              in (r, counter, m)))"

subsection \<open>Readers and writers together\<close>

datatype ('k, 'v, 'e) store_task =
    Reading 'k nat
  | HasRead 'k nat nat
  | Parked 'k nat nat
  | GetDone "('v, 'e) get_result"
  | SetStarted 'k
  | SetChecking 'k u32 nat
  | SetUpserting 'k u32 nat
  | SetAwaiting 'k u32 nat
  | SetNotifying nat "('v, 'e) set_result"
  | SetDone "('v, 'e) set_result"

record ('k, 'v, 'e, 'm) store_sys =
  store_map :: 'm
  store_counter :: "32 counter"
  next_notify :: nat
  tasks :: "('k, 'v, 'e) store_task list"

text \<open>Waking the tasks that are parked on a notification.\<close>

fun wake :: "nat \<Rightarrow> ('k, 'v, 'e) store_task \<Rightarrow> ('k, 'v, 'e) store_task" where
  "wake n (Parked key i n') = (if n' = n then Reading key (Suc i) else Parked key i n')"
| "wake n t = t"

text \<open>A reader at the head of its loop, a writer at its start and at its check.\<close>

definition create_next :: "'k \<Rightarrow> nat \<Rightarrow> 32 counter \<Rightarrow> ('k, 'v, 'e) store_task \<times> 32 counter" where
  "create_next key n counter =
     (let (st :: 'v token_state, counter) = token_state_new n counter
      in (SetChecking key (token_id st) n, counter))"

definition read_next ::
  "('k, 'v token_state, 'm) scc_ops \<Rightarrow> 'k \<Rightarrow> nat \<Rightarrow> 'm \<Rightarrow> ('k, 'v, 'e) store_task" where
  "read_next ops key i m =
     (if i < 10
      then case get_turn ops key m of Inl r \<Rightarrow> GetDone r | Inr n \<Rightarrow> HasRead key i n
      else GetDone (Ok None))"

definition check_next ::
  "('k, 'v token_state, 'm) scc_ops \<Rightarrow> 'k \<Rightarrow> u32 \<Rightarrow> nat \<Rightarrow> 'm \<Rightarrow> ('k, 'v, 'e) store_task" where
  "check_next ops key i n m =
     (case set_check ops key m of Some r \<Rightarrow> SetDone r | None \<Rightarrow> SetUpserting key i n)"

text \<open>
  The next step of a task that the store makes on its own.  A reader has read the map and holds
  the notification (\<open>HasRead\<close>) before it waits (\<open>Parked\<close>).
\<close>

inductive store_task_step ::
  "('k, 'v token_state, 'm) scc_ops \<Rightarrow> ('k, 'v, 'e, 'm) store_sys \<Rightarrow> ('k, 'v, 'e, 'm) store_sys \<Rightarrow> bool"
  for ops where
  read: "tasks s = ts @ Reading key i # ts' \<Longrightarrow>
    store_task_step ops s (s\<lparr>tasks := ts @ read_next ops key i (store_map s) # ts'\<rparr>)"
| park: "tasks s = ts @ HasRead key i n # ts' \<Longrightarrow>
    store_task_step ops s (s\<lparr>tasks := ts @ Parked key i n # ts'\<rparr>)"
| create: "\<lbrakk>tasks s = ts @ SetStarted key # ts';
      create_next key (next_notify s) (store_counter s) = (t, c)\<rbrakk> \<Longrightarrow>
    store_task_step ops s (s\<lparr>store_counter := c, next_notify := Suc (next_notify s),
      tasks := ts @ t # ts'\<rparr>)"
| check: "tasks s = ts @ SetChecking key i n # ts' \<Longrightarrow>
    store_task_step ops s (s\<lparr>tasks := ts @ check_next ops key i n (store_map s) # ts'\<rparr>)"
| upsert: "tasks s = ts @ SetUpserting key i n # ts' \<Longrightarrow>
    store_task_step ops s (s\<lparr>store_map := upsert_async ops key \<lparr>token_id = i, token_inner = Updating n\<rparr> (store_map s),
      tasks := ts @ SetAwaiting key i n # ts'\<rparr>)"
| notify: "tasks s = ts @ SetNotifying n r # ts' \<Longrightarrow>
    store_task_step ops s (s\<lparr>tasks := map (wake n) ts @ SetDone r # map (wake n) ts'\<rparr>)"

text \<open>
  The other steps are those of the callers: an operation is called, or the future of a writer
  completes with \<open>fut\<close>.
\<close>

inductive store_step ::
  "('k, 'v token_state, 'm) scc_ops \<Rightarrow> ('k, 'v, 'e, 'm) store_sys \<Rightarrow> ('k, 'v, 'e, 'm) store_sys \<Rightarrow> bool"
  for ops where
  start_get: "store_step ops s (s\<lparr>tasks := tasks s @ [Reading key 1]\<rparr>)"
| start_set: "store_step ops s (s\<lparr>tasks := tasks s @ [SetStarted key]\<rparr>)"
| task: "store_task_step ops s t \<Longrightarrow> store_step ops s t"
| complete: "\<lbrakk>tasks s = ts @ SetAwaiting key i n # ts'; set_complete i fut = (st, r)\<rbrakk> \<Longrightarrow>
    store_step ops s (s\<lparr>store_map := set_update ops key st (store_map s),
      tasks := ts @ SetNotifying n r # ts'\<rparr>)"

lemmas store_step_read = store_step.task [OF store_task_step.read]
lemmas store_step_park = store_step.task [OF store_task_step.park]
lemmas store_step_create = store_step.task [OF store_task_step.create]
lemmas store_step_check = store_step.task [OF store_task_step.check]
lemmas store_step_upsert = store_step.task [OF store_task_step.upsert]
lemmas store_step_notify = store_step.task [OF store_task_step.notify]

inductive store_reachable ::
  "('k, 'v token_state, 'm) scc_ops \<Rightarrow> ('k, 'v, 'e, 'm) store_sys \<Rightarrow> bool" for ops where
  init: "store_reachable ops \<lparr>store_map = token_store_new ops, store_counter = counter_new,
     next_notify = 0, tasks = []\<rparr>"
| step: "store_reachable ops s \<Longrightarrow> store_step ops s t \<Longrightarrow> store_reachable ops t"

subsection \<open>Lemmas\<close>

lemma get_loop_done:
  assumes "get_turn ops key (views i) = Inl r" and "i < 10"
  shows "get_loop ops key views i = r"
  using assms by (subst get_loop.simps) simp

lemma get_loop_waits:
  assumes "\<forall>j \<ge> i. \<exists>n. (get_turn ops key (views j) :: ('v, 'e) get_result + nat) = Inr n"
  shows "(get_loop ops key views i :: ('v, 'e) get_result) = Ok None"
  using assms
proof (induction "10 - i" arbitrary: i)
  case 0
  then show ?case
    by (subst get_loop.simps) simp
next
  case (Suc d)
  then have "d = 10 - Suc i" "i < 10" "\<forall>j \<ge> Suc i. \<exists>n. (get_turn ops key (views j) :: ('v, 'e) get_result + nat) = Inr n"
    by simp_all
  with Suc.hyps(1) [of "Suc i"] Suc.prems show ?case
    by (subst get_loop.simps) (auto split: sum.splits)
qed

lemma get_turn_Inl:
  assumes "get_turn ops key m = Inl r"
  shows "(r = Ok None \<longrightarrow> read_async ops key m = None) \<and>
    (\<forall>e. r = Ok (Some e) \<longrightarrow> (\<exists>t. e = TokenEntry t \<and> is_ready t \<and> read_async ops key m = Some t)) \<and>
    (\<forall>err. r = Err err \<longrightarrow> (\<exists>t. err = StoreReadError (token_id t) \<and> token_inner t = Failed \<and>
       read_async ops key m = Some t))"
  using assms
  by (auto simp: get_turn_def is_ready_def split: option.splits token_state_inner.splits)

lemma set_complete_entry:
  "set_complete i fut = (st, r) \<Longrightarrow> \<not> is_updating st \<and> (\<forall>e. r = Ok e \<longrightarrow> e = TokenEntry st \<and> is_ready st)"
  by (auto simp: set_complete_def is_ready_def is_updating_def Let_def split: result.splits)

subsection \<open>The invariant\<close>

text \<open>
  Every token being updated has its writer, and whatever a finished task hands out is ready.
\<close>

definition task_ready :: "('k, 'v, 'e) store_task \<Rightarrow> bool" where
  "task_ready t = (case t of
     GetDone (Ok (Some (TokenEntry st))) \<Rightarrow> is_ready st
   | SetNotifying _ (Ok (TokenEntry st)) \<Rightarrow> is_ready st
   | SetDone (Ok (TokenEntry st)) \<Rightarrow> is_ready st
   | _ \<Rightarrow> True)"

definition store_inv :: "('m \<Rightarrow> 'k \<Rightarrow> 'v token_state option) \<Rightarrow> ('k, 'v, 'e, 'm) store_sys \<Rightarrow> bool" where
  "store_inv entries s \<longleftrightarrow>
     (\<forall>k t n. entries (store_map s) k = Some t \<and> token_inner t = Updating n \<longrightarrow>
        SetAwaiting k (token_id t) n \<in> set (tasks s)) \<and>
     list_all task_ready (tasks s)"

lemma read_next_ready:
  fixes ops :: "('k, 'v token_state, 'm) scc_ops"
  shows "task_ready (read_next ops key i m :: ('k, 'v, 'e) store_task)"
proof (cases "get_turn ops key m :: ('v, 'e) get_result + nat")
  case (Inl r)
  with get_turn_Inl [OF Inl] show ?thesis
    by (auto simp: read_next_def task_ready_def split: result.splits option.splits token_entry.splits)
qed (simp add: read_next_def task_ready_def)

lemma check_next_ready: "task_ready (check_next ops key i n m)"
  by (auto simp: check_next_def set_check_def task_ready_def split: option.splits if_splits)

lemma wake_ready: "task_ready (wake n t) = task_ready t"
  by (cases t) (auto simp: task_ready_def)

lemma wake_awaiting: "SetAwaiting k i n \<in> wake m ` set ts \<longleftrightarrow> SetAwaiting k i n \<in> set ts"
proof
  assume "SetAwaiting k i n \<in> wake m ` set ts"
  then obtain t where "t \<in> set ts" "wake m t = SetAwaiting k i n"
    by auto
  moreover from this(2) have "t = SetAwaiting k i n"
    by (cases t) (simp_all split: if_splits)
  ultimately show "SetAwaiting k i n \<in> set ts"
    by simp
qed force

lemma store_inv_task:
  assumes scc: "scc_hash_map ops entries" and step: "store_task_step ops s t" and inv: "store_inv entries s"
  shows "store_inv entries t"
  using step inv
proof (induction rule: store_task_step.induct)
  case (read s ts key i ts')
  then show ?case
    by (auto simp: store_inv_def read_next_ready)
next
  case (create s ts key ts' t c)
  then have "task_ready t"
    by (auto simp: create_next_def task_ready_def split_beta)
  with create show ?case
    by (auto simp: store_inv_def)
next
  case (check s ts key i n ts')
  then show ?case
    by (auto simp: store_inv_def check_next_ready)
next
  case (upsert s ts key i n ts')
  then show ?case
    by (auto simp: store_inv_def scc_hash_map.entries_upsert [OF scc] task_ready_def split: if_splits)
next
  case (notify s ts n r ts')
  then have "task_ready (SetDone r)"
    by (auto simp: store_inv_def task_ready_def split: result.splits token_entry.splits)
  with notify show ?case
    by (auto simp: store_inv_def wake_awaiting list.pred_map comp_def wake_ready)
qed (auto simp: store_inv_def task_ready_def)

lemma store_inv_step:
  assumes scc: "scc_hash_map ops entries" and step: "store_step ops s t" and inv: "store_inv entries s"
  shows "store_inv entries t"
  using step inv
proof (induction rule: store_step.induct)
  case (task s t)
  with store_inv_task [OF scc] show ?case by blast
next
  case (complete s ts key i n ts' fut st r)
  from set_complete_entry [OF complete.hyps(2)] have "token_inner st \<noteq> Updating n'" for n'
    by (auto simp: is_updating_def)
  moreover from set_complete_entry [OF complete.hyps(2)] have "task_ready (SetNotifying n r)"
    by (auto simp: task_ready_def split: result.splits token_entry.splits)
  ultimately show ?case
    using complete
    by (auto simp: store_inv_def set_update_def scc_hash_map.entries_update [OF scc] split: if_splits)
qed (auto simp: store_inv_def task_ready_def)

lemma store_inv_reachable:
  assumes "scc_hash_map ops entries" and "store_reachable ops s"
  shows "store_inv entries s"
  using assms(2)
proof (induction rule: store_reachable.induct)
  case init
  show ?case
    by (simp add: store_inv_def scc_hash_map.entries_with_capacity [OF assms(1)])
next
  case (step s t)
  with store_inv_step [OF assms(1)] show ?case by blast
qed

lemma token_set_read:
  fixes future :: "('c, 'e) result"
  assumes "scc_hash_map ops entries"
    and "token_set ops key future notify counter m = (r, counter', m')"
  shows "if (\<exists>t. entries m key = Some t \<and> is_updating t)
    then (\<exists>i. r = Err (UpdateAlreadyInProgress i)) \<and> m' = m
    else case future of
        Ok v \<Rightarrow> \<exists>e. r = Ok e \<and> token_entry_get e = Some v \<and> (token_get ops key (\<lambda>_. m') :: ('c, 'e) get_result) = Ok (Some e)
      | Err err \<Rightarrow> r = Err (InnerFutureError err) \<and>
          (token_get ops key (\<lambda>_. m') :: ('c, 'e) get_result) = Err (StoreReadError (fst (increment counter)))"
proof (cases "\<exists>t. entries m key = Some t \<and> is_updating t")
  case True
  with assms(2) show ?thesis
    by (auto simp: token_set_def set_check_def token_state_new_def increment_def
        scc_hash_map.get_eq [OF assms(1)])
next
  case False
  then have free: "set_check ops key m = None"
    by (auto simp: set_check_def scc_hash_map.get_eq [OF assms(1)] split: option.splits)
  define st where "st = fst (set_complete (fst (increment counter)) future :: 'c token_state \<times> ('c, 'e) set_result)"
  with assms(2) have st: "set_complete (fst (increment counter)) future = (st, r)"
    and m': "m' = set_update ops key st (upsert_async ops key
      \<lparr>token_id = fst (increment counter), token_inner = Updating notify\<rparr> m)"
    by (auto simp: token_set_def free token_state_new_def Let_def split_beta)
  have "entries m' key = Some st"
    by (simp add: m' set_update_def scc_hash_map.entries_update [OF assms(1)]
        scc_hash_map.entries_upsert [OF assms(1)])
  then have "read_async ops key m' = Some st"
    by (simp add: scc_hash_map.read_eq [OF assms(1)])
  with False st show ?thesis
    by (auto simp: set_complete_def token_get_def get_turn_def Let_def get_loop_done [where views = "\<lambda>_. m'"]
        split: result.splits)
qed

subsection \<open>Properties\<close>

text \<open>
  Storing and reading back.  A writer that is alone and finds no update in progress stores
  what its future returns: a value is then read back as that value by every reader, and a
  failure makes every later read fail with the identifier of the token.  With an update in
  progress the writer is refused and the map stays as it was.
\<close>

theorem token_set_get:
  fixes future :: "('c, 'e) result"
  assumes "scc_hash_map ops entries"
    and "token_set ops key future notify counter m = (r, counter', m')"
  shows "if (\<exists>t. entries m key = Some t \<and> is_updating t)
    then (\<exists>i. r = Err (UpdateAlreadyInProgress i)) \<and> m' = m
    else case future of
        Ok v \<Rightarrow> \<exists>e. r = Ok e \<and> token_entry_get e = Some v \<and> (token_get ops key (\<lambda>_. m') :: ('c, 'e) get_result) = Ok (Some e)
      | Err err \<Rightarrow> r = Err (InnerFutureError err) \<and>
          (token_get ops key (\<lambda>_. m') :: ('c, 'e) get_result) = Err (StoreReadError (fst (increment counter)))"
  using assms by (rule token_set_read)

definition demo_entry :: "bool token_state" where
  "demo_entry = \<lparr>token_id = fst (increment counter_new), token_inner = TokenReady True\<rparr>"

lemma demo_set:
  "token_set map_ops (3 :: nat) (Ok True :: (bool, nat) result) 0 counter_new Map.empty =
     (Ok (TokenEntry demo_entry), snd (increment counter_new), [3 \<mapsto> demo_entry])"
  by (simp add: token_set_def token_state_new_def set_check_def set_complete_def set_update_def
      demo_entry_def Let_def split_beta)

theorem token_set_get_witness:
  "token_set map_ops (3 :: nat) (Ok True :: (bool, nat) result) 0 counter_new Map.empty =
     (Ok (TokenEntry demo_entry), snd (increment counter_new), [3 \<mapsto> demo_entry]) \<and>
   token_entry_get (TokenEntry demo_entry) = Some True \<and>
   (token_get map_ops (3 :: nat) (\<lambda>_. [3 \<mapsto> demo_entry]) :: (bool, nat) get_result) =
     Ok (Some (TokenEntry demo_entry))"
  using demo_set token_set_get [OF map_scc.scc_hash_map_axioms demo_set] by simp

text \<open>
  C31: tokens under update.  In every state the store can reach, with any number of readers and
  writers, a token that is being updated has a writer whose future is still running, and every
  entry handed out by a finished operation is ready, so reading its value never panics.
\<close>

theorem store_updating_owned:
  assumes "scc_hash_map ops entries" and "store_reachable ops s"
  shows "(\<forall>k t n. entries (store_map s) k = Some t \<and> token_inner t = Updating n \<longrightarrow>
       SetAwaiting k (token_id t) n \<in> set (tasks s)) \<and>
    (\<forall>e. GetDone (Ok (Some e)) \<in> set (tasks s) \<or> SetDone (Ok e) \<in> set (tasks s) \<longrightarrow>
       (\<exists>v. token_entry_get e = Some v))"
proof -
  from store_inv_reachable [OF assms]
  have own: "\<forall>k t n. entries (store_map s) k = Some t \<and> token_inner t = Updating n \<longrightarrow>
       SetAwaiting k (token_id t) n \<in> set (tasks s)"
    and ready: "\<forall>t \<in> set (tasks s). task_ready t"
    by (auto simp: store_inv_def list_all_iff)
  have "\<exists>v. token_entry_get e = Some v"
    if "GetDone (Ok (Some e)) \<in> set (tasks s) \<or> SetDone (Ok e) \<in> set (tasks s)" for e
  proof -
    obtain st where e: "e = TokenEntry st" by (cases e)
    with that ready have "is_ready st"
      by (auto simp: task_ready_def)
    with e show ?thesis
      by (auto simp: is_ready_def split: token_state_inner.splits)
  qed
  with own show ?thesis by blast
qed

text \<open>A run of the reference instance in which a writer is waiting for its future.\<close>

definition demo_store :: "(nat, bool, nat, nat \<rightharpoonup> bool token_state) store_sys" where
  "demo_store = \<lparr>store_map = [3 \<mapsto> \<lparr>token_id = fst (increment counter_new), token_inner = Updating 0\<rparr>],
     store_counter = snd (increment counter_new), next_notify = 1,
     tasks = [SetAwaiting 3 (fst (increment counter_new)) 0]\<rparr>"

lemma demo_store_reachable: "store_reachable map_ops demo_store"
proof -
  let ?s = "\<lambda>m c n ts. \<lparr>store_map = m, store_counter = c, next_notify = n, tasks = ts\<rparr>
    :: (nat, bool, nat, nat \<rightharpoonup> bool token_state) store_sys"
  let ?i = "fst (increment counter_new)" and ?c = "snd (increment counter_new)"
  have "store_reachable map_ops (?s Map.empty counter_new 0 [])"
    using store_reachable.init [of "map_ops :: (nat, bool token_state, _) scc_ops"] by simp
  then have "store_reachable map_ops (?s Map.empty counter_new 0 [SetStarted 3])"
    by (rule store_reachable.step)
      (use store_step.start_set [of map_ops "?s Map.empty counter_new 0 []" 3] in simp)
  then have "store_reachable map_ops (?s Map.empty ?c 1 [SetChecking 3 ?i 0])"
    by (rule store_reachable.step)
      (use store_step_create [of "?s Map.empty counter_new 0 [SetStarted 3]" "[]" 3 "[]"
          "SetChecking 3 ?i 0" ?c map_ops] in
        \<open>simp add: create_next_def token_state_new_def split_beta\<close>)
  then have "store_reachable map_ops (?s Map.empty ?c 1 [SetUpserting 3 ?i 0])"
    by (rule store_reachable.step)
      (use store_step_check [of "?s Map.empty ?c 1 [SetChecking 3 ?i 0]" "[]" 3 ?i 0 "[]" map_ops] in
        \<open>simp add: check_next_def set_check_def\<close>)
  then have "store_reachable map_ops (?s [3 \<mapsto> \<lparr>token_id = ?i, token_inner = Updating 0\<rparr>] ?c 1
      [SetAwaiting 3 ?i 0])"
    by (rule store_reachable.step)
      (use store_step_upsert [of "?s Map.empty ?c 1 [SetUpserting 3 ?i 0]" "[]" 3 ?i 0 "[]" map_ops] in simp)
  then show ?thesis
    by (simp add: demo_store_def)
qed

theorem store_updating_owned_witness:
  "store_reachable map_ops demo_store \<and>
   store_map demo_store 3 = Some \<lparr>token_id = fst (increment counter_new), token_inner = Updating 0\<rparr> \<and>
   SetAwaiting 3 (fst (increment counter_new)) 0 \<in> set (tasks demo_store)"
proof -
  have entry: "store_map demo_store 3 = Some \<lparr>token_id = fst (increment counter_new), token_inner = Updating 0\<rparr>"
    by (simp add: demo_store_def)
  with store_updating_owned [OF map_scc.scc_hash_map_axioms demo_store_reachable]
  have "SetAwaiting 3 (fst (increment counter_new)) 0 \<in> set (tasks demo_store)"
    by (metis token_state.select_convs)
  with entry demo_store_reachable show ?thesis by simp
qed

subsection \<open>Waiting for a notification that has been sent\<close>

text \<open>The writers that still own a notification.\<close>

fun holds_notify :: "nat \<Rightarrow> ('k, 'v, 'e) store_task \<Rightarrow> bool" where
  "holds_notify n (SetChecking _ _ m) = (m = n)"
| "holds_notify n (SetUpserting _ _ m) = (m = n)"
| "holds_notify n (SetAwaiting _ _ m) = (m = n)"
| "holds_notify n (SetNotifying m _) = (m = n)"
| "holds_notify n _ = False"

definition unowned :: "nat \<Rightarrow> ('k, 'v, 'e, 'm) store_sys \<Rightarrow> bool" where
  "unowned n s \<longleftrightarrow> n < next_notify s \<and> (\<forall>t \<in> set (tasks s). \<not> holds_notify n t)"

lemma wake_holds [simp]: "holds_notify n (wake m t) = holds_notify n t"
  by (cases t) auto

lemma read_next_holds [simp]: "\<not> holds_notify n (read_next ops key i m)"
  by (simp add: read_next_def split: sum.splits)

lemma unowned_task:
  assumes "store_task_step ops s t" and "unowned n s"
  shows "unowned n t"
  using assms
proof (induction rule: store_task_step.induct)
  case (create s ts key ts' t c)
  then have "\<not> holds_notify n t"
    by (auto simp: create_next_def unowned_def split_beta)
  with create show ?case
    by (auto simp: unowned_def)
next
  case (check s ts key i m ts')
  then have "m \<noteq> n"
    by (auto simp: unowned_def)
  then have "\<not> holds_notify n (check_next ops key i m (store_map s))"
    by (simp add: check_next_def split: option.splits)
  with check show ?case
    by (auto simp: unowned_def)
qed (auto simp: unowned_def)

lemma unowned_step:
  assumes "store_step ops s t" and "unowned n s"
  shows "unowned n t"
  using assms
  by (induction rule: store_step.induct) (auto simp: unowned_task, auto simp: unowned_def)

lemma parked_task:
  assumes "store_task_step ops s t" and "unowned n s"
    and "p < length (tasks s)" and "tasks s ! p = Parked key i n"
  shows "p < length (tasks t) \<and> tasks t ! p = Parked key i n"
  using assms
proof (induction rule: store_task_step.induct)
  case (notify s ts m r ts')
  then have "m \<noteq> n"
    by (auto simp: unowned_def)
  with notify show ?case
    by (auto simp: nth_append nth_Cons split: nat.splits if_splits)
qed (auto simp: nth_append nth_Cons split: nat.splits if_splits)

lemma parked_step:
  assumes "store_step ops s t" and "unowned n s"
    and "p < length (tasks s)" and "tasks s ! p = Parked key i n"
  shows "p < length (tasks t) \<and> tasks t ! p = Parked key i n"
  using assms
proof (induction rule: store_step.induct)
  case (task s t)
  show ?case
    by (rule parked_task [OF task.hyps task.prems])
qed (auto simp: nth_append nth_Cons split: nat.splits if_splits)

lemma parked_forever:
  assumes "(store_step ops)\<^sup>*\<^sup>* s t" and "unowned n s"
    and "p < length (tasks s)" and "tasks s ! p = Parked key i n"
  shows "p < length (tasks t) \<and> tasks t ! p = Parked key i n"
proof -
  have "unowned n t \<and> p < length (tasks t) \<and> tasks t ! p = Parked key i n"
    using assms(1)
  proof (induction rule: rtranclp_induct)
    case base
    with assms(2-) show ?case by simp
  next
    case (step u v)
    with unowned_step [OF step.hyps(2)] parked_step [OF step.hyps(2)] show ?case by blast
  qed
  then show ?thesis by simp
qed

text \<open>
  C32: the lost wake-up.  A reader takes the notification out of the map and only then starts to
  wait for it.  When the writer has finished in between, the reader waits for a notification
  that nobody will send: it is parked in every later state, whatever the other tasks do,
  although the token may be ready in the map.
\<close>

theorem lost_wakeup:
  assumes "tasks s = ts @ HasRead key i n # ts'" and "unowned n s"
  shows "\<exists>s'. store_step ops s s' \<and>
    (\<forall>t. (store_step ops)\<^sup>*\<^sup>* s' t \<longrightarrow> tasks t ! length ts = Parked key i n)"
proof -
  let ?s = "s\<lparr>tasks := ts @ Parked key i n # ts'\<rparr>"
  from assms have "store_step ops s ?s" "unowned n ?s"
    by (auto intro: store_step_park simp: unowned_def)
  moreover from this(2) have "tasks t ! length ts = Parked key i n"
    if "(store_step ops)\<^sup>*\<^sup>* ?s t" for t
    using parked_forever [OF that, of n "length ts" key i] by simp
  ultimately show ?thesis by blast
qed

text \<open>The run of \<open>demo_store\<close> continued: a reader reads, the writer finishes, the reader waits.\<close>

definition demo_lost :: "(nat, bool, nat, nat \<rightharpoonup> bool token_state) store_sys" where
  "demo_lost = demo_store\<lparr>store_map := [3 \<mapsto> demo_entry],
     tasks := [SetDone (Ok (TokenEntry demo_entry)), HasRead 3 1 0]\<rparr>"

lemma demo_lost_reachable: "store_reachable map_ops demo_lost"
proof -
  let ?w = "SetAwaiting 3 (fst (increment counter_new)) 0"
  let ?s = "\<lambda>ts. demo_store\<lparr>tasks := ts\<rparr>"
  have "store_reachable map_ops (?s [?w, Reading 3 1])"
    using store_reachable.step [OF demo_store_reachable store_step.start_get [of map_ops demo_store 3]]
    by (simp add: demo_store_def)
  then have "store_reachable map_ops (?s [?w, HasRead 3 1 0])"
    by (rule store_reachable.step)
      (use store_step_read [of "?s [?w, Reading 3 1]" "[?w]" 3 1 "[]" map_ops] in
        \<open>simp add: demo_store_def read_next_def get_turn_def\<close>)
  then have "store_reachable map_ops (demo_store\<lparr>store_map := [3 \<mapsto> demo_entry],
      tasks := [SetNotifying 0 (Ok (TokenEntry demo_entry)), HasRead 3 1 0]\<rparr>)"
    by (rule store_reachable.step)
      (use store_step.complete [of "?s [?w, HasRead 3 1 0]" "[]" 3 "fst (increment counter_new)" 0
          "[HasRead 3 1 0]" "Ok True" demo_entry "Ok (TokenEntry demo_entry)" map_ops] in
        \<open>simp add: demo_store_def demo_entry_def set_complete_def set_update_def Let_def\<close>)
  then show ?thesis
    unfolding demo_lost_def
    by (rule store_reachable.step)
      (use store_step_notify [of "demo_store\<lparr>store_map := [3 \<mapsto> demo_entry],
          tasks := [SetNotifying 0 (Ok (TokenEntry demo_entry)), HasRead 3 1 0]\<rparr>" "[]" 0
          "Ok (TokenEntry demo_entry)" "[HasRead 3 1 0]" map_ops] in simp)
qed

theorem lost_wakeup_witness:
  "store_reachable map_ops demo_lost \<and> store_map demo_lost 3 = Some demo_entry \<and> is_ready demo_entry \<and>
   (\<exists>s'. store_step map_ops demo_lost s' \<and>
     (\<forall>t. (store_step map_ops)\<^sup>*\<^sup>* s' t \<longrightarrow> tasks t ! 1 = Parked 3 1 0))"
proof -
  have "tasks demo_lost = [SetDone (Ok (TokenEntry demo_entry))] @ HasRead 3 1 0 # []" "unowned 0 demo_lost"
    by (simp_all add: demo_lost_def demo_store_def unowned_def)
  from lost_wakeup [OF this, of map_ops] demo_lost_reachable show ?thesis
    by (simp add: demo_lost_def demo_entry_def is_ready_def)
qed

text \<open>
  The check of a writer and its insertion are two operations: two writers that both checked
  first update one key at the same time, and neither is refused.
\<close>

lemma writers_race:
  assumes "scc_hash_map ops entries" and "entries (store_map s) key = None"
    and "tasks s = [SetChecking key i n, SetChecking key j m]"
  shows "\<exists>t. (store_step ops)\<^sup>*\<^sup>* s t \<and> tasks t = [SetAwaiting key i n, SetAwaiting key j m]"
proof -
  have free: "check_next ops key i' n' (store_map s) = SetUpserting key i' n'" for i' n'
    using assms(2) by (simp add: check_next_def set_check_def scc_hash_map.get_eq [OF assms(1)])
  let ?a = "s\<lparr>tasks := [SetUpserting key i n, SetChecking key j m]\<rparr>"
  let ?b = "s\<lparr>tasks := [SetUpserting key i n, SetUpserting key j m]\<rparr>"
  let ?c = "s\<lparr>store_map := upsert_async ops key \<lparr>token_id = i, token_inner = Updating n\<rparr> (store_map s),
    tasks := [SetAwaiting key i n, SetUpserting key j m]\<rparr>"
  let ?d = "?c\<lparr>store_map := upsert_async ops key \<lparr>token_id = j, token_inner = Updating m\<rparr> (store_map ?c),
    tasks := [SetAwaiting key i n, SetAwaiting key j m]\<rparr>"
  have "store_step ops s ?a"
    using store_step_check [of s "[]" key i n "[SetChecking key j m]" ops] assms(3) by (simp add: free)
  moreover have "store_step ops ?a ?b"
    using store_step_check [of ?a "[SetUpserting key i n]" key j m "[]" ops] by (simp add: free)
  moreover have "store_step ops ?b ?c"
    using store_step_upsert [of ?b "[]" key i n "[SetUpserting key j m]" ops] by simp
  moreover have "store_step ops ?c ?d"
    using store_step_upsert [of ?c "[SetAwaiting key i n]" key j m "[]" ops] by simp
  ultimately have "(store_step ops)\<^sup>*\<^sup>* s ?d"
    by (meson converse_rtranclp_into_rtranclp rtranclp.rtrancl_refl)
  then show ?thesis
    by (intro exI [where x = ?d]) simp
qed

text \<open>A reader that has waited nine times is answered as if there were no token.\<close>

lemma token_get_gives_up:
  assumes "\<forall>j. \<exists>n. (get_turn ops key (views j) :: ('v, 'e) get_result + nat) = Inr n"
  shows "(token_get ops key views :: ('v, 'e) get_result) = Ok None"
  using assms by (simp add: token_get_def get_loop_waits)

end
