(* ===== verification/Amf_System.thy ===== *)
theory Amf_System
  imports Ngap_Controller
begin

text \<open>
  The AMF with all its connections and all the tasks its message loops have spawned.
  \<open>Ngap_Controller\<close> runs the task of a message in one step; here the tasks of every gNB are
  interleaved with each other, with the connections and with the accept loop, at the
  granularity of \<open>Initial_Ue\<close>.  The first group of lemmas shows that the registry of gNBs and
  the UE tables of all of them keep their invariants together; the second that the coarse steps
  are schedules of the fine ones; the third follows one connection through its life.
\<close>

subsection \<open>Connections and message tasks\<close>

text \<open>A task carries the address of the gNB context it was given.\<close>

record ('r, 'x, 's, 'a, 'l, 'gm, 'um) par_sys =
  par_amf :: "('r, 'x, 's, 'a, 'l, 'gm, 'um) amf_sys"
  par_tasks :: "(nat \<times> 'x ue_task) list"

text \<open>
  The task \<open>run_ngap_loop\<close> spawns for a message.  Messages other than the initial UE message
  are answered without touching a context, so only that one is kept.
\<close>

definition spawn_task ::
  "('r, 'x, 's, 'a, 'io, 'gm, 'um) amf_env \<Rightarrow> nat \<Rightarrow> bytes \<Rightarrow> (nat \<times> 'x ue_task) list" where
  "spawn_task env a message =
     (case decode_ngap_pdu (ngap env) message of
        Ok (InitiatingMessage (InitialUeMessage pdu)) \<Rightarrow> [(a, Started pdu)]
      | _ \<Rightarrow> [])"

fun delivers :: "('r, 'x, 's, 'a, 'um) conn \<Rightarrow> (nat \<times> bytes, 'io) result \<Rightarrow> bool" where
  "delivers (Running a) recvmsg = (case read_data recvmsg of Ok (Some _) \<Rightarrow> True | _ \<Rightarrow> False)"
| "delivers c recvmsg = False"

definition with_gnb ::
  "nat \<Rightarrow> ('r, 'x, 's, 'a, 'um) gnb_context \<Rightarrow> ('r, 'x, 's, 'a, 'l, 'gm, 'um) amf_sys \<Rightarrow>
     ('r, 'x, 's, 'a, 'l, 'gm, 'um) amf_sys" where
  "with_gnb a gnb s =
     s\<lparr>amf_registry := (amf_registry s)\<lparr>gnb_store := (gnb_store (amf_registry s))(a \<mapsto> gnb)\<rparr>\<rparr>"

inductive par_step ::
  "('r, 'x, 's, 'a, 'io, 'gm, 'um) amf_env \<Rightarrow> ('u, 'x) app_configuration \<Rightarrow>
     ('r, 'x, 's, 'a, 'l, 'gm, 'um) par_sys \<Rightarrow> ('r, 'x, 's, 'a, 'l, 'gm, 'um) par_sys \<Rightarrow> bool"
  for env config where
  par_accept: "par_step env config s (s\<lparr>par_amf := run_accept env ans (par_amf s)\<rparr>)"
| par_conn: "amf_conns (par_amf s) = cs @ c # cs' \<Longrightarrow> \<not> delivers c recvmsg \<Longrightarrow>
    conn_step env config recvmsg c (amf_registry (par_amf s)) = (c', reg) \<Longrightarrow>
    par_step env config s
      (s\<lparr>par_amf := (par_amf s)\<lparr>amf_registry := reg, amf_conns := cs @ c' # cs'\<rparr>\<rparr>)"
| par_message: "Running a \<in> set (amf_conns (par_amf s)) \<Longrightarrow>
    read_data (recvmsg :: (nat \<times> bytes, 'io) result) = Ok (Some message) \<Longrightarrow>
    par_step env config s (s\<lparr>par_tasks := par_tasks s @ spawn_task env a message\<rparr>)"
| par_task: "par_tasks s = ps @ (a, p) # ps' \<Longrightarrow>
    gnb_store (amf_registry (par_amf s)) a = Some gnb \<Longrightarrow> task_step env a p gnb = (p', gnb') \<Longrightarrow>
    par_step env config s
      \<lparr>par_amf = with_gnb a gnb' (par_amf s), par_tasks = ps @ (a, p') # ps'\<rparr>"

inductive_cases par_stepE: "par_step env config s t"

inductive par_steps ::
  "('r, 'x, 's, 'a, 'io, 'gm, 'um) amf_env \<Rightarrow> ('u, 'x) app_configuration \<Rightarrow>
     ('r, 'x, 's, 'a, 'l, 'gm, 'um) par_sys \<Rightarrow> ('r, 'x, 's, 'a, 'l, 'gm, 'um) par_sys \<Rightarrow> bool"
  for env config where
  par_start: "par_steps env config s s"
| par_next: "par_steps env config s t \<Longrightarrow> par_step env config t u \<Longrightarrow> par_steps env config s u"

definition par_new ::
  "('r, 'x, 's, 'a, 'io, 'gm, 'um) amf_env \<Rightarrow> ('l, 's, 'a) network \<Rightarrow>
     ('r, 'x, 's, 'a, 'l, 'gm, 'um) par_sys" where
  "par_new env net = \<lparr>par_amf = ngap_context_new env net, par_tasks = []\<rparr>"

subsection \<open>The tasks of one gNB\<close>

definition tasks_of :: "nat \<Rightarrow> (nat \<times> 'x ue_task) list \<Rightarrow> 'x ue_task list" where
  "tasks_of a ts = map snd (filter (\<lambda>t. fst t = a) ts)"

lemma tasks_of_simps [simp]:
  "tasks_of a [] = []"
  "tasks_of a (t # ts) = (if fst t = a then snd t # tasks_of a ts else tasks_of a ts)"
  "tasks_of a (ts @ us) = tasks_of a ts @ tasks_of a us"
  by (simp_all add: tasks_of_def)

lemma length_tasks_of: "length (tasks_of a ts) \<le> length ts"
  by (simp add: tasks_of_def)

lemma set_tasks_of: "p \<in> set (tasks_of a ts) \<longleftrightarrow> (a, p) \<in> set ts"
  by (force simp: tasks_of_def)

lemma tasks_of_none: "\<forall>t \<in> set ts. fst t \<noteq> a \<Longrightarrow> tasks_of a ts = []"
  by (simp add: tasks_of_def filter_empty_conv)

text \<open>Every context refers to the gNB in whose table it is, or in whose task it was built.\<close>

definition refs_ok :: "nat \<Rightarrow> (ran_ue_ngap_id \<Rightarrow> 'x ue_context option) \<Rightarrow> 'x ue_task list \<Rightarrow> bool" where
  "refs_ok a tab ps \<longleftrightarrow> (\<forall>i c. tab i = Some c \<longrightarrow> gnb_context_ref c = a) \<and>
     (\<forall>req ue. Built req ue \<in> set ps \<longrightarrow> gnb_context_ref ue = a)"

lemma refs_ok_built: "refs_ok a tab (ps @ Built req ue # ps') \<Longrightarrow> gnb_context_ref ue = a"
  unfolding refs_ok_def by (meson in_set_conv_decomp)

lemma refs_ok_task:
  assumes scc: "scc_hash_map (ue_ops env) entries"
    and inv: "ue_inv entries \<lparr>sys_gnb = gnb, sys_tasks = ps @ p # ps'\<rparr>"
    and refs: "refs_ok a (ue_table entries gnb) (ps @ p # ps')"
    and step: "task_step env a p gnb = (p', gnb')"
  shows "refs_ok a (ue_table entries gnb') (ps @ p' # ps')"
proof -
  from inv have mgr: "manager_inv entries (ue_context_manager gnb)"
    and ok: "task_ok (ue_table entries gnb) p"
    by (simp_all add: ue_inv_def)
  show ?thesis
  proof (cases p)
    case (Started req)
    with step refs show ?thesis
      by (auto simp: refs_ok_def split: option.splits)
  next
    case (Checked req)
    obtain r g where build: "iu_build env a req gnb = (r, g)"
      by force
    with Checked step refs iu_build_effect [OF build] show ?thesis
      by (auto simp: refs_ok_def split: option.splits)
  next
    case (Built req ue)
    obtain r g where add: "iu_add env ue gnb = (r, g)"
      by force
    have ref: "gnb_context_ref ue = a"
      by (rule refs_ok_built) (use refs Built in simp)
    show ?thesis
    proof (cases "ue_table entries gnb (ran_ue_ngap_id ue)")
      case None
      note added = iu_add_vacant [OF scc mgr None add]
      with Built add step have "gnb' = g" and "p' = Registered req"
        by auto
      with added refs ref show ?thesis
        by (simp add: refs_ok_def)
    next
      case (Some c)
      note refused = iu_add_occupied [OF scc mgr Some add]
      with Built add step have "gnb' = g" and "p' = TaskPanicked req"
        by auto
      with refused refs show ?thesis
        by (simp add: refs_ok_def)
    qed
  next
    case (Registered req)
    obtain r g where w: "iu_with env req gnb = (r, g)"
      by force
    from Registered ok obtain c where "ue_table entries gnb (iu_ran_ue_ngap_id req) = Some c"
      by auto
    note ran = iu_with_known [OF scc mgr this w]
    with Registered w step have "gnb' = g" and "p' = Finished req (Ok EmptyResponse)"
      by auto
    with ran refs show ?thesis
      by (simp add: refs_ok_def)
  qed (use step refs in auto)
qed

lemma task_step_id:
  "task_step env a p gnb = (p', gnb') \<Longrightarrow> global_ran_node_id gnb' = global_ran_node_id gnb"
  by (cases p) (auto split: prod.splits option.splits dest: iu_pieces_id)

text \<open>A context without UEs, as NG Setup leaves it.\<close>

definition gnb_fresh ::
  "('r, 'x, 's, 'a, 'io, 'gm, 'um) amf_env \<Rightarrow> ('r, 'x, 's, 'a, 'um) gnb_context \<Rightarrow> bool" where
  "gnb_fresh env gnb \<longleftrightarrow> ue_context_manager gnb = context_manager_new (ue_ops env) \<and>
     amf_ue_id_generator gnb = counter_new"

lemma gnb_fresh_inv:
  assumes "scc_hash_map (ue_ops env) entries" and "gnb_fresh env gnb"
  shows "ue_inv entries \<lparr>sys_gnb = gnb, sys_tasks = []\<rparr> \<and> refs_ok a (ue_table entries gnb) []"
proof -
  have "ue_table entries gnb = Map.empty"
    using assms scc_hash_map.entries_new [OF assms(1)]
    by (auto simp: contexts_def context_manager_new_def gnb_fresh_def fun_eq_iff)
  then show ?thesis
    using assms(2) arc_table.manager_inv_new [OF arc_table.intro [OF assms(1)]]
    by (simp add: ue_inv_def table_ok_def ids_ok_def refs_ok_def gnb_fresh_def)
      (simp add: counter_new_def)
qed

lemma try_ng_setup_fresh:
  assumes "fst (try_ng_setup env config gnbs recvmsg tnla) = Some (Ok gnb)"
  shows "gnb_fresh env gnb"
proof -
  obtain wire where "try_ng_setup env config gnbs recvmsg tnla = (Some (Ok gnb), wire)"
    using assms by (cases "try_ng_setup env config gnbs recvmsg tnla") simp
  then obtain n buf pdu where
    "setup_answer env config gnbs buf (gnb_context_new env tnla) = Some (Ok gnb, pdu)"
    by (rule try_ng_setup_success)
  then obtain req resp where
    "handle_ng_setup env config gnbs req (gnb_context_new env tnla) = (Some (Ok resp), gnb)"
    by (rule setup_answer_success)
  then show ?thesis
    by (auto simp: handle_ng_setup_def gnb_fresh_def gnb_context_new_def Let_def
        split: if_splits result.splits)
qed

subsection \<open>The invariant of the whole AMF\<close>

definition par_inv ::
  "('r, 'x, 's, 'a, 'io, 'gm, 'um) amf_env \<Rightarrow> ('gm \<Rightarrow> 'r \<Rightarrow> nat option) \<Rightarrow>
     ('um \<Rightarrow> ran_ue_ngap_id \<Rightarrow> nat option) \<Rightarrow> ('r, 'x, 's, 'a, 'l, 'gm, 'um) par_sys \<Rightarrow> bool" where
  "par_inv env gentries uentries s \<longleftrightarrow>
     registry_inv gentries (amf_registry (par_amf s)) (amf_conns (par_amf s)) \<and>
     (\<forall>a gnb. gnb_store (amf_registry (par_amf s)) a = Some gnb \<longrightarrow>
        ue_inv uentries \<lparr>sys_gnb = gnb, sys_tasks = tasks_of a (par_tasks s)\<rparr> \<and>
        refs_ok a (ue_table uentries gnb) (tasks_of a (par_tasks s))) \<and>
     (\<forall>t \<in> set (par_tasks s). gnb_store (amf_registry (par_amf s)) (fst t) \<noteq> None) \<and>
     (\<forall>gnb. Answered gnb \<in> set (amf_conns (par_amf s)) \<longrightarrow> gnb_fresh env gnb)"

lemma par_invD:
  assumes "par_inv env gentries uentries s"
  shows "registry_inv gentries (amf_registry (par_amf s)) (amf_conns (par_amf s))"
    and "gnb_store (amf_registry (par_amf s)) a = Some gnb \<Longrightarrow>
      ue_inv uentries \<lparr>sys_gnb = gnb, sys_tasks = tasks_of a (par_tasks s)\<rparr>"
    and "gnb_store (amf_registry (par_amf s)) a = Some gnb \<Longrightarrow>
      refs_ok a (ue_table uentries gnb) (tasks_of a (par_tasks s))"
    and "t \<in> set (par_tasks s) \<Longrightarrow> gnb_store (amf_registry (par_amf s)) (fst t) \<noteq> None"
    and "Answered g \<in> set (amf_conns (par_amf s)) \<Longrightarrow> gnb_fresh env g"
  using assms unfolding par_inv_def by blast+

text \<open>What a step of a connection that delivers no message does to the contexts.\<close>

lemma conn_step_store:
  assumes "conn_step env config recvmsg c reg = (c', reg')" and "\<not> delivers c recvmsg"
  shows "gnb_store reg' = gnb_store reg \<or>
    (\<exists>gnb. c = Answered gnb \<and> gnb_store reg' = (gnb_store reg)(next_gnb reg \<mapsto> gnb))"
proof (cases c)
  case (Answered gnb)
  then show ?thesis
    using assms(1) by (auto simp: register_gnb_def Let_def split: prod.splits result.splits)
qed (use assms in \<open>auto simp: close_ran_connection_def split: option.splits result.splits if_splits\<close>)

lemma conn_step_answered:
  assumes "conn_step env config recvmsg c reg = (Answered gnb, reg')"
  shows "gnb_fresh env gnb"
proof (cases c)
  case (SettingUp tnla k)
  with assms show ?thesis
    by (auto intro: try_ng_setup_fresh split: option.splits result.splits if_splits)
qed (use assms in \<open>auto split: option.splits result.splits prod.splits\<close>)

lemma par_inv_conn:
  assumes scc: "scc_hash_map (gnb_ops env) gentries" "scc_hash_map (ue_ops env) uentries"
    and inv: "par_inv env gentries uentries s"
    and conns: "amf_conns (par_amf s) = cs @ c # cs'" and idle: "\<not> delivers c recvmsg"
    and step: "conn_step env config recvmsg c (amf_registry (par_amf s)) = (c', reg)"
  shows "par_inv env gentries uentries
    (s\<lparr>par_amf := (par_amf s)\<lparr>amf_registry := reg, amf_conns := cs @ c' # cs'\<rparr>\<rparr>)"
proof -
  let ?reg = "amf_registry (par_amf s)"
  note i = par_invD [OF inv]
  have regi: "registry_inv gentries ?reg (cs @ c # cs')"
    using i(1) conns by simp
  from registry_inv_conn [OF scc(1) regi step] have "registry_inv gentries reg (cs @ c' # cs')" .
  moreover have "gnb_fresh env gnb" if "Answered gnb \<in> set (cs @ c' # cs')" for gnb
    using that i(5) conn_step_answered [of env config recvmsg c ?reg gnb reg] step
    by (auto simp: conns)
  moreover have "(\<forall>a gnb. gnb_store reg a = Some gnb \<longrightarrow>
        ue_inv uentries \<lparr>sys_gnb = gnb, sys_tasks = tasks_of a (par_tasks s)\<rparr> \<and>
        refs_ok a (ue_table uentries gnb) (tasks_of a (par_tasks s))) \<and>
      (\<forall>t \<in> set (par_tasks s). gnb_store reg (fst t) \<noteq> None)"
    using conn_step_store [OF step idle]
  proof
    assume "gnb_store reg = gnb_store ?reg"
    with i(2-4) show ?thesis by simp
  next
    assume "\<exists>gnb. c = Answered gnb \<and> gnb_store reg = (gnb_store ?reg)(next_gnb ?reg \<mapsto> gnb)"
    then obtain gnb where c: "c = Answered gnb" and st: "gnb_store reg = (gnb_store ?reg)(next_gnb ?reg \<mapsto> gnb)"
      by blast
    have "gnb_store ?reg (next_gnb ?reg) = None"
      using regi unfolding registry_inv_def by blast
    with i(4) have "tasks_of (next_gnb ?reg) (par_tasks s) = []"
      by (intro tasks_of_none) metis
    moreover have "gnb_fresh env gnb"
      using i(5) conns c by simp
    ultimately show ?thesis
      using i(2-4) gnb_fresh_inv [OF scc(2)] by (simp add: st)
  qed
  ultimately show ?thesis
    by (simp add: par_inv_def)
qed

lemma ue_inv_arrive:
  "ue_inv entries \<lparr>sys_gnb = gnb, sys_tasks = ps\<rparr> \<Longrightarrow>
     ue_inv entries \<lparr>sys_gnb = gnb, sys_tasks = ps @ [Started req]\<rparr>"
  by (simp add: ue_inv_def ids_ok_def)

lemma refs_ok_arrive: "refs_ok a tab ps \<Longrightarrow> refs_ok a tab (ps @ [Started req])"
  by (simp add: refs_ok_def)

lemma par_inv_message:
  assumes inv: "par_inv env gentries uentries s" and run: "Running a \<in> set (amf_conns (par_amf s))"
  shows "par_inv env gentries uentries (s\<lparr>par_tasks := par_tasks s @ spawn_task env a message\<rparr>)"
proof -
  note i = par_invD [OF inv]
  have "a \<in> set (live_addrs (amf_conns (par_amf s)))"
    using run by (force simp: live_addrs_def)
  with i(1) have "gnb_store (amf_registry (par_amf s)) a \<noteq> None"
    unfolding registry_inv_def by auto
  moreover have "spawn_task env a message = [] \<or> (\<exists>req. spawn_task env a message = [(a, Started req)])"
    by (auto simp: spawn_task_def split: result.splits ngap_pdu.splits initiating_message.splits)
  ultimately show ?thesis
    using i by (auto simp: par_inv_def ue_inv_arrive refs_ok_arrive)
qed

lemma par_inv_task:
  assumes scc: "scc_hash_map (ue_ops env) uentries" and inv: "par_inv env gentries uentries s"
    and bound: "length (par_tasks s) < 2 ^ 64 - 1"
    and tasks: "par_tasks s = ps @ (a, p) # ps'" and gnb: "gnb_store (amf_registry (par_amf s)) a = Some gnb"
    and step: "task_step env a p gnb = (p', gnb')"
  shows "par_inv env gentries uentries \<lparr>par_amf = with_gnb a gnb' (par_amf s), par_tasks = ps @ (a, p') # ps'\<rparr>"
proof -
  note i = par_invD [OF inv]
  have of_a: "tasks_of a (par_tasks s) = tasks_of a ps @ p # tasks_of a ps'"
    by (simp add: tasks)
  have "length (tasks_of a ps @ p # tasks_of a ps') < 2 ^ 64 - 1"
    using length_tasks_of [of a "par_tasks s"] bound unfolding of_a by linarith
  with i(2) [OF gnb] have "ue_inv uentries \<lparr>sys_gnb = gnb', sys_tasks = tasks_of a ps @ p' # tasks_of a ps'\<rparr>"
    unfolding of_a by (rule ue_inv_task [OF scc _ _ step])
  moreover have "refs_ok a (ue_table uentries gnb') (tasks_of a ps @ p' # tasks_of a ps')"
    using refs_ok_task [OF scc i(2) [OF gnb, unfolded of_a] i(3) [OF gnb, unfolded of_a] step] .
  moreover have "ue_inv uentries \<lparr>sys_gnb = g, sys_tasks = tasks_of b ps @ tasks_of b ps'\<rparr> \<and>
      refs_ok b (ue_table uentries g) (tasks_of b ps @ tasks_of b ps')"
    if "b \<noteq> a" "gnb_store (amf_registry (par_amf s)) b = Some g" for b g
    using i(2) [OF that(2)] i(3) [OF that(2)] that(1) by (simp add: tasks)
  moreover have "registry_inv gentries (amf_registry (with_gnb a gnb' (par_amf s))) (amf_conns (par_amf s))"
    using registry_inv_message [OF i(1) gnb task_step_id [OF step]] by (simp add: with_gnb_def)
  ultimately show ?thesis
    using i(4,5) by (auto simp: par_inv_def with_gnb_def tasks)
qed

lemma par_inv_step:
  assumes "scc_hash_map (gnb_ops env) gentries" "scc_hash_map (ue_ops env) uentries"
    and "par_inv env gentries uentries s" and "par_step env config s t"
    and "length (par_tasks s) < 2 ^ 64 - 1"
  shows "par_inv env gentries uentries t"
  using assms(4)
proof cases
  case (par_accept ans)
  have "amf_registry (run_accept env ans (par_amf s)) = amf_registry (par_amf s)"
    "Answered g \<in> set (amf_conns (run_accept env ans (par_amf s))) \<longleftrightarrow> Answered g \<in> set (amf_conns (par_amf s))" for g
    by (auto simp: run_accept_def split_beta split: result.splits)
  with par_accept assms(3) registry_inv_accept [of gentries "par_amf s" env ans] show ?thesis
    by (simp add: par_inv_def)
qed (use assms in \<open>simp_all add: par_inv_conn par_inv_message par_inv_task\<close>)

lemma par_step_tasks: "par_step env config s t \<Longrightarrow> length (par_tasks s) \<le> length (par_tasks t)"
  by (auto elim!: par_stepE)

lemma par_inv_steps:
  assumes "scc_hash_map (gnb_ops env) gentries" "scc_hash_map (ue_ops env) uentries"
    and "par_steps env config s t" and "par_inv env gentries uentries s"
    and "length (par_tasks t) < 2 ^ 64 - 1"
  shows "par_inv env gentries uentries t"
  using assms(3-5)
proof (induction rule: par_steps.induct)
  case (par_next s t u)
  with par_step_tasks [of env config t u] show ?case
    by (auto intro: par_inv_step [OF assms(1,2)])
qed simp

lemma par_inv_new:
  assumes "scc_hash_map (gnb_ops env) gentries"
  shows "par_inv env gentries uentries (par_new env net)"
  using registry_inv_init [OF assms, of net]
  by (simp add: par_inv_def par_new_def) (simp add: ngap_context_new_def)

subsection \<open>The coarse steps are schedules\<close>

text \<open>The handler of the initial UE message is its four pieces, run one after the other.\<close>

lemma handler_pieces:
  "((\<lambda>(p, g). task_step env a p g) ^^ 4) (Started req, gnb) =
     (case handle_initial_ue env a req gnb of
        (r, g) \<Rightarrow> (case r of Some out \<Rightarrow> Finished req out | None \<Rightarrow> TaskPanicked req, g))"
proof -
  obtain b g1 where b: "iu_build env a req gnb = (b, g1)" by force
  obtain d g2 where d: "iu_add env (the b) g1 = (d, g2)" by force
  obtain w g3 where w: "iu_with env req g2 = (w, g3)" by force
  show ?thesis
    using b d w
    by (cases "iu_check env req gnb"; cases b; cases d; cases "the d"; cases w)
      (simp_all add: numeral_eq_Suc handle_initial_ue_def)
qed

lemma par_steps_trans:
  assumes "par_steps env config s t" and "par_steps env config t u"
  shows "par_steps env config s u"
  using assms(2,1) by (induction rule: par_steps.induct) (auto intro: par_steps.par_next)

lemma with_gnb_simps [simp]:
  "with_gnb a g2 (with_gnb a g1 s) = with_gnb a g2 s"
  "gnb_store (amf_registry (with_gnb a g s)) a = Some g"
  "gnb_store (amf_registry s) a = Some g \<Longrightarrow> with_gnb a g s = s"
  by (simp_all add: with_gnb_def map_upd_triv)

lemma par_run_task:
  assumes "gnb_store (amf_registry s) a = Some g"
    and "((\<lambda>(p, g). task_step env a p g) ^^ n) (p, g) = (p', g')"
  shows "par_steps env config \<lparr>par_amf = s, par_tasks = ts @ [(a, p)]\<rparr>
    \<lparr>par_amf = with_gnb a g' s, par_tasks = ts @ [(a, p')]\<rparr>"
  using assms(2)
proof (induction n arbitrary: p' g')
  case 0
  with assms(1) show ?case
    by (simp add: par_steps.par_start)
next
  case (Suc n)
  obtain p1 g1 where mid: "((\<lambda>(p, g). task_step env a p g) ^^ n) (p, g) = (p1, g1)"
    by force
  with Suc.prems have "task_step env a p1 g1 = (p', g')"
    by simp
  from par_steps.par_next [OF Suc.IH [OF mid] par_step.par_task [where ps = ts and ps' = "[]", OF _ _ this]]
  show ?case by simp
qed

lemma message_task_state:
  "snd (snd (message_task env a message gnb)) =
     (case decode_ngap_pdu (ngap env) message of
        Ok (InitiatingMessage (InitialUeMessage pdu)) \<Rightarrow> snd (handle_initial_ue env a pdu gnb)
      | _ \<Rightarrow> gnb)"
  by (auto simp: message_task_def ngap_route_def split_beta Let_def
      split: result.splits ngap_pdu.splits initiating_message.splits prod.splits option.splits)

lemma par_run_message:
  fixes env :: "('r, 'x, 's, 'a, 'io, 'gm, 'um) amf_env" and recvmsg :: "(nat \<times> bytes, 'io) result"
  assumes run: "Running a \<in> set (amf_conns s)" and gnb: "gnb_store (amf_registry s) a = Some gnb"
    and rd: "read_data recvmsg = Ok (Some message)"
  shows "\<exists>ts'. par_steps env config \<lparr>par_amf = s, par_tasks = ts\<rparr>
    \<lparr>par_amf = with_gnb a (snd (snd (message_task env a message gnb))) s, par_tasks = ts'\<rparr>"
proof (cases "spawn_task env a message")
  case Nil
  then have "snd (snd (message_task env a message gnb)) = gnb"
    by (auto simp: message_task_state spawn_task_def
        split: result.splits ngap_pdu.splits initiating_message.splits)
  with gnb show ?thesis
    by (auto intro: par_steps.par_start)
next
  case (Cons t rest)
  then obtain pdu where sp: "spawn_task env a message = [(a, Started pdu)]"
    and st: "snd (snd (message_task env a message gnb)) = snd (handle_initial_ue env a pdu gnb)"
    by (auto simp: message_task_state spawn_task_def
        split: result.splits ngap_pdu.splits initiating_message.splits)
  have "par_steps env config \<lparr>par_amf = s, par_tasks = ts\<rparr> \<lparr>par_amf = s, par_tasks = ts @ [(a, Started pdu)]\<rparr>"
    using par_steps.par_next [OF par_steps.par_start par_step.par_message [where a = a and
          env = env and config = config and s = "\<lparr>par_amf = s, par_tasks = ts\<rparr>", OF _ rd]] run by (simp add: sp)
  moreover obtain p' where "((\<lambda>(p, g). task_step env a p g) ^^ 4) (Started pdu, gnb) =
      (p', snd (handle_initial_ue env a pdu gnb))"
    by (simp add: handler_pieces split_beta)
  ultimately show ?thesis
    unfolding st by (blast intro: par_steps_trans par_run_task [OF gnb])
qed

lemma par_run_step:
  assumes "amf_step env config s t"
  shows "\<exists>ts'. par_steps env config \<lparr>par_amf = s, par_tasks = ts\<rparr> \<lparr>par_amf = t, par_tasks = ts'\<rparr>"
  using assms
proof cases
  case (accept ans)
  then show ?thesis
    using par_steps.par_next [OF par_steps.par_start par_step.par_accept [of env config "\<lparr>par_amf = s, par_tasks = ts\<rparr>" ans]]
    by auto
next
  case (conn cs c cs' recvmsg c' reg)
  show ?thesis
  proof (cases "delivers c recvmsg")
    case False
    from par_steps.par_next [OF par_steps.par_start par_step.par_conn [of "\<lparr>par_amf = s, par_tasks = ts\<rparr>", OF _ False]]
      conn show ?thesis by fastforce
  next
    case True
    then obtain a message where c: "c = Running a" and rd: "read_data recvmsg = Ok (Some message)"
      by (cases c) (auto split: result.splits option.splits)
    show ?thesis
    proof (cases "gnb_store (amf_registry s) a")
      case None
      with conn c have "t = s" by simp
      then show ?thesis by (auto intro: par_steps.par_start)
    next
      case (Some gnb)
      with conn c rd have t: "t = with_gnb a (snd (snd (message_task env a message gnb))) s"
        by (auto simp: with_gnb_def)
      have "Running a \<in> set (amf_conns s)"
        using conn c by simp
      from par_run_message [OF this Some rd] show ?thesis
        unfolding t .
    qed
  qed
qed

subsection \<open>The life of a connection\<close>

lemma setup_step_succeeds:
  assumes "from_bytes (ngap env) buf = Ok (InitiatingMessage (NgSetupRequest req))" and "n \<noteq> 0"
    and "handle_ng_setup env config (gnb_contexts reg) req (gnb_context_new env tnla) = (Some (Ok resp), gnb)"
    and "is_ok (fst (encode_and_write_ngap_pdu env tnla (ng_setup_response_to_pdu (ngap env) resp)))"
  shows "conn_step env config (Ok (n, buf)) (SettingUp tnla k) reg = (Answered gnb, reg)"
  using assms
  by (auto simp: try_ng_setup_def setup_answer_def read_data_def decode_ngap_pdu_def Let_def
      split: result.splits prod.splits)

subsection \<open>Properties\<close>

text \<open>
  C1: the AMF as a whole.  In every state it can reach, with the accept loop, all connections
  and the tasks of all messages interleaved in any way: the table of gNBs has exactly the
  entries of the connections that run or were broken by a read error; every UE context, of
  whichever gNB, is filed under its own RAN identifier, refers to the gNB in whose table it is,
  and shares its AMF identifier with no other UE of that gNB; and a handler that has returned
  has left a context for its UE in the table of the gNB its message came from, also when that
  gNB has disconnected meanwhile.
\<close>

theorem amf_wide_invariant:
  assumes "scc_hash_map (gnb_ops env) gentries" and "scc_hash_map (ue_ops env) uentries"
    and "par_steps env config (par_new env net) s" and "length (par_tasks s) < 2 ^ 64 - 1"
  defines "reg \<equiv> amf_registry (par_amf s)" and "conns \<equiv> set (amf_conns (par_amf s))"
  shows "(\<forall>r a. gentries (gnb_contexts reg) r = Some a \<longleftrightarrow>
       (Running a \<in> conns \<or> Broken a \<in> conns) \<and>
       (\<exists>gnb. gnb_store reg a = Some gnb \<and> global_ran_node_id gnb = r)) \<and>
    (\<forall>a gnb i c. gnb_store reg a = Some gnb \<and> ue_table uentries gnb i = Some c \<longrightarrow>
       ran_ue_ngap_id c = i \<and> gnb_context_ref c = a \<and>
       (\<forall>j d. ue_table uentries gnb j = Some d \<and> amf_ue_ngap_id d = amf_ue_ngap_id c \<longrightarrow> j = i)) \<and>
    (\<forall>a req r. (a, Finished req r) \<in> set (par_tasks s) \<longrightarrow>
       (\<exists>gnb. gnb_store reg a = Some gnb \<and> ue_table uentries gnb (iu_ran_ue_ngap_id req) \<noteq> None))"
proof (intro conjI allI impI)
  note i = par_invD [OF par_inv_steps [OF assms(1-3) par_inv_new [OF assms(1)] assms(4)], folded reg_def]
  show "gentries (gnb_contexts reg) r = Some a \<longleftrightarrow> (Running a \<in> conns \<or> Broken a \<in> conns) \<and>
      (\<exists>gnb. gnb_store reg a = Some gnb \<and> global_ran_node_id gnb = r)" for r a
    unfolding conns_def live_addrs_iff [symmetric] using i(1) unfolding registry_inv_def by fastforce
  fix a
  {
    fix gnb j c
    assume *: "gnb_store reg a = Some gnb \<and> ue_table uentries gnb j = Some c"
    with i(2) [of a gnb] have "table_ok (ue_table uentries gnb)"
      by (simp add: ue_inv_def)
    with * show "ran_ue_ngap_id c = j"
      and "ue_table uentries gnb k = Some d \<and> amf_ue_ngap_id d = amf_ue_ngap_id c \<Longrightarrow> k = j" for k d
      unfolding table_ok_def by metis+
    from * i(3) [of a gnb] show "gnb_context_ref c = a"
      unfolding refs_ok_def by blast
  next
    fix req r
    assume *: "(a, Finished req r) \<in> set (par_tasks s)"
    then obtain gnb where gnb: "gnb_store reg a = Some gnb"
      using i(4) by fastforce
    from * have "Finished req r \<in> set (tasks_of a (par_tasks s))"
      by (simp add: set_tasks_of)
    with i(2) [OF gnb] have "task_ok (ue_table uentries gnb) (Finished req r)"
      unfolding ue_inv_def list_all_iff ue_sys.select_convs by blast
    with gnb show "\<exists>gnb. gnb_store reg a = Some gnb \<and> ue_table uentries gnb (iu_ran_ue_ngap_id req) \<noteq> None"
      by simp
  }
qed

text \<open>
  Running each message to its end before the next event is one of the schedules.  Every
  state the AMF reaches when the task of a message is a single step is reached, with some list
  of finished tasks, when the pieces of the handlers are steps of their own.
\<close>

theorem atomic_messages_are_a_schedule:
  assumes "amf_steps env config (ngap_context_new env net) s"
  shows "\<exists>ts. par_steps env config (par_new env net) \<lparr>par_amf = s, par_tasks = ts\<rparr>"
  using assms
proof (induction s' \<equiv> "ngap_context_new env net" s rule: amf_steps.induct)
  case start
  then show ?case
    by (auto simp: par_new_def intro: par_steps.par_start)
next
  case (step t u)
  then show ?case
    by (blast intro: par_steps_trans dest: par_run_step)
qed

text \<open>
  C9: the life of a connection.  With a valid configuration, a node that is not connected, and
  whose request announces PLMN identities of digits and a configured tracking area, is set up
  in one attempt when the response can be written; it is then entered in the table under its
  identifier, and when the peer closes the stream the table is again what it was before, so
  that the node can be set up anew.
\<close>

theorem connection_life_cycle:
  assumes "scc_hash_map (gnb_ops env) entries" and "hex_codec (hexlib env)" and "bitvec (bitlib env)"
    and "valid_app_config config"
    and "entries (gnb_contexts reg) (req_global_ran_node_id req) = None"
    and "\<forall>(tac, item) \<in> set (announced req). is_ok (try_from_ngap_plmn (bp_plmn_identity item))"
    and "\<exists>t \<in> set (support_tai_list config). announces env req t"
    and "from_bytes (ngap env) buf = Ok (InitiatingMessage (NgSetupRequest req))" and "n \<noteq> 0"
    and "\<forall>resp. is_ok (fst (encode_and_write_ngap_pdu env tnla (ng_setup_response_to_pdu (ngap env) resp)))"
  defines "r \<equiv> req_global_ran_node_id req" and "a \<equiv> next_gnb reg"
  shows "\<exists>gnb reg1 reg2.
    conn_step env config (Ok (n, buf)) (SettingUp tnla k) reg = (Answered gnb, reg) \<and>
    global_ran_node_id gnb = r \<and> tnla_association gnb = tnla \<and>
    conn_step env config recvmsg (Answered gnb) reg = (Running a, reg1) \<and>
    gnb_store reg1 a = Some gnb \<and> entries (gnb_contexts reg1) = (entries (gnb_contexts reg))(r \<mapsto> a) \<and>
    conn_step env config (Ok (0, buf')) (Running a) reg1 = (Closed a, reg2) \<and>
    entries (gnb_contexts reg2) = entries (gnb_contexts reg)"
proof -
  obtain resp gnb where h: "handle_ng_setup env config (gnb_contexts reg) req (gnb_context_new env tnla) =
      (Some (Ok resp), gnb)"
    using handle_ng_setup_succeeds [OF assms(1-7)] by blast
  with handle_ng_setup_accepted [OF assms(1) h]
  have id: "global_ran_node_id gnb = r" "tnla_association gnb = tnla"
    by (simp_all add: r_def gnb_context_new_def)
  from register_gnb_vacant [OF assms(1), of reg gnb] assms(5) obtain m where
    reg1: "register_gnb env gnb reg = (Some a, \<lparr>gnb_contexts = m,
      gnb_store = (gnb_store reg)(a \<mapsto> gnb), next_gnb = Suc a\<rparr>)"
    and m: "entries m = (entries (gnb_contexts reg))(r \<mapsto> a)"
    by (auto simp: id a_def r_def)
  have "entries (snd (remove_async (gnb_ops env) r m)) = entries (gnb_contexts reg)"
    using assms(5) by (auto simp: scc_hash_map.entries_remove [OF assms(1)] m r_def fun_eq_iff)
  with setup_step_succeeds [OF assms(8,9) h] assms(10) id reg1 m show ?thesis
    by (simp add: read_data_def close_ran_connection_def)
qed

subsection \<open>Witnesses\<close>

text \<open>The node of \<open>demo_running\<close> connects, and sends an initial UE message.\<close>

definition demo_first_ue :: "unit initial_ue_message" where
  "demo_first_ue = \<lparr>iu_ran_ue_ngap_id = 9, iu_nas_pdu = [], iu_rrc_establishment_cause = (),
     iu_five_g_s_tmsi = None\<rparr>"

definition demo_served :: "(nat, unit, nat, nat, ran_ue_ngap_id \<rightharpoonup> nat) gnb_context" where
  "demo_served = demo_connected\<lparr>amf_ue_id_generator := 2, ue_context_manager :=
     \<lparr>queues = [9 \<mapsto> 0], arcs = [0 \<mapsto> context_queue_new (demo_ue 1)], next_arc = 1\<rparr>\<rparr>"

lemma demo_connected_eq:
  "demo_connected = \<lparr>tnla_association = demo_tnla, global_ran_node_id = 77,
     ue_context_manager = \<lparr>queues = Map.empty, arcs = Map.empty, next_arc = 0\<rparr>, gnb_name = ''gnb'',
     default_paging_drx = (), amf_ue_id_generator = 1\<rparr>"
  by (simp add: demo_connected_def demo_connected_on_def gnb_context_new_def demo_amf_def demo_env_def
      context_manager_new_def counter_new_def)

lemma demo_handler:
  "((\<lambda>(p, g). task_step demo_amf 0 p g) ^^ 4) (Started demo_first_ue, demo_connected) =
     (Finished demo_first_ue (Ok EmptyResponse), demo_served)"
proof -
  have ops: "ue_ops demo_amf = map_ops"
    by (simp add: demo_amf_def demo_env_def)
  have pieces: "iu_check demo_amf demo_first_ue demo_connected = None"
    "iu_build demo_amf 0 demo_first_ue demo_connected =
       (Some (demo_ue 1), demo_connected\<lparr>amf_ue_id_generator := 2\<rparr>)"
    "iu_add demo_amf (demo_ue 1) (demo_connected\<lparr>amf_ue_id_generator := 2\<rparr>) = (Some None, demo_served)"
    by (simp_all add: demo_connected_eq demo_first_ue_def demo_ue_def demo_served_def iu_check_def
        iu_build_def iu_add_def contains_context_def add_context_def increment_def ue_id_def
        ue_context_new_def arc_into_inner_def Let_def ops)
  have "iu_with demo_amf demo_first_ue demo_served = (Some (Ok EmptyResponse), demo_served)"
    by (simp add: demo_connected_eq demo_first_ue_def demo_ue_def demo_served_def iu_with_def
        with_context_def handle_nas_def ops Let_def schedule_and_wait_eq queue_idle_def
        context_queue_new_def)
  with pieces show ?thesis
    by (simp add: handler_pieces handle_initial_ue_def)
qed

lemma demo_par_conn:
  assumes "conn_step demo_amf demo_app recvmsg c (amf_registry (demo_pending c)) = (c', reg)"
    and "\<not> delivers c recvmsg"
  shows "par_step demo_amf demo_app \<lparr>par_amf = demo_pending c, par_tasks = []\<rparr>
    \<lparr>par_amf = (demo_pending c)\<lparr>amf_registry := reg, amf_conns := [c']\<rparr>, par_tasks = []\<rparr>"
  using par_step.par_conn [where cs = "[]" and cs' = "[]" and recvmsg = recvmsg and c = c and
      s = "\<lparr>par_amf = demo_pending c, par_tasks = []\<rparr>" and env = demo_amf and config = demo_app] assms
  by simp

lemma demo_par_running:
  "par_steps demo_amf demo_app (par_new demo_amf demo_net) \<lparr>par_amf = demo_state (Running 0), par_tasks = []\<rparr>"
proof -
  have "par_steps demo_amf demo_app (par_new demo_amf demo_net)
      \<lparr>par_amf = demo_pending (SettingUp demo_tnla 1), par_tasks = []\<rparr>"
    using par_steps.par_next [OF par_steps.par_start par_step.par_accept, of demo_amf demo_app
      "par_new demo_amf demo_net" "Ok (7, 7)"]
    by (simp add: par_new_def demo_transitions(1))
  note par_steps.par_next [OF this demo_par_conn [OF demo_transitions(2)]]
  then have "par_steps demo_amf demo_app (par_new demo_amf demo_net)
      \<lparr>par_amf = demo_pending (Answered demo_connected), par_tasks = []\<rparr>"
    by simp
  note par_steps.par_next [OF this demo_par_conn [OF demo_transitions(3)]]
  then show ?thesis by simp
qed

lemma demo_par_served:
  "par_steps demo_amf demo_app (par_new demo_amf demo_net)
     \<lparr>par_amf = with_gnb 0 demo_served (demo_state (Running 0)),
      par_tasks = [(0, Finished demo_first_ue (Ok EmptyResponse))]\<rparr>"
proof -
  have "spawn_task demo_amf 0 [15] = [(0, Started demo_first_ue)]"
    by (simp add: spawn_task_def decode_ngap_pdu_def demo_amf_def demo_ngap_def demo_first_ue_def)
  then have "par_steps demo_amf demo_app (par_new demo_amf demo_net)
      \<lparr>par_amf = demo_state (Running 0), par_tasks = [(0, Started demo_first_ue)]\<rparr>"
    using par_steps.par_next [OF demo_par_running par_step.par_message
        [where a = 0 and message = "[15]" and recvmsg = "Ok (1, [15])"]]
    by (simp add: demo_state_def read_data_def)
  moreover have "gnb_store (amf_registry (demo_state (Running 0))) 0 = Some demo_connected"
    by (simp add: demo_state_def demo_registry_def)
  ultimately show ?thesis
    using par_run_task [OF _ demo_handler, where ts = "[]"] par_steps_trans by fastforce
qed

theorem amf_wide_invariant_witness:
  "\<exists>s. par_steps demo_amf demo_app (par_new demo_amf demo_net) s \<and>
     gnb_contexts (amf_registry (par_amf s)) 77 = Some 0 \<and>
     (\<exists>gnb. gnb_store (amf_registry (par_amf s)) 0 = Some gnb \<and> ue_table (\<lambda>m. m) gnb 9 \<noteq> None)"
proof -
  have "scc_hash_map (ue_ops demo_amf) (\<lambda>m. m)"
    by (simp add: demo_amf_def demo_env_def map_scc.scc_hash_map_axioms)
  from amf_wide_invariant [OF demo_amf_laws(1) this demo_par_served] show ?thesis
    using demo_par_served
    by (intro exI conjI)
      (auto simp: with_gnb_def demo_state_def demo_registry_def demo_first_ue_def demo_served_def
        demo_connected_eq)
qed

theorem atomic_messages_are_a_schedule_witness:
  "\<exists>ts. par_steps demo_amf demo_app (par_new demo_amf demo_net)
     \<lparr>par_amf = demo_state (Broken 0), par_tasks = ts\<rparr>"
  by (rule atomic_messages_are_a_schedule [OF demo_broken])

theorem connection_life_cycle_witness:
  "\<exists>gnb reg1 reg2.
    conn_step demo_amf demo_app (Ok (1, [21])) (SettingUp demo_tnla 1) (amf_registry (demo_pending GaveUp)) =
      (Answered gnb, amf_registry (demo_pending GaveUp)) \<and>
    conn_step demo_amf demo_app (Err ()) (Answered gnb) (amf_registry (demo_pending GaveUp)) =
      (Running 0, reg1) \<and> gnb_contexts reg1 = [77 \<mapsto> 0] \<and>
    conn_step demo_amf demo_app (Ok (0, [])) (Running 0) reg1 = (Closed 0, reg2) \<and>
    gnb_contexts reg2 = Map.empty"
proof -
  have codec: "from_bytes (ngap demo_amf) [21] = Ok (InitiatingMessage (NgSetupRequest demo_request))"
    by (simp add: demo_amf_def)
  have sent: "\<forall>resp. is_ok (fst (encode_and_write_ngap_pdu demo_amf demo_tnla
      (ng_setup_response_to_pdu (ngap demo_amf) resp)))"
    by (simp add: encode_and_write_ngap_pdu_def write_data_def codec_to_bytes_def demo_sctp_def Let_def
        demo_amf_def demo_env_def demo_ngap_def)
  have "\<exists>t \<in> set (support_tai_list demo_app). announces demo_env demo_request t"
    using demo_announces by (simp add: demo_app_def configuration_new_def demo_config_def Let_def)
  then have tai: "\<exists>t \<in> set (support_tai_list demo_app). announces demo_amf demo_request t"
    by (simp add: announces_def demo_amf_def)
  have reg: "amf_registry (demo_pending GaveUp) = \<lparr>gnb_contexts = Map.empty, gnb_store = Map.empty, next_gnb = 0\<rparr>"
    by (simp add: demo_pending_def)
  have r: "req_global_ran_node_id demo_request = 77"
    by (simp add: demo_request_def)
  have free: "gnb_contexts (amf_registry (demo_pending GaveUp)) (req_global_ran_node_id demo_request) = None"
    by (simp add: reg)
  have one: "(1 :: nat) \<noteq> 0"
    by simp
  note laws = demo_amf_laws(1) demo_env_laws(3) [folded demo_amf_laws(2)] demo_env_laws(4) [folded demo_amf_laws(3)]
  from connection_life_cycle [OF laws demo_app_valid free demo_announced_ok tai codec one sent,
      of 1 "Err ()" "[]"]
  show ?thesis
    unfolding r reg gnb_registry.select_convs by blast
qed

end
