(* ===== verification/Sbi_Request.thy ===== *)
theory Sbi_Request
  imports Omnipath_Prelude
begin

text \<open>
  The construction of HTTP requests for the service based interface: \<open>content_type.rs\<close>,
  \<open>header_map_serializer.rs\<close> and the request builders of \<open>lib.rs\<close>, all of
  \<open>utils/client/src\<close>.

  The crates these files call are parameters: \<open>mediatype\<close>, the serialisers of
  \<open>serde_json\<close>, \<open>serde_qs\<close> and \<open>serde_urlencoded\<close>, the name and value checks of
  \<open>http\<close>, and \<open>url\<close>.  A \<open>HeaderMap\<close> that is only written by \<open>insert\<close> and
  \<open>extend\<close> has one value per name and is a map.  A value of an arbitrary \<open>Serialize\<close>
  type is represented by the one call it makes on the serialiser.
\<close>

text \<open>A fallible function that may also panic (\<open>None\<close>): the question-mark operator there.\<close>

primrec bind_res ::
  "('a, 'e) result option \<Rightarrow> ('a \<Rightarrow> ('b, 'e) result option) \<Rightarrow> ('b, 'e) result option" where
  "bind_res None f = None"
| "bind_res (Some r) f = (case r of Ok x \<Rightarrow> f x | Err e \<Rightarrow> Some (Err e))"

declare bind_res.simps(2) [simp del]

lemma bind_res_simps [simp]:
  "bind_res (Some (Ok x)) f = f x"
  "bind_res (Some (Err e)) f = Some (Err e)"
  by (simp_all add: bind_res.simps(2))

lemma bind_res_Ok: "bind_res m f = Some (Ok y) \<longleftrightarrow> (\<exists>x. m = Some (Ok x) \<and> f x = Some (Ok y))"
  by (cases m) (auto simp: bind_res.simps(2) split: result.splits)

text \<open>\<open>Option<Result<..>>::transpose\<close> after \<open>map\<close>, with a default for an absent value.\<close>

definition map_transpose :: "('a \<Rightarrow> ('b, 'e) result option) \<Rightarrow> 'a option \<Rightarrow> ('b option, 'e) result option" where
  "map_transpose f x = (case x of None \<Rightarrow> Some (Ok None) | Some a \<Rightarrow> map_option (map_ok Some) (f a))"

subsection \<open>Content types\<close>

datatype content_type = AppJson | AppForm | AppPatchJson

record media_type =
  mt_type :: string
  mt_subtype :: string
  mt_suffix :: "string option"
  mt_params :: "(string \<times> string) list"

record 'e mediatype_ops =
  media_parse :: "string \<Rightarrow> (media_type, 'e) result"
  media_eq :: "media_type \<Rightarrow> media_type \<Rightarrow> bool"

definition APP_JSON :: media_type where
  "APP_JSON = \<lparr>mt_type = ''application'', mt_subtype = ''json'', mt_suffix = None, mt_params = []\<rparr>"

definition APP_FORM :: media_type where
  "APP_FORM = \<lparr>mt_type = ''application'', mt_subtype = ''x-www-form-urlencoded'', mt_suffix = None,
     mt_params = []\<rparr>"

definition APP_PATCH_JSON :: media_type where
  "APP_PATCH_JSON = \<lparr>mt_type = ''application'', mt_subtype = ''json-patch'', mt_suffix = Some ''json'',
     mt_params = []\<rparr>"

datatype 'e content_type_parse_error = InvalidContentType string | MediaTypeError 'e string

primrec to_str :: "content_type \<Rightarrow> string" where
  "to_str AppJson = ''application/json''"
| "to_str AppForm = ''application/x-www-form-urlencoded''"
| "to_str AppPatchJson = ''application/json-patch+json''"

primrec to_mediatype :: "content_type \<Rightarrow> media_type" where
  "to_mediatype AppJson = APP_JSON"
| "to_mediatype AppForm = APP_FORM"
| "to_mediatype AppPatchJson = APP_PATCH_JSON"

text \<open>
  \<open>HeaderValue::from_static\<close> panics on a character that is not visible ASCII; \<open>Display\<close> writes
  the text.
\<close>

definition visible_ascii :: "char \<Rightarrow> bool" where
  "visible_ascii c \<longleftrightarrow> 32 \<le> (of_char c :: nat) \<and> (of_char c :: nat) < 127 \<or> c = CHR 0x09"

definition header_value_from_static :: "string \<Rightarrow> string option" where
  "header_value_from_static s = (if list_all visible_ascii s then Some s else None)"

definition to_header_value :: "content_type \<Rightarrow> string option" where
  "to_header_value c = header_value_from_static (to_str c)"

lemma to_header_value_ok [simp]: "to_header_value c = Some (to_str c)"
  by (cases c) (simp_all add: to_header_value_def header_value_from_static_def visible_ascii_def)

definition content_type_fmt :: "content_type \<Rightarrow> string" where
  "content_type_fmt c = to_str c"

definition content_type_from_str ::
  "'e mediatype_ops \<Rightarrow> string \<Rightarrow> (content_type, 'e content_type_parse_error) result" where
  "content_type_from_str ops s =
     and_then (map_err (\<lambda>e. MediaTypeError e s) (media_parse ops s)) (\<lambda>m.
       if media_eq ops m APP_JSON then Ok AppJson
       else if media_eq ops m APP_FORM then Ok AppForm
       else if media_eq ops m APP_PATCH_JSON then Ok AppPatchJson
       else Err (InvalidContentType s))"

subsection \<open>Headers from a structure\<close>

type_synonym header_map = "string \<rightharpoonup> string"

datatype 'e header_ser_de_error =
    InvalidType
  | InvalidJsonValue 'e
  | SerdeParsingError string
  | InvalidHeaderName string
  | InvalidHeaderValue string

text \<open>
  The call a \<open>Serialize\<close> implementation makes on the serialiser.  The methods other than
  \<open>serialize_struct\<close> ignore their arguments, so a call is its kind; a structure comes with the
  fields it visits.  The 128-bit calls are the methods the trait provides.
\<close>

datatype scalar_call =
    SerBool | SerI8 | SerI16 | SerI32 | SerI64 | SerU8 | SerU16 | SerU32 | SerU64 | SerF32 | SerF64
  | SerChar | SerStr | SerBytes | SerI128 | SerU128

datatype compound_call =
    SerNone | SerSome | SerUnit | SerUnitStruct | SerUnitVariant | SerNewtypeStruct
  | SerNewtypeVariant | SerSeq | SerTuple | SerTupleStruct | SerTupleVariant | SerStructVariant

datatype 'v ser_call =
    SerStruct "(string \<times> 'v) list"
  | SerMap
  | SerScalar scalar_call
  | SerCompound compound_call

record ('v, 'b, 'q, 'e) serde_ops =
  json_to_string :: "'v \<Rightarrow> (string, 'e) result"
  json_to_vec :: "'b \<Rightarrow> (bytes, 'e) result"
  qs_to_writer :: "'b \<Rightarrow> (bytes, 'e) result"
  urlencoded_pairs :: "'q \<Rightarrow> ((string \<times> string) list, 'e) result"
  urlencoded_to_string :: "'q \<Rightarrow> (string, 'e) result"
  header_name :: "string \<Rightarrow> string option"
  valid_header_value :: "string \<Rightarrow> bool"

definition replace_char :: "char \<Rightarrow> char \<Rightarrow> string \<Rightarrow> string" where
  "replace_char a b s = map (\<lambda>c. if c = a then b else c) s"

definition header_value_from_str ::
  "('v, 'b, 'q, 'e) serde_ops \<Rightarrow> string \<Rightarrow> (string, 'e header_ser_de_error) result" where
  "header_value_from_str ops s = (if valid_header_value ops s then Ok s else Err (InvalidHeaderValue s))"

text \<open>A slice \<open>&s[a..b]\<close>; it panics unless \<open>a <= b <= s.len()\<close>.\<close>

definition str_slice :: "nat \<Rightarrow> nat \<Rightarrow> string \<Rightarrow> string option" where
  "str_slice a b s = (if a \<le> b \<and> b \<le> length s then Some (take (b - a) (drop a s)) else None)"

text \<open>
  The text that becomes the value of a header: the JSON text, without its quotes when it is a
  string literal.
\<close>

definition field_text :: "string \<Rightarrow> string option" where
  "field_text header_value =
     Option.bind (str_slice 0 1 header_value) (\<lambda>first.
       if first = [CHR 0x22] then str_slice 1 (length header_value - 1) header_value
       else Some header_value)"

definition serialize_field ::
  "('v, 'b, 'q, 'e) serde_ops \<Rightarrow> string \<Rightarrow> 'v \<Rightarrow> header_map \<Rightarrow>
     (header_map, 'e header_ser_de_error) result option" where
  "serialize_field ops key v m =
     (let header_key = replace_char CHR ''_'' CHR ''-'' key
      in bind_res (Some (ok_or (InvalidHeaderName header_key) (header_name ops header_key))) (\<lambda>key.
         bind_res (Some (map_err InvalidJsonValue (json_to_string ops v))) (\<lambda>header_value.
         bind_res (map_option (header_value_from_str ops) (field_text header_value)) (\<lambda>value.
         Some (Ok (m(key \<mapsto> value)))))))"

fun serialize_fields ::
  "('v, 'b, 'q, 'e) serde_ops \<Rightarrow> (string \<times> 'v) list \<Rightarrow> header_map \<Rightarrow>
     (header_map, 'e header_ser_de_error) result option" where
  "serialize_fields ops [] m = Some (Ok m)"
| "serialize_fields ops ((key, v) # fs) m =
     bind_res (serialize_field ops key v m) (\<lambda>m. serialize_fields ops fs m)"

text \<open>The error of the provided methods, and the arms of the serialiser in their order.\<close>

definition custom :: "string \<Rightarrow> 'e header_ser_de_error" where
  "custom msg = SerdeParsingError msg"

primrec serialize_scalar :: "scalar_call \<Rightarrow> (unit, 'e header_ser_de_error) result" where
  "serialize_scalar SerBool = Err InvalidType"
| "serialize_scalar SerI8 = Err InvalidType"
| "serialize_scalar SerI16 = Err InvalidType"
| "serialize_scalar SerI32 = Err InvalidType"
| "serialize_scalar SerI64 = Err InvalidType"
| "serialize_scalar SerU8 = Err InvalidType"
| "serialize_scalar SerU16 = Err InvalidType"
| "serialize_scalar SerU32 = Err InvalidType"
| "serialize_scalar SerU64 = Err InvalidType"
| "serialize_scalar SerF32 = Err InvalidType"
| "serialize_scalar SerF64 = Err InvalidType"
| "serialize_scalar SerChar = Err InvalidType"
| "serialize_scalar SerStr = Err InvalidType"
| "serialize_scalar SerBytes = Err InvalidType"
| "serialize_scalar SerI128 = Err (custom ''i128 is not supported'')"
| "serialize_scalar SerU128 = Err (custom ''u128 is not supported'')"

primrec serialize_compound :: "compound_call \<Rightarrow> (unit, 'e header_ser_de_error) result" where
  "serialize_compound SerNone = Err InvalidType"
| "serialize_compound SerSome = Err InvalidType"
| "serialize_compound SerUnit = Err InvalidType"
| "serialize_compound SerUnitStruct = Err InvalidType"
| "serialize_compound SerUnitVariant = Err InvalidType"
| "serialize_compound SerNewtypeStruct = Err InvalidType"
| "serialize_compound SerNewtypeVariant = Err InvalidType"
| "serialize_compound SerSeq = Err InvalidType"
| "serialize_compound SerTuple = Err InvalidType"
| "serialize_compound SerTupleStruct = Err InvalidType"
| "serialize_compound SerTupleVariant = Err InvalidType"
| "serialize_compound SerStructVariant = Err InvalidType"

primrec serialize_call ::
  "('v, 'b, 'q, 'e) serde_ops \<Rightarrow> 'v ser_call \<Rightarrow> header_map \<Rightarrow>
     (header_map, 'e header_ser_de_error) result option" where
  "serialize_call ops (SerStruct fs) m = serialize_fields ops fs m"
| "serialize_call ops SerMap m = Some (Err InvalidType)"
| "serialize_call ops (SerScalar c) m = Some (map_ok (\<lambda>_. m) (serialize_scalar c))"
| "serialize_call ops (SerCompound c) m = Some (map_ok (\<lambda>_. m) (serialize_compound c))"

definition to_headers ::
  "('v, 'b, 'q, 'e) serde_ops \<Rightarrow> 'v ser_call \<Rightarrow> (header_map, 'e header_ser_de_error) result option" where
  "to_headers ops value = serialize_call ops value Map.empty"

subsection \<open>Requests\<close>

datatype ('e, 'i) service_error = Service 'e | Inner 'i

datatype ('p, 'e) generic_client_error =
    ClientRequestError 'e
  | ResponseParseError 'e
  | InvalidResponse u16 "'p option"
  | HeaderSerDeError "'e header_ser_de_error"
  | QuerySerDeError 'e
  | UrlFormEncodedError 'e
  | SerializationError 'e
  | PathCreationError 'e
  | BuilderError 'e
  | UriBuilderError 'e
  | TowerHttpError 'e

datatype http_method = GET | PUT | POST | PATCH | DELETE

record ('u, 'e) url_ops =
  url_parse :: "string \<Rightarrow> ('u, 'e) result"
  url_join :: "'u \<Rightarrow> string \<Rightarrow> ('u, 'e) result"
  set_path :: "string \<Rightarrow> 'u \<Rightarrow> 'u"
  query_pairs_mut :: "(string \<times> string) list \<Rightarrow> 'u \<Rightarrow> 'u"
  set_query :: "string \<Rightarrow> 'u \<Rightarrow> 'u"
  url_to_string :: "'u \<Rightarrow> string"

record 'u request =
  req_method :: http_method
  req_url :: 'u
  req_headers :: header_map
  req_body :: "bytes option"

definition remove_leading_slash :: "string \<Rightarrow> string" where
  "remove_leading_slash input =
     (case input of c # rest \<Rightarrow> if c = CHR ''/'' then rest else input | [] \<Rightarrow> input)"

primrec serialize_body ::
  "('v, 'b, 'q, 'e) serde_ops \<Rightarrow> 'b \<Rightarrow> content_type \<Rightarrow> (bytes, ('p, 'e) generic_client_error) result option" where
  "serialize_body ops body AppJson = Some (map_err SerializationError (json_to_vec ops body))"
| "serialize_body ops body AppForm = Some (map_err UrlFormEncodedError (qs_to_writer ops body))"
| "serialize_body ops body AppPatchJson = None"

text \<open>\<open>header.map(to_headers).transpose()?\<close> and the extension of the request's headers.\<close>

definition extend_headers ::
  "('v, 'b, 'q, 'e) serde_ops \<Rightarrow> 'v ser_call option \<Rightarrow> header_map \<Rightarrow>
     (header_map, ('p, 'e) generic_client_error) result option" where
  "extend_headers ops header m =
     bind_res (map_transpose (\<lambda>h. map_option (map_err HeaderSerDeError) (to_headers ops h)) header) (\<lambda>h.
       Some (Ok (case h of None \<Rightarrow> m | Some h \<Rightarrow> m ++ h)))"

definition prepare_request ::
  "('v, 'b, 'q, 'e) serde_ops \<Rightarrow> ('u, 'e) url_ops \<Rightarrow> 'u \<Rightarrow> string \<Rightarrow> http_method \<Rightarrow>
     'v ser_call option \<Rightarrow> 'q option \<Rightarrow> 'b option \<Rightarrow> content_type \<Rightarrow>
     ('u request, ('p, 'e) generic_client_error) result option" where
  "prepare_request ops uops url path method header query body encoding_type =
     (let url = set_path uops (remove_leading_slash path) url
      in bind_res (map_transpose (\<lambda>q. Some (map_err QuerySerDeError (urlencoded_pairs ops q))) query) (\<lambda>pairs.
         let url = query_pairs_mut uops (the_default [] pairs) url
         in bind_res (extend_headers ops header Map.empty) (\<lambda>headers.
            Option.bind (to_header_value encoding_type) (\<lambda>content_type.
            let headers = headers(''content-type'' \<mapsto> content_type)
            in bind_res (map_transpose (\<lambda>b. serialize_body ops b encoding_type) body) (\<lambda>body.
               Some (Ok \<lparr>req_method = method, req_url = url, req_headers = headers, req_body = body\<rparr>))))))"

text \<open>
  \<open>prepare_http_request\<close>; \<open>build\<close> is the check of the request builder of \<open>http\<close> on
  the text of the URL.
\<close>

definition prepare_http_request ::
  "('v, 'b, 'q, 'e) serde_ops \<Rightarrow> ('u, 'e) url_ops \<Rightarrow> (string \<Rightarrow> (unit, 'e) result) \<Rightarrow> string \<Rightarrow> string \<Rightarrow>
     http_method \<Rightarrow> 'v ser_call option \<Rightarrow> 'q option \<Rightarrow> 'b option \<Rightarrow> content_type \<Rightarrow>
     (string request, ('p, 'e) generic_client_error) result option" where
  "prepare_http_request ops uops build base_url path method header query body encoding_type =
     bind_res (Some (map_err UriBuilderError (url_parse uops base_url))) (\<lambda>url.
     bind_res (Some (map_err UriBuilderError (url_join uops url path))) (\<lambda>_.
     bind_res (map_transpose (\<lambda>q. Some (map_err QuerySerDeError (urlencoded_to_string ops q))) query) (\<lambda>q.
     let url = (case q of None \<Rightarrow> url | Some q \<Rightarrow> set_query uops q url)
     in bind_res (case body of None \<Rightarrow> Some (Ok []) | Some b \<Rightarrow> serialize_body ops b encoding_type) (\<lambda>body.
        bind_res (Some (map_err BuilderError (build (url_to_string uops url)))) (\<lambda>_.
        bind_res (extend_headers ops header Map.empty) (\<lambda>headers.
        Option.bind (to_header_value encoding_type) (\<lambda>content_type.
        let headers = headers(''content-type'' \<mapsto> content_type)
        in Some (Ok \<lparr>req_method = method, req_url = url_to_string uops url, req_headers = headers,
             req_body = Some body\<rparr>))))))))"


subsection \<open>The contract of the media type parser\<close>

definition plain_name :: "string \<Rightarrow> bool" where
  "plain_name s \<longleftrightarrow> s \<noteq> [] \<and> list_all (\<lambda>c. c \<notin> set ''/+; '') s"

definition ascii_lower :: "char \<Rightarrow> char" where
  "ascii_lower c = (if 65 \<le> (of_char c :: nat) \<and> (of_char c :: nat) \<le> 90 then char_of (of_char c + 32 :: nat) else c)"

definition same_names :: "media_type \<Rightarrow> media_type \<Rightarrow> bool" where
  "same_names m m' \<longleftrightarrow> map ascii_lower (mt_type m) = map ascii_lower (mt_type m') \<and>
     map ascii_lower (mt_subtype m) = map ascii_lower (mt_subtype m') \<and>
     map_option (map ascii_lower) (mt_suffix m) = map_option (map ascii_lower) (mt_suffix m')"

text \<open>
  What \<open>mediatype\<close> documents: a type, a subtype and an optional suffix are read off the
  text, and names compare without regard to case.
\<close>

locale mediatype =
  fixes ops :: "'e mediatype_ops"
  assumes parse_plain: "plain_name t \<Longrightarrow> plain_name st \<Longrightarrow>
      media_parse ops (t @ ''/'' @ st) = Ok \<lparr>mt_type = t, mt_subtype = st, mt_suffix = None, mt_params = []\<rparr>"
    and parse_suffix: "plain_name t \<Longrightarrow> plain_name st \<Longrightarrow> plain_name sx \<Longrightarrow>
      media_parse ops (t @ ''/'' @ st @ ''+'' @ sx) =
        Ok \<lparr>mt_type = t, mt_subtype = st, mt_suffix = Some sx, mt_params = []\<rparr>"
    and eq_names: "mt_params m = [] \<Longrightarrow> mt_params m' = [] \<Longrightarrow> media_eq ops m m' \<longleftrightarrow> same_names m m'"
begin

lemma parse_to_str: "media_parse ops (to_str c) = Ok (to_mediatype c)"
  using parse_plain [of "''application''" "''json''"]
    parse_plain [of "''application''" "''x-www-form-urlencoded''"]
    parse_suffix [of "''application''" "''json-patch''" "''json''"]
  by (cases c) (simp_all add: plain_name_def APP_JSON_def APP_FORM_def APP_PATCH_JSON_def)

lemma eq_constants:
  "media_eq ops (to_mediatype c) (to_mediatype c') \<longleftrightarrow> c = c'"
  by (cases c; cases c')
    (simp_all add: eq_names same_names_def APP_JSON_def APP_FORM_def APP_PATCH_JSON_def ascii_lower_def)

lemma from_str_to_str: "content_type_from_str ops (to_str c) = Ok c"
  unfolding content_type_from_str_def parse_to_str
  using eq_constants [of c AppJson] eq_constants [of c AppForm] eq_constants [of c AppPatchJson]
  by (cases c) simp_all

end

lemma content_type_from_str_sound:
  "content_type_from_str ops s = Ok c \<Longrightarrow> \<exists>m. media_parse ops s = Ok m \<and> media_eq ops m (to_mediatype c)"
  by (auto simp: content_type_from_str_def and_then_eq_Ok split: if_splits)

text \<open>A parser for texts without parameters, as an instance of the contract.\<close>

definition media_split :: "char \<Rightarrow> string \<Rightarrow> string \<times> string option" where
  "media_split d s = (case dropWhile (\<lambda>c. c \<noteq> d) s of
     [] \<Rightarrow> (s, None) | _ # rest \<Rightarrow> (takeWhile (\<lambda>c. c \<noteq> d) s, Some rest))"

definition media_ref :: "unit mediatype_ops" where
  "media_ref = \<lparr>
     media_parse = (\<lambda>s. case media_split CHR ''/'' s of
         (t, None) \<Rightarrow> Err ()
       | (t, Some rest) \<Rightarrow> (case media_split CHR ''+'' rest of (st, sx) \<Rightarrow>
           Ok \<lparr>mt_type = t, mt_subtype = st, mt_suffix = sx, mt_params = []\<rparr>)),
     media_eq = same_names\<rparr>"

lemma media_split_found:
  assumes "d \<notin> set s"
  shows "media_split d (s @ d # rest) = (s, Some rest)"
proof -
  have "takeWhile (\<lambda>c. c \<noteq> d) (s @ d # rest) = s" "dropWhile (\<lambda>c. c \<noteq> d) (s @ d # rest) = d # rest"
    using assms by (induction s) auto
  then show ?thesis by (simp add: media_split_def)
qed

lemma media_split_none: "d \<notin> set s \<Longrightarrow> media_split d s = (s, None)"
proof -
  assume "d \<notin> set s"
  then have "dropWhile (\<lambda>c. c \<noteq> d) s = []"
    by (auto simp: dropWhile_eq_Nil_conv)
  then show ?thesis
    unfolding media_split_def by (simp only: list.case)
qed

lemma plain_name_set: "plain_name s \<Longrightarrow> CHR ''/'' \<notin> set s \<and> CHR ''+'' \<notin> set s"
  by (auto simp: plain_name_def list_all_iff)

interpretation ref_media: mediatype media_ref
  by unfold_locales
    (auto simp: media_ref_def media_split_found media_split_none dest!: plain_name_set)

subsection \<open>Lemmas on headers and requests\<close>

lemma field_text_literal: "field_text ([CHR 0x22] @ s @ [CHR 0x22]) = Some s"
  by (simp add: field_text_def str_slice_def)

lemma field_text_other: "s \<noteq> [] \<Longrightarrow> hd s \<noteq> CHR 0x22 \<Longrightarrow> field_text s = Some s"
  by (cases s) (simp_all add: field_text_def str_slice_def)

text \<open>A field and the header that it becomes.\<close>

definition field_header :: "('v, 'b, 'q, 'e) serde_ops \<Rightarrow> string \<times> 'v \<Rightarrow> string \<times> string \<Rightarrow> bool" where
  "field_header ops f h \<longleftrightarrow>
     header_name ops (replace_char CHR ''_'' CHR ''-'' (fst f)) = Some (fst h) \<and>
     (\<exists>js. json_to_string ops (snd f) = Ok js \<and> field_text js = Some (snd h)) \<and>
     valid_header_value ops (snd h)"

lemma serialize_field_Ok:
  "serialize_field ops key v m = Some (Ok m') \<longleftrightarrow>
     (\<exists>k x. field_header ops (key, v) (k, x) \<and> m' = m(k \<mapsto> x))"
  by (auto simp: serialize_field_def bind_res_Ok ok_or_def header_value_from_str_def field_header_def
      Let_def split: option.splits if_splits)

lemma serialize_fields_Ok:
  "serialize_fields ops fs m = Some (Ok m') \<longleftrightarrow>
     (\<exists>hs. list_all2 (field_header ops) fs hs \<and> m' = m ++ map_of (rev hs))"
proof (induction fs arbitrary: m)
  case (Cons f fs)
  obtain key v where f: "f = (key, v)" by (cases f)
  show ?case
  proof
    assume "serialize_fields ops (f # fs) m = Some (Ok m')"
    then obtain k x hs where "field_header ops f (k, x)" "list_all2 (field_header ops) fs hs"
      "m' = m(k \<mapsto> x) ++ map_of (rev hs)"
      by (auto simp: f bind_res_Ok serialize_field_Ok Cons.IH)
    then show "\<exists>hs. list_all2 (field_header ops) (f # fs) hs \<and> m' = m ++ map_of (rev hs)"
      by (intro exI [where x = "(k, x) # hs"]) (simp add: map_add_assoc [symmetric] map_add_upd_left)
  next
    assume "\<exists>hs. list_all2 (field_header ops) (f # fs) hs \<and> m' = m ++ map_of (rev hs)"
    then obtain k x hs where "field_header ops f (k, x)" "list_all2 (field_header ops) fs hs"
      "m' = m ++ map_of (rev ((k, x) # hs))"
      by (auto simp: list_all2_Cons1)
    moreover from this(3) have "m' = m(k \<mapsto> x) ++ map_of (rev hs)"
      by (simp add: map_add_assoc [symmetric] map_add_upd_left)
    ultimately show "serialize_fields ops (f # fs) m = Some (Ok m')"
      unfolding f serialize_fields.simps bind_res_Ok serialize_field_Ok Cons.IH by blast
  qed
qed auto


lemma map_transpose_Ok:
  "map_transpose f x = Some (Ok y) \<longleftrightarrow>
     (case x of None \<Rightarrow> y = None | Some a \<Rightarrow> \<exists>b. f a = Some (Ok b) \<and> y = Some b)"
  by (auto simp: map_transpose_def split: option.splits)

lemma extend_headers_Ok:
  "extend_headers ops header m = Some (Ok m') \<longleftrightarrow>
     (case header of None \<Rightarrow> m' = m | Some h \<Rightarrow> \<exists>hs. to_headers ops h = Some (Ok hs) \<and> m' = m ++ hs)"
  by (auto simp: extend_headers_def bind_res_Ok map_transpose_Ok split: option.splits)

subsection \<open>Properties\<close>

text \<open>
  Content types.  The text of a content type is a header value and is parsed back to that
  content type, and a text is accepted only when the media type it denotes equals the one of the result.
\<close>

theorem content_type_roundtrip:
  assumes "mediatype ops"
  shows "to_header_value c = Some (content_type_fmt c) \<and> content_type_from_str ops (content_type_fmt c) = Ok c \<and>
    (content_type_from_str ops s = Ok c' \<longrightarrow>
       (\<exists>m. media_parse ops s = Ok m \<and> media_eq ops m (to_mediatype c')))"
  using mediatype.from_str_to_str [OF assms] content_type_from_str_sound [of ops s c']
  by (simp add: content_type_fmt_def)

theorem content_type_roundtrip_witness:
  "content_type_from_str media_ref (content_type_fmt AppPatchJson) = Ok AppPatchJson \<and>
   (\<exists>m. media_parse media_ref (to_str AppForm) = Ok m \<and> media_eq media_ref m APP_FORM)"
  using content_type_roundtrip [OF ref_media.mediatype_axioms, of AppPatchJson "to_str AppForm" AppForm]
    ref_media.from_str_to_str [of AppForm]
  by simp

text \<open>
  Headers from a value.  A value becomes headers exactly when it is a structure each of
  whose fields has a valid name, with underscores turned into hyphens, and a valid value, the
  JSON text without the quotes of a string; of two fields with one name the later one counts.
  Every other kind of value is refused, a 128-bit integer with the message of the trait.
\<close>

theorem to_headers_outcome:
  "(to_headers ops v = Some (Ok m) \<longleftrightarrow>
     (\<exists>fs hs. v = SerStruct fs \<and> list_all2 (field_header ops) fs hs \<and> m = map_of (rev hs))) \<and>
   (case v of
      SerStruct fs \<Rightarrow> True
    | SerScalar c \<Rightarrow> to_headers ops v = Some (Err
        (if c = SerI128 then SerdeParsingError ''i128 is not supported''
         else if c = SerU128 then SerdeParsingError ''u128 is not supported'' else InvalidType))
    | _ \<Rightarrow> to_headers ops v = Some (Err InvalidType))"
proof (cases v)
  case (SerScalar c)
  then show ?thesis
    by (cases c) (simp_all add: to_headers_def custom_def)
next
  case (SerCompound c)
  then show ?thesis
    by (cases c) (simp_all add: to_headers_def)
qed (auto simp: to_headers_def serialize_fields_Ok)

text \<open>The fields of a header argument and the headers they become.\<close>

definition header_fields ::
  "('v, 'b, 'q, 'e) serde_ops \<Rightarrow> 'v ser_call option \<Rightarrow> (string \<times> string) list \<Rightarrow> bool" where
  "header_fields ops header hs = (case header of
     None \<Rightarrow> hs = []
   | Some h \<Rightarrow> \<exists>fs. h = SerStruct fs \<and> list_all2 (field_header ops) fs hs)"

lemma extend_headers_fields:
  assumes "extend_headers ops header Map.empty = Some (Ok m)"
  shows "\<exists>hs. header_fields ops header hs \<and> m = map_of (rev hs)"
proof (cases header)
  case (Some h)
  with assms obtain hs where "to_headers ops h = Some (Ok hs)" "m = hs"
    by (auto simp: extend_headers_Ok)
  with Some to_headers_outcome [of ops h hs] show ?thesis
    by (auto simp: header_fields_def)
qed (use assms in \<open>auto simp: extend_headers_Ok header_fields_def\<close>)

text \<open>Serialising the query, and the rest of a request once its query and headers are there.\<close>

abbreviation query_pairs ::
  "('v, 'b, 'q, 'e) serde_ops \<Rightarrow> 'q option \<Rightarrow>
     ((string \<times> string) list option, ('p, 'e) generic_client_error) result option" where
  "query_pairs ops \<equiv> map_transpose (\<lambda>q. Some (map_err QuerySerDeError (urlencoded_pairs ops q)))"

lemma query_pairs_cases:
  fixes ops :: "('v, 'b, 'q, 'e) serde_ops"
  obtains (pairs) ps where "(query_pairs ops query :: (_, ('p, 'e) generic_client_error) result option) = Some (Ok ps)"
      "case query of None \<Rightarrow> the_default [] ps = [] | Some q \<Rightarrow> urlencoded_pairs ops q = Ok (the_default [] ps)"
  | (failed) q e where "query = Some q" "urlencoded_pairs ops q = Err e"
      "(query_pairs ops query :: (_, ('p, 'e) generic_client_error) result option) = Some (Err (QuerySerDeError e))"
proof (cases query)
  case None
  with pairs [of None] show thesis by (simp add: map_transpose_def the_default_def)
next
  case (Some q)
  with pairs [of "Some ps" for ps] failed [of q] show thesis
    by (cases "urlencoded_pairs ops q") (auto simp: map_transpose_def the_default_def)
qed

lemma extend_headers_cases:
  fixes ops :: "('v, 'b, 'q, 'e) serde_ops"
  obtains (panics) h where "header = Some h" "to_headers ops h = None"
      "(extend_headers ops header Map.empty :: (header_map, ('p, 'e) generic_client_error) result option) = None"
  | (failed) h e where "header = Some h" "to_headers ops h = Some (Err e)"
      "(extend_headers ops header Map.empty :: (header_map, ('p, 'e) generic_client_error) result option) =
         Some (Err (HeaderSerDeError e))"
  | (headers) hs where "header_fields ops header hs"
      "(extend_headers ops header Map.empty :: (header_map, ('p, 'e) generic_client_error) result option) =
         Some (Ok (map_of (rev hs)))"
proof (cases "extend_headers ops header Map.empty :: (header_map, ('p, 'e) generic_client_error) result option")
  case None
  with panics show thesis
    by (cases header; cases "to_headers ops (the header)"; cases "the (to_headers ops (the header))")
      (auto simp: extend_headers_def map_transpose_def)
next
  case (Some r)
  show thesis
  proof (cases r)
    case (Ok m)
    with Some extend_headers_fields headers show thesis by blast
  next
    case (Err e)
    with Some failed show thesis
      by (cases header; cases "to_headers ops (the header)"; cases "the (to_headers ops (the header))")
        (auto simp: extend_headers_def map_transpose_def)
  qed
qed

text \<open>
  C36: requests to the NRF.  A request that is built carries the method given; the base URL with
  its path replaced by the path less one leading slash and the pairs of the query appended, so
  that a path with and a path without its leading slash give the same request; the content type of the
  encoding, whatever the header structure says of it, and under every other name the last field
  of the structure with that name; and the body in the encoding.  It is not built only when the
  query, the header structure or the body cannot be serialised, with the error of the first of
  these; and preparing it panics only on a body in the JSON patch encoding, or in the header
  serialiser.
\<close>

theorem prepare_request_outcome:
  fixes ops :: "('v, 'b, 'q, 'e) serde_ops" and url :: 'u
  assumes "path = ''/'' @ rel \<or> path = rel \<and> take 1 path \<noteq> ''/''"
  shows "case (prepare_request ops uops url path meth header query body enc
      :: ('u request, ('p, 'e) generic_client_error) result option) of
     Some (Ok r) \<Rightarrow> req_method r = meth \<and>
       (\<exists>pairs. (case query of None \<Rightarrow> pairs = [] | Some q \<Rightarrow> urlencoded_pairs ops q = Ok pairs) \<and>
          req_url r = query_pairs_mut uops pairs (set_path uops rel url)) \<and>
       (\<exists>hs. header_fields ops header hs \<and>
          (\<forall>name. req_headers r name = (if name = ''content-type'' then Some (to_str enc) else map_of (rev hs) name))) \<and>
       (case body of None \<Rightarrow> req_body r = None
        | Some b \<Rightarrow> \<exists>bs. req_body r = Some bs \<and>
            (enc = AppJson \<and> json_to_vec ops b = Ok bs \<or> enc = AppForm \<and> qs_to_writer ops b = Ok bs))
   | Some (Err (QuerySerDeError e)) \<Rightarrow> (\<exists>q. query = Some q \<and> urlencoded_pairs ops q = Err e)
   | Some (Err (HeaderSerDeError e)) \<Rightarrow> (\<exists>h. header = Some h \<and> to_headers ops h = Some (Err e)) \<and>
       (\<forall>q. query = Some q \<longrightarrow> is_ok (urlencoded_pairs ops q))
   | Some (Err (SerializationError e)) \<Rightarrow> (\<exists>b. body = Some b \<and> enc = AppJson \<and> json_to_vec ops b = Err e) \<and>
       (\<exists>hs. header_fields ops header hs) \<and> (\<forall>q. query = Some q \<longrightarrow> is_ok (urlencoded_pairs ops q))
   | Some (Err (UrlFormEncodedError e)) \<Rightarrow> (\<exists>b. body = Some b \<and> enc = AppForm \<and> qs_to_writer ops b = Err e) \<and>
       (\<exists>hs. header_fields ops header hs) \<and> (\<forall>q. query = Some q \<longrightarrow> is_ok (urlencoded_pairs ops q))
   | Some (Err _) \<Rightarrow> False
   | None \<Rightarrow> (\<exists>h. header = Some h \<and> to_headers ops h = None) \<or> (\<exists>b. body = Some b) \<and> enc = AppPatchJson"
proof -
  from assms have rel: "remove_leading_slash path = rel"
    by (auto simp: remove_leading_slash_def split: list.splits)
  have unfold: "prepare_request ops uops url path meth header query body enc =
      (bind_res (query_pairs ops query) (\<lambda>ps. bind_res (extend_headers ops header Map.empty) (\<lambda>m.
         bind_res (map_transpose (\<lambda>b. serialize_body ops b enc) body) (\<lambda>body.
           Some (Ok \<lparr>req_method = meth, req_url = query_pairs_mut uops (the_default [] ps) (set_path uops rel url),
             req_headers = m(''content-type'' \<mapsto> to_str enc), req_body = body\<rparr>))))
       :: ('u request, ('p, 'e) generic_client_error) result option)"
    by (simp add: prepare_request_def Let_def rel)
  show ?thesis
  proof (cases rule: query_pairs_cases [of ops query, where ?'p = 'p])
    case (failed q e)
    then show ?thesis
      unfolding unfold failed(3) by simp
  next
    case query: (pairs ps)
    then have ok: "\<forall>q. query = Some q \<longrightarrow> is_ok (urlencoded_pairs ops q)"
      by auto
    show ?thesis
    proof (cases rule: extend_headers_cases [of header ops, where ?'p = 'p])
      case (headers hs)
      with query ok show ?thesis
        unfolding unfold query(1) headers(2)
        by (cases body; cases enc; cases "json_to_vec ops (the body)"; cases "qs_to_writer ops (the body)")
          (auto simp: map_transpose_def)
    next
      case (failed h e)
      with ok show ?thesis
        unfolding unfold query(1) failed(3) by simp
    next
      case (panics h)
      then show ?thesis
        unfolding unfold query(1) panics(3) by simp
    qed
  qed
qed

text \<open>
  Requests of the network function clients.  The URL of the request is the base URL with the
  query; the path is only checked: every other path that can be joined to the base URL gives
  the same request.
\<close>

theorem prepare_http_request_path:
  fixes ops :: "('v, 'b, 'q, 'e) serde_ops"
  assumes "(prepare_http_request ops uops build base path method header query body enc
      :: (string request, ('p, 'e) generic_client_error) result option) = Some (Ok r)"
  shows "\<exists>url. url_parse uops base = Ok url \<and>
    (case query of
        None \<Rightarrow> req_url r = url_to_string uops url
      | Some q \<Rightarrow> \<exists>t. urlencoded_to_string ops q = Ok t \<and> req_url r = url_to_string uops (set_query uops t url)) \<and>
    (\<forall>path' joined. url_join uops url path' = Ok joined \<longrightarrow>
       (prepare_http_request ops uops build base path' method header query body enc
         :: (string request, ('p, 'e) generic_client_error) result option) = Some (Ok r))"
proof -
  obtain url v where ok: "url_parse uops base = Ok url" "url_join uops url path = Ok v"
    using assms unfolding prepare_http_request_def bind_res_Ok by auto
  have "case query of
        None \<Rightarrow> req_url r = url_to_string uops url
      | Some q \<Rightarrow> \<exists>t. urlencoded_to_string ops q = Ok t \<and> req_url r = url_to_string uops (set_query uops t url)"
    using assms ok unfolding prepare_http_request_def Let_def bind_res_Ok map_transpose_Ok
    by (cases query) auto
  moreover have "(prepare_http_request ops uops build base path' method header query body enc
      :: (string request, ('p, 'e) generic_client_error) result option) = Some (Ok r)"
    if "url_join uops url path' = Ok joined" for path' joined
  proof -
    have "(prepare_http_request ops uops build base path' method header query body enc
        :: (string request, ('p, 'e) generic_client_error) result option) =
        prepare_http_request ops uops build base path method header query body enc"
      by (simp add: prepare_http_request_def ok that)
    then show ?thesis by (simp only: assms)
  qed
  ultimately show ?thesis using ok(1) by blast
qed

definition demo_serde :: "(string, string, string, unit) serde_ops" where
  "demo_serde = \<lparr>json_to_string = Ok, json_to_vec = (\<lambda>b. Ok (as_bytes b)), qs_to_writer = (\<lambda>b. Ok (as_bytes b)),
     urlencoded_pairs = (\<lambda>q. Ok [(q, q)]), urlencoded_to_string = Ok, header_name = Some,
     valid_header_value = (\<lambda>_. True)\<rparr>"

definition demo_url :: "(string, unit) url_ops" where
  "demo_url = \<lparr>url_parse = Ok, url_join = (\<lambda>u p. Ok (u @ p)), set_path = (\<lambda>p u. u @ ''/'' @ p),
     query_pairs_mut = (\<lambda>ps u. u @ ''?'' @ join ''&'' (map (\<lambda>(k, v). k @ ''='' @ v) ps)),
     set_query = (\<lambda>q u. u @ ''?'' @ q), url_to_string = (\<lambda>u. u)\<rparr>"

theorem prepare_request_outcome_witness:
  "\<exists>r. prepare_request demo_serde demo_url ''http://nrf'' ''/nnrf'' PUT (Some (SerStruct [(''content_type'', ''text'')]))
       None (Some ''b'') AppJson = (Some (Ok r) :: (string request, (unit, unit) generic_client_error) result option) \<and>
     req_url r = ''http://nrf/nnrf?'' \<and> req_headers r ''content-type'' = Some ''application/json''"
proof -
  obtain r where run: "prepare_request demo_serde demo_url ''http://nrf'' ''/nnrf'' PUT
      (Some (SerStruct [(''content_type'', ''text'')])) None (Some ''b'') AppJson =
        (Some (Ok r) :: (string request, (unit, unit) generic_client_error) result option)"
    by (simp add: prepare_request_def extend_headers_def map_transpose_def to_headers_def serialize_field_def
        ok_or_def header_value_from_str_def field_text_def str_slice_def demo_serde_def Let_def)
  from prepare_request_outcome [where path = "''/nnrf''" and rel = "''nnrf''" and ops = demo_serde and uops = demo_url
      and url = "''http://nrf''" and meth = PUT and header = "Some (SerStruct [(''content_type'', ''text'')])"
      and query = None and body = "Some ''b''" and enc = AppJson and ?'p = unit] run
  have "req_url r = query_pairs_mut demo_url [] (set_path demo_url ''nnrf'' ''http://nrf'')"
    "req_headers r ''content-type'' = Some ''application/json''"
    by auto
  with run show ?thesis
    by (simp add: demo_url_def)
qed

definition demo_http ::
  "string \<Rightarrow> (string request, (unit, unit) generic_client_error) result option" where
  "demo_http path = prepare_http_request demo_serde demo_url (\<lambda>_. Ok ()) ''http://amf'' path GET
     None None None AppJson"

lemma demo_http_run: "demo_http ''/namf-comm/v1'' = Some (Ok \<lparr>req_method = GET, req_url = ''http://amf'',
    req_headers = [''content-type'' \<mapsto> ''application/json''], req_body = Some []\<rparr>)"
  by (simp add: demo_http_def prepare_http_request_def demo_url_def map_transpose_def extend_headers_def)

theorem prepare_http_request_path_witness:
  "demo_http ''/namf-comm/v1'' = demo_http ''/namf-loc/v1'' \<and>
   demo_http ''/namf-comm/v1'' = Some (Ok \<lparr>req_method = GET, req_url = ''http://amf'',
    req_headers = [''content-type'' \<mapsto> ''application/json''], req_body = Some []\<rparr>)"
proof -
  have join: "url_join demo_url u p = Ok (u @ p)" "url_parse demo_url b = Ok b" for u p b
    by (simp_all add: demo_url_def)
  from prepare_http_request_path [OF demo_http_run [unfolded demo_http_def]] join
  have "demo_http ''/namf-loc/v1'' = Some (Ok \<lparr>req_method = GET, req_url = ''http://amf'',
      req_headers = [''content-type'' \<mapsto> ''application/json''], req_body = Some []\<rparr>)"
    unfolding demo_http_def by blast
  then show ?thesis
    by (simp only: demo_http_run)
qed

end
