(* ===== verification/Nrf_Client.thy ===== *)
theory Nrf_Client
  imports Sbi_Request Token_Store App_Config
begin

text \<open>
  \<open>utils/client/src/nrf_client.rs\<close>: the client of the network repository function (NRF).
  It registers and deregisters the network function, searches for others, and obtains access
  tokens, which it keeps in the token store.

  The environment of the client is the record \<open>nrf_env\<close>: the serialisers and the URL type
  of \<open>Sbi_Request\<close>, the tables of paths and methods, the parsers of identifiers and scopes,
  and the network.  \<open>execute\<close> performs one exchange and returns the network after it, so
  that an equal network before and after an operation says that nothing was sent.  The
  static counter of the token store is kept with the client.
\<close>

subsection \<open>Responses\<close>

text \<open>
  The response types are generated by another crate; the sources distinguish successes, the
  statuses that carry a problem description, and all others.
\<close>

datatype problem_status = P400 | P401 | P403 | P404 | P411 | P415 | P429 | P500 | P501 | P503

datatype ('ok, 'p) sbi_response = Success 'ok | Problem problem_status 'p | Unlisted

datatype 'prof register_success = Register200 'prof | Register201 'prof string

datatype ('rsp, 'te) token_success = Token200 'rsp | Token400 'te

datatype nrf_operation = SearchNFInstances | RegisterNFInstance | DeregisterNFInstance | AccessTokenRequest

datatype json_value = JBool bool | JOther

subsection \<open>Tokens\<close>

datatype access_token_type = Bearer

record access_token_rsp =
  access_token :: string
  token_type :: access_token_type

record 'n access_token_req =
  target_nf_type :: nf_type
  source_nf_type :: nf_type
  token_nf_instance_id :: 'n
  token_scope :: string

datatype ('n, 'prof) nrf_body = ProfileBody 'prof | TokenReqBody "'n access_token_req"

subsection \<open>Errors\<close>

datatype ('p, 'te, 'e) nrf_authorization_error =
    InvalidRequestScope 'e
  | AuthorizationClientError "('p, 'e) generic_client_error"
  | AccessTokenError 'te
  | TokenStoreError "('p, 'te, 'e) nrf_authorization_error store_error"
  | TokenParsingError string

datatype ('p, 'te, 'e) nrf_management_error =
    InvalidLocationSent 'e string
  | LocationParseError string
  | ManagementClientError "('p, 'e) generic_client_error"
  | NrfAuthorizationError "('p, 'te, 'e) nrf_authorization_error"

datatype ('p, 'e) nrf_discovery_error = DiscoveryClientError "('p, 'e) generic_client_error"

datatype ('p, 'e) nrf_client_error = DiscoveryError "('p, 'e) nrf_discovery_error"

subsection \<open>The client and its environment\<close>

record ('n, 'u, 'prof, 'v, 'q, 's, 'p, 'te, 'e, 'resp, 'net) nrf_env =
  env_serde :: "('v, ('n, 'prof) nrf_body, 'q, 'e) serde_ops"
  env_url :: "('u, 'e) url_ops"
  nrf_path :: "nrf_operation \<Rightarrow> string"
  nrf_method :: "nrf_operation \<Rightarrow> http_method"
  format_path :: "string \<Rightarrow> 'n \<Rightarrow> (string, 'e) result"
  parse_instance_id :: "string \<Rightarrow> ('n, 'e) result"
  parse_scope :: "string \<Rightarrow> (string, 'e) result"
  service_text :: "service_name \<Rightarrow> string"
  execute :: "'u request \<Rightarrow> 'net \<Rightarrow> ('resp, 'e) result \<times> 'net"
  deser_search :: "'resp \<Rightarrow> (u16 \<times> ('s, 'p) sbi_response, 'e) result"
  deser_register :: "'resp \<Rightarrow> (u16 \<times> ('prof register_success, 'p) sbi_response, 'e) result"
  deser_deregister :: "'resp \<Rightarrow> (u16 \<times> (unit, 'p) sbi_response, 'e) result"
  deser_token :: "'resp \<Rightarrow> (u16 \<times> ((access_token_rsp, 'te) token_success, 'p) sbi_response, 'e) result"
  heart_beat_timer :: "'prof \<Rightarrow> u64 option"
  custom_oauth2 :: "'prof \<Rightarrow> json_value option"

record 'n nf_config =
  cfg_heartbeat_timer :: u64
  cfg_nf_instance_id :: 'n
  cfg_oauth_enabled :: bool

text \<open>The client begins with its \<open>InitConfig\<close>.\<close>

record 'u init_config =
  init_url :: 'u
  init_source :: nf_type

record ('n, 'u, 'm) nrf_client = "'u init_config" +
  nf_config :: "'n nf_config"
  token_map :: 'm
  token_counter :: "32 counter"
  token_notify :: nat

definition nrf_get_nf_id :: "('n, 'u, 'm) nrf_client \<Rightarrow> 'n" where
  "nrf_get_nf_id client = cfg_nf_instance_id (nf_config client)"

definition get_heartbeat_timer :: "('n, 'u, 'm) nrf_client \<Rightarrow> u64" where
  "get_heartbeat_timer client = cfg_heartbeat_timer (nf_config client)"

definition get_oauth_enabled :: "('n, 'u, 'm) nrf_client \<Rightarrow> bool" where
  "get_oauth_enabled client = cfg_oauth_enabled (nf_config client)"

lemmas client_getters [simp] = nrf_get_nf_id_def get_heartbeat_timer_def get_oauth_enabled_def

definition nrf_client_new ::
  "(service_name list, access_token_rsp token_state, 'm) scc_ops \<Rightarrow> 'n \<Rightarrow> 'u \<Rightarrow> nf_type \<Rightarrow> ('n, 'u, 'm) nrf_client" where
  "nrf_client_new ops default_id url source =
     \<lparr>init_url = url, init_source = source,
      nf_config = \<lparr>cfg_heartbeat_timer = 0, cfg_nf_instance_id = default_id, cfg_oauth_enabled = False\<rparr>,
      token_map = token_store_new ops, token_counter = counter_new, token_notify = 0\<rparr>"

subsection \<open>One exchange\<close>

definition exec_deser ::
  "('n, 'u, 'prof, 'v, 'q, 's, 'p, 'te, 'e, 'resp, 'net) nrf_env \<Rightarrow>
     ('resp \<Rightarrow> (u16 \<times> 'r, 'e) result) \<Rightarrow> 'u request \<Rightarrow> 'net \<Rightarrow>
     (u16 \<times> 'r, ('p, 'e) generic_client_error) result \<times> 'net" where
  "exec_deser env deser req net =
     (let (response, net) = execute env req net
      in (and_then (map_err ClientRequestError response) (\<lambda>response.
            map_err ResponseParseError (deser response)), net))"

text \<open>The last arms of the four matches on a response; \<open>listed\<close> are the statuses they name.\<close>

definition check_status ::
  "problem_status list \<Rightarrow> u16 \<Rightarrow> ('ok, 'p) sbi_response \<Rightarrow> ('ok, ('p, 'e) generic_client_error) result" where
  "check_status listed status response =
     (case response of
        Success ok \<Rightarrow> Ok ok
      | Problem st problem \<Rightarrow> Err (InvalidResponse status (if st \<in> set listed then Some problem else None))
      | Unlisted \<Rightarrow> Err (InvalidResponse status None))"

definition search_nf_instance ::
  "('n, 'u, 'prof, 'v, 'q, 's, 'p, 'te, 'e, 'resp, 'net) nrf_env \<Rightarrow> 'q \<Rightarrow> 'v ser_call \<Rightarrow>
     ('n, 'u, 'm) nrf_client \<Rightarrow> 'net \<Rightarrow> (('s, ('p, 'e) nrf_discovery_error) result \<times> 'net) option" where
  "search_nf_instance env query header client net =
     (case prepare_request (env_serde env) (env_url env) (init_url client)
             (nrf_path env SearchNFInstances) (nrf_method env SearchNFInstances)
             (Some header) (Some query) None AppJson of
        None \<Rightarrow> None
      | Some (Err e) \<Rightarrow> Some (Err (DiscoveryClientError e), net)
      | Some (Ok request) \<Rightarrow>
          (case exec_deser env (deser_search env) request net of
             (Err e, net) \<Rightarrow> Some (Err (DiscoveryClientError e), net)
           | (Ok (status, response), net) \<Rightarrow>
               Some (map_err DiscoveryClientError (check_status
                 [P400, P403, P404, P411, P415, P429, P500, P501, P503] status response), net)))"

subsection \<open>Registration\<close>

text \<open>\<open>str::rfind\<close> of a character.\<close>

definition rfind :: "char \<Rightarrow> string \<Rightarrow> nat option" where
  "rfind c s = (if c \<in> set s then Some (length s - 1 - length (takeWhile (\<lambda>x. x \<noteq> c) (rev s))) else None)"

definition parse_location ::
  "('n, 'u, 'prof, 'v, 'q, 's, 'p, 'te, 'e, 'resp, 'net) nrf_env \<Rightarrow> string \<Rightarrow>
     ('n, ('p, 'te, 'e) nrf_management_error) result" where
  "parse_location env location =
     (case rfind CHR ''/'' location of
        None \<Rightarrow> Err (LocationParseError location)
      | Some index \<Rightarrow>
          map_err (\<lambda>e. InvalidLocationSent e location) (parse_instance_id env (drop (index + 1) location)))"

definition register_answer ::
  "('n, 'u, 'prof, 'v, 'q, 's, 'p, 'te, 'e, 'resp, 'net) nrf_env \<Rightarrow> u16 \<Rightarrow>
     ('prof register_success, 'p) sbi_response \<Rightarrow>
     ('prof \<times> 'n option, ('p, 'te, 'e) nrf_management_error) result" where
  "register_answer env status response =
     and_then (map_err ManagementClientError (check_status
         [P400, P401, P403, P404, P411, P415, P429, P500, P501, P503] status response)) (\<lambda>ok.
       case ok of
         Register200 body \<Rightarrow> Ok (body, None)
       | Register201 body location \<Rightarrow>
           map_ok (\<lambda>inst. (body, Some inst)) (parse_location env location))"

definition registered_config ::
  "('n, 'u, 'prof, 'v, 'q, 's, 'p, 'te, 'e, 'resp, 'net) nrf_env \<Rightarrow> 'n \<Rightarrow> 'prof \<Rightarrow> 'n option \<Rightarrow> 'n nf_config" where
  "registered_config env requested nf assigned =
     \<lparr>cfg_heartbeat_timer = the_default 0 (heart_beat_timer env nf),
      cfg_nf_instance_id = the_default requested assigned,
      cfg_oauth_enabled = (case custom_oauth2 env nf of Some (JBool True) \<Rightarrow> True | _ \<Rightarrow> False)\<rparr>"

definition register_nf_instance ::
  "('n, 'u, 'prof, 'v, 'q, 's, 'p, 'te, 'e, 'resp, 'net) nrf_env \<Rightarrow> 'n \<Rightarrow> 'v ser_call \<Rightarrow> 'prof \<Rightarrow>
     ('n, 'u, 'm) nrf_client \<Rightarrow> 'net \<Rightarrow>
     (('prof \<times> 'n option, ('p, 'te, 'e) nrf_management_error) result \<times> ('n, 'u, 'm) nrf_client \<times> 'net) option" where
  "register_nf_instance env requested header body client net =
     (case format_path env (nrf_path env RegisterNFInstance) requested of
        Err e \<Rightarrow> Some (Err (ManagementClientError (PathCreationError e)), client, net)
      | Ok path \<Rightarrow>
          (case prepare_request (env_serde env) (env_url env) (init_url client) path
                  (nrf_method env RegisterNFInstance) (Some header) None (Some (ProfileBody body)) AppJson of
             None \<Rightarrow> None
           | Some (Err e) \<Rightarrow> Some (Err (ManagementClientError e), client, net)
           | Some (Ok request) \<Rightarrow>
               (case exec_deser env (deser_register env) request net of
                  (Err e, net) \<Rightarrow> Some (Err (ManagementClientError e), client, net)
                | (Ok (status, response), net) \<Rightarrow>
                    (case register_answer env status response of
                       Err e \<Rightarrow> Some (Err e, client, net)
                     | Ok (nf, assigned) \<Rightarrow>
                         Some (Ok (nf, assigned),
                           client\<lparr>nf_config := registered_config env requested nf assigned\<rparr>, net)))))"

subsection \<open>Access tokens\<close>

definition authentication_request ::
  "('n, 'u, 'prof, 'v, 'q, 's, 'p, 'te, 'e, 'resp, 'net) nrf_env \<Rightarrow> 'u \<Rightarrow> 'n \<Rightarrow> nf_type \<Rightarrow> nf_type \<Rightarrow>
     service_name list \<Rightarrow> 'net \<Rightarrow>
     ((access_token_rsp, ('p, 'te, 'e) nrf_authorization_error) result \<times> 'net) option" where
  "authentication_request env url source_id source target names net =
     (case parse_scope env (join '' '' (map (service_text env) names)) of
        Err e \<Rightarrow> Some (Err (InvalidRequestScope e), net)
      | Ok scope \<Rightarrow>
          (let token_req = \<lparr>target_nf_type = target, source_nf_type = source,
                 token_nf_instance_id = source_id, token_scope = scope\<rparr>
           in case prepare_request (env_serde env) (env_url env) url (nrf_path env AccessTokenRequest)
                  (nrf_method env AccessTokenRequest) None None (Some (TokenReqBody token_req)) AppForm of
                None \<Rightarrow> None
              | Some (Err e) \<Rightarrow> Some (Err (AuthorizationClientError e), net)
              | Some (Ok request) \<Rightarrow>
                  (case exec_deser env (deser_token env) request net of
                     (Err e, net) \<Rightarrow> Some (Err (AuthorizationClientError e), net)
                   | (Ok (status, response), net) \<Rightarrow>
                       Some (and_then (map_err AuthorizationClientError (check_status
                           [P401, P403, P404, P411, P429, P500, P501, P503] status response)) (\<lambda>ok.
                         case ok of Token200 body \<Rightarrow> Ok body | Token400 err \<Rightarrow> Err (AccessTokenError err)), net))))"

text \<open>The type \<open>Scope\<close> builds the same text from the names.\<close>

definition scope_from_names ::
  "('n, 'u, 'prof, 'v, 'q, 's, 'p, 'te, 'e, 'resp, 'net) nrf_env \<Rightarrow> service_name list \<Rightarrow> string" where
  "scope_from_names env value = join '' '' (map (service_text env) value)"

text \<open>
  \<open>get_token\<close>; \<open>views\<close> is the token map at the turns of the read.  The future given to
  the store runs only when the store has not refused the update.
\<close>

definition get_token ::
  "('n, 'u, 'prof, 'v, 'q, 's, 'p, 'te, 'e, 'resp, 'net) nrf_env \<Rightarrow>
     (service_name list, access_token_rsp token_state, 'm) scc_ops \<Rightarrow> nf_type \<Rightarrow> service_name list \<Rightarrow>
     (nat \<Rightarrow> 'm) \<Rightarrow> ('n, 'u, 'm) nrf_client \<Rightarrow> 'net \<Rightarrow>
     ((access_token_rsp token_entry, ('p, 'te, 'e) nrf_authorization_error) result \<times>
        ('n, 'u, 'm) nrf_client \<times> 'net) option" where
  "get_token env ops target names views client net =
     (case token_get ops names views of
        Err e \<Rightarrow> Some (Err (TokenStoreError e), client, net)
      | Ok (Some entry) \<Rightarrow> Some (Ok entry, client, net)
      | Ok None \<Rightarrow>
          (case authentication_request env (init_url client) (nrf_get_nf_id client)
                  (init_source client) target names net of
             None \<Rightarrow> None
           | Some (future, net') \<Rightarrow>
               (let (r, counter, m) =
                      token_set ops names future (token_notify client) (token_counter client) (token_map client);
                    refused = (set_check ops names (token_map client) :: (access_token_rsp, ('p, 'te, 'e) nrf_authorization_error) set_result option) \<noteq> None
                in Some (map_err TokenStoreError r,
                     client\<lparr>token_map := m, token_counter := counter, token_notify := Suc (token_notify client)\<rparr>,
                     if refused then net else net'))))"

text \<open>The free function \<open>set_auth_token\<close>, which writes the token into a request.\<close>

definition insert_auth_token ::
  "('v, 'b, 'q, 'e) serde_ops \<Rightarrow> 'u request \<Rightarrow> access_token_rsp token_entry \<Rightarrow>
     ('u request, string) result option" where
  "insert_auth_token ops req token_entry =
     Option.bind (token_entry_get token_entry) (\<lambda>rsp.
       let token = (case token_type rsp of Bearer \<Rightarrow> ''Bearer '' @ access_token rsp)
       in Some (if valid_header_value ops token
            then Ok (req\<lparr>req_headers := (req_headers req)(''authorization'' \<mapsto> token)\<rparr>)
            else Err token))"

definition set_auth_token ::
  "('n, 'u, 'prof, 'v, 'q, 's, 'p, 'te, 'e, 'resp, 'net) nrf_env \<Rightarrow>
     (service_name list, access_token_rsp token_state, 'm) scc_ops \<Rightarrow> nf_type \<Rightarrow> service_name list \<Rightarrow>
     (nat \<Rightarrow> 'm) \<Rightarrow> 'u request \<Rightarrow> ('n, 'u, 'm) nrf_client \<Rightarrow> 'net \<Rightarrow>
     (('u request, ('p, 'te, 'e) nrf_authorization_error) result \<times> ('n, 'u, 'm) nrf_client \<times> 'net) option" where
  "set_auth_token env ops target names views req client net =
     (if get_oauth_enabled client
      then case get_token env ops target names views client net of
          None \<Rightarrow> None
        | Some (Err e, client, net) \<Rightarrow> Some (Err e, client, net)
        | Some (Ok entry, client, net) \<Rightarrow>
            map_option (\<lambda>r. (map_err TokenParsingError r, client, net))
              (insert_auth_token (env_serde env) req entry)
      else Some (Ok req, client, net))"

subsection \<open>Deregistration\<close>

definition NnrfNfm :: service_name where
  "NnrfNfm = OtherService ''nnrf-nfm''"

definition deregister_nf_instance ::
  "('n, 'u, 'prof, 'v, 'q, 's, 'p, 'te, 'e, 'resp, 'net) nrf_env \<Rightarrow>
     (service_name list, access_token_rsp token_state, 'm) scc_ops \<Rightarrow> (nat \<Rightarrow> 'm) \<Rightarrow>
     ('n, 'u, 'm) nrf_client \<Rightarrow> 'net \<Rightarrow>
     ((unit, ('p, 'te, 'e) nrf_management_error) result \<times> ('n, 'u, 'm) nrf_client \<times> 'net) option" where
  "deregister_nf_instance env ops views client net =
     (case format_path env (nrf_path env DeregisterNFInstance) (nrf_get_nf_id client) of
        Err e \<Rightarrow> Some (Err (ManagementClientError (PathCreationError e)), client, net)
      | Ok path \<Rightarrow>
          (case prepare_request (env_serde env) (env_url env) (init_url client) path
                  (nrf_method env DeregisterNFInstance) None None None AppJson of
             None \<Rightarrow> None
           | Some (Err e) \<Rightarrow> Some (Err (ManagementClientError e), client, net)
           | Some (Ok request) \<Rightarrow>
               (case set_auth_token env ops NfTypeNrf [NnrfNfm] views request client net of
                  None \<Rightarrow> None
                | Some (Err e, client, net) \<Rightarrow> Some (Err (NrfAuthorizationError e), client, net)
                | Some (Ok request, client, net) \<Rightarrow>
                    (case exec_deser env (deser_deregister env) request net of
                       (Err e, net) \<Rightarrow> Some (Err (ManagementClientError e), client, net)
                     | (Ok (status, response), net) \<Rightarrow>
                         Some (map_err ManagementClientError (check_status
                           [P400, P401, P403, P404, P411, P429, P500, P501, P503] status response), client, net)))))"


subsection \<open>Lemmas\<close>

lemma rfind_last: "c \<notin> set seg \<Longrightarrow> rfind c (pre @ c # seg) = Some (length pre)"
proof -
  assume "c \<notin> set seg"
  then have "takeWhile (\<lambda>x. x \<noteq> c) (rev seg @ c # rev pre) = rev seg"
    by (subst takeWhile_append2) auto
  then show ?thesis
    by (simp add: rfind_def)
qed

lemma rfind_split:
  assumes "rfind c s = Some i"
  obtains pre seg where "s = pre @ c # seg" "c \<notin> set seg" "i = length pre"
proof -
  from assms have "c \<in> set s"
    by (auto simp: rfind_def split: if_splits)
  then obtain pre seg where s: "s = pre @ c # seg" "c \<notin> set seg"
    by (metis split_list_last)
  with assms rfind_last [of c seg pre] have "i = length pre"
    by simp
  with s show thesis by (rule that)
qed

lemma parse_location_Ok:
  "parse_location env location = Ok i \<longleftrightarrow>
     (\<exists>pre seg. location = pre @ CHR ''/'' # seg \<and> CHR ''/'' \<notin> set seg \<and> parse_instance_id env seg = Ok i)"
proof
  assume "parse_location env location = Ok i"
  then obtain index where index: "rfind CHR ''/'' location = Some index"
    and i: "parse_instance_id env (drop (Suc index) location) = Ok i"
    by (auto simp: parse_location_def split: option.splits)
  from index obtain pre seg where "location = pre @ CHR ''/'' # seg" "CHR ''/'' \<notin> set seg" "index = length pre"
    by (rule rfind_split)
  with i show "\<exists>pre seg. location = pre @ CHR ''/'' # seg \<and> CHR ''/'' \<notin> set seg \<and> parse_instance_id env seg = Ok i"
    by (intro exI [where x = pre] exI [where x = seg]) simp
next
  assume "\<exists>pre seg. location = pre @ CHR ''/'' # seg \<and> CHR ''/'' \<notin> set seg \<and> parse_instance_id env seg = Ok i"
  then show "parse_location env location = Ok i"
    by (auto simp: parse_location_def rfind_last)
qed

lemma check_status_Ok: "check_status listed status response = Ok ok \<longleftrightarrow> response = Success ok"
  by (auto simp: check_status_def split: sbi_response.splits)

lemma exec_deser_Ok:
  "exec_deser env deser req net = (Ok x, net') \<longleftrightarrow>
     (\<exists>response. execute env req net = (Ok response, net') \<and> deser response = Ok x)"
  by (auto simp: exec_deser_def and_then_eq_Ok split: prod.splits)

lemma register_answer_Ok:
  "register_answer env status response = Ok (nf, assigned) \<longleftrightarrow>
     (case assigned of
        None \<Rightarrow> response = Success (Register200 nf)
      | Some i \<Rightarrow> \<exists>location. response = Success (Register201 nf location) \<and> parse_location env location = Ok i)"
  by (cases response)
    (auto simp: register_answer_def check_status_def split: register_success.splits option.splits)

lemma registered_oauth:
  "cfg_oauth_enabled (registered_config env requested nf assigned) \<longleftrightarrow> custom_oauth2 env nf = Some (JBool True)"
  by (auto simp: registered_config_def split: option.splits json_value.splits bool.splits)

text \<open>What a successful update leaves in the store for the next reader.\<close>

lemma token_entry_stays:
  fixes env :: "('n, 'u, 'prof, 'v, 'q, 's, 'p, 'te, 'e, 'resp, 'net) nrf_env"
  assumes "scc_hash_map ops entries"
    and "get_token env ops target names (\<lambda>_. token_map client) client net = Some (Ok entry, client', net')"
  shows "(token_get ops names (\<lambda>_. token_map client') ::
    (access_token_rsp, ('p, 'te, 'e) nrf_authorization_error) get_result) = Ok (Some entry)"
proof -
  consider
    (found) "(token_get ops names (\<lambda>_. token_map client) ::
      (access_token_rsp, ('p, 'te, 'e) nrf_authorization_error) get_result) = Ok (Some entry)" "client' = client"
  | (set) future :: "(access_token_rsp, ('p, 'te, 'e) nrf_authorization_error) result" and counter where
      "token_set ops names future (token_notify client) (token_counter client) (token_map client) =
         (Ok entry, counter, token_map client')"
    using assms(2)
    by (auto simp: get_token_def Let_def split: option.splits prod.splits result.splits)
  then show ?thesis
  proof cases
    case set
    from token_set_read [OF assms(1) set] show ?thesis
      by (auto split: if_splits result.splits)
  qed simp
qed

lemma prepare_plain:
  assumes "prepare_request ops uops url path method None None None enc = Some (Ok req)"
  shows "req_method req = method" "req_headers req = [''content-type'' \<mapsto> to_str enc]"
    "req_body req = None" "req_url req = query_pairs_mut uops [] (set_path uops (remove_leading_slash path) url)"
  using assms by (auto simp: prepare_request_def map_transpose_def extend_headers_def the_default_def)

lemma set_auth_token_Ok:
  assumes "set_auth_token env ops target names views req client net = Some (Ok req', client', net')"
  shows "if cfg_oauth_enabled (nf_config client)
    then \<exists>entry rsp. get_token env ops target names views client net = Some (Ok entry, client', net') \<and>
      token_entry_get entry = Some rsp \<and>
      req' = req\<lparr>req_headers := (req_headers req)(''authorization'' \<mapsto> ''Bearer '' @ access_token rsp)\<rparr>
    else req' = req \<and> client' = client \<and> net' = net"
  using assms
  by (auto simp: set_auth_token_def insert_auth_token_def Let_def
      split: if_splits option.splits result.splits prod.splits bind_splits access_token_type.splits)

subsection \<open>Properties\<close>

text \<open>
  C33: registration.  A registration that fails leaves the client as it was.  One that succeeds
  rests on an answer of the NRF, stores its timer and its choice about access tokens, and takes
  as identifier the one requested when the answer is 200, and for 201 the one that the last
  segment of the location denotes.
\<close>

theorem register_nf_outcome:
  assumes "register_nf_instance env requested header body client net = Some (r, client', net')"
  shows "case r of
      Err e \<Rightarrow> client' = client
    | Ok (nf, assigned) \<Rightarrow>
        (\<exists>req response status answer. execute env req net = (Ok response, net') \<and>
           deser_register env response = Ok (status, Success answer) \<and>
           (case assigned of
              None \<Rightarrow> answer = Register200 nf
            | Some i \<Rightarrow> \<exists>pre seg. answer = Register201 nf (pre @ CHR ''/'' # seg) \<and> CHR ''/'' \<notin> set seg \<and>
                parse_instance_id env seg = Ok i)) \<and>
        (\<exists>cfg. client' = client\<lparr>nf_config := cfg\<rparr> \<and>
           cfg_nf_instance_id cfg = the_default requested assigned \<and>
           cfg_heartbeat_timer cfg = the_default 0 (heart_beat_timer env nf) \<and>
           (cfg_oauth_enabled cfg \<longleftrightarrow> custom_oauth2 env nf = Some (JBool True)))"
proof (cases r)
  case (Err e)
  with assms show ?thesis
    by (auto simp: register_nf_instance_def split: result.splits option.splits prod.splits)
next
  case (Ok x)
  obtain nf assigned where x: "x = (nf, assigned)" by (cases x)
  from assms obtain req status response where
    run: "exec_deser env (deser_register env) req net = (Ok (status, response), net')"
    and answer: "register_answer env status response = Ok (nf, assigned)"
    and client': "client' = client\<lparr>nf_config := registered_config env requested nf assigned\<rparr>"
    unfolding Ok x register_nf_instance_def
    by (auto split: result.splits option.splits prod.splits)
  from run obtain resp where "execute env req net = (Ok resp, net')" "deser_register env resp = Ok (status, response)"
    by (auto simp: exec_deser_Ok)
  moreover from answer obtain ok where "response = Success ok"
    "case assigned of None \<Rightarrow> ok = Register200 nf
     | Some i \<Rightarrow> \<exists>pre seg. ok = Register201 nf (pre @ CHR ''/'' # seg) \<and> CHR ''/'' \<notin> set seg \<and> parse_instance_id env seg = Ok i"
    by (cases assigned) (auto simp: register_answer_Ok parse_location_Ok)
  ultimately show ?thesis
    using client' registered_oauth [of env requested nf assigned]
    unfolding Ok x by (auto simp: registered_config_def)
qed

text \<open>
  Tokens are obtained once.  When \<open>get_token\<close> has returned an entry, every later call
  for the same services returns that entry and sends nothing, whatever function the token is
  meant for and however old it is.
\<close>

theorem get_token_cached:
  assumes "scc_hash_map ops entries"
    and "get_token env ops target names (\<lambda>_. token_map client) client net = Some (Ok entry, client', net')"
  shows "get_token env ops target' names (\<lambda>_. token_map client') client' later = Some (Ok entry, client', later)"
  using token_entry_stays [OF assms] by (simp add: get_token_def)

text \<open>
  The request of a successful deregistration, in full: what it is sent to, for which identifier,
  and with which authorization.
\<close>

lemma deregister_request:
  fixes env :: "('n, 'u, 'prof, 'v, 'q, 's, 'p, 'te, 'e, 'resp, 'net) nrf_env"
  assumes "deregister_nf_instance env ops views client net = Some (Ok (), client', net')"
  obtains path req net1 response status where
    "format_path env (nrf_path env DeregisterNFInstance) (nrf_get_nf_id client) = Ok path"
    "req_method req = nrf_method env DeregisterNFInstance" "req_body req = None"
    "req_url req = query_pairs_mut (env_url env) []
       (set_path (env_url env) (remove_leading_slash path) (init_url client))"
    "execute env req net1 = (Ok response, net')"
    "deser_deregister env response = Ok (status, Success ())"
    "if get_oauth_enabled client
     then \<exists>entry rsp. get_token env ops NfTypeNrf [NnrfNfm] views client net = Some (Ok entry, client', net1) \<and>
       token_entry_get entry = Some rsp \<and>
       req_headers req ''authorization'' = Some (''Bearer '' @ access_token rsp)
     else req_headers req ''authorization'' = None \<and> client' = client \<and> net1 = net"
proof -
  from assms obtain path req0 req net1 status response where
    path: "format_path env (nrf_path env DeregisterNFInstance) (nrf_get_nf_id client) = Ok path"
    and req0: "(prepare_request (env_serde env) (env_url env) (init_url client) path
      (nrf_method env DeregisterNFInstance) None None None AppJson ::
        ('u request, ('p, 'e) generic_client_error) result option) = Some (Ok req0)"
    and auth: "set_auth_token env ops NfTypeNrf [NnrfNfm] views req0 client net = Some (Ok req, client', net1)"
    and run: "exec_deser env (deser_deregister env) req net1 = (Ok (status, response), net')"
    and ok: "map_err ManagementClientError (check_status
      [P400, P401, P403, P404, P411, P429, P500, P501, P503] status response) =
        (Ok () :: (unit, ('p, 'te, 'e) nrf_management_error) result)"
    unfolding deregister_nf_instance_def
    by (auto split: result.splits option.splits prod.splits)
  from run obtain resp where resp: "execute env req net1 = (Ok resp, net')"
    "deser_deregister env resp = Ok (status, response)"
    by (auto simp: exec_deser_Ok)
  from ok have "response = Success ()"
    by (simp add: check_status_Ok)
  with resp have deser: "deser_deregister env resp = Ok (status, Success ())"
    by simp
  note plain = prepare_plain [OF req0]
  note auth' = set_auth_token_Ok [OF auth]
  from plain auth' have same: "req_method req = nrf_method env DeregisterNFInstance" "req_body req = None"
    "req_url req = query_pairs_mut (env_url env) []
       (set_path (env_url env) (remove_leading_slash path) (init_url client))"
    by (auto split: if_splits)
  from plain auth' have hdr: "if get_oauth_enabled client
     then \<exists>entry rsp. get_token env ops NfTypeNrf [NnrfNfm] views client net = Some (Ok entry, client', net1) \<and>
       token_entry_get entry = Some rsp \<and>
       req_headers req ''authorization'' = Some (''Bearer '' @ access_token rsp)
     else req_headers req ''authorization'' = None \<and> client' = client \<and> net1 = net"
    by (auto split: if_splits)
  show thesis
    by (rule that [OF path same resp(1) deser hdr])
qed

lemma register_commits:
  assumes "register_nf_instance env requested header body client net = Some (Ok (nf, assigned), client', net')"
  shows "client' = client\<lparr>nf_config := registered_config env requested nf assigned\<rparr>"
  using assms unfolding register_nf_instance_def
  by (auto split: result.splits option.splits prod.splits)

text \<open>
  Deregistration.  A deregistration that succeeds was answered by the NRF; the request it
  answered carried the token as a bearer token when the registration had enabled tokens, and no
  authorization otherwise.
\<close>

theorem deregister_outcome:
  fixes env :: "('n, 'u, 'prof, 'v, 'q, 's, 'p, 'te, 'e, 'resp, 'net) nrf_env"
  assumes "deregister_nf_instance env ops views client net = Some (Ok (), client', net')"
  shows "\<exists>req net1 response. execute env req net1 = (Ok response, net') \<and>
    req_method req = nrf_method env DeregisterNFInstance \<and>
    (if cfg_oauth_enabled (nf_config client)
     then \<exists>entry rsp. get_token env ops NfTypeNrf [NnrfNfm] views client net = Some (Ok entry, client', net1) \<and>
       token_entry_get entry = Some rsp \<and>
       req_headers req ''authorization'' = Some (''Bearer '' @ access_token rsp)
     else req_headers req ''authorization'' = None \<and> client' = client \<and> net1 = net)"
  by (rule deregister_request [OF assms, unfolded client_getters]) blast

text \<open>
  C34: registration and deregistration belong together.  A deregistration that succeeds on the
  client of a successful registration was answered by the NRF; its request went to the path of
  the identifier that the NRF had assigned, or of the requested one when it assigned none,
  without a body, with the token of the NRF as bearer token when the profile returned at
  registration enables tokens, and otherwise without authorization and as the only exchange.
\<close>

theorem deregister_after_register:
  fixes env :: "('n, 'u, 'prof, 'v, 'q, 's, 'p, 'te, 'e, 'resp, 'net) nrf_env"
  assumes "register_nf_instance env requested header body client net = Some (Ok (nf, assigned), client1, net1)"
    and "deregister_nf_instance env ops views client1 net2 = Some (Ok (), client2, net3)"
  shows "\<exists>path req net' response status.
    format_path env (nrf_path env DeregisterNFInstance) (the_default requested assigned) = Ok path \<and>
    req_method req = nrf_method env DeregisterNFInstance \<and> req_body req = None \<and>
    req_url req = query_pairs_mut (env_url env) []
      (set_path (env_url env) (remove_leading_slash path) (init_url client)) \<and>
    execute env req net' = (Ok response, net3) \<and> deser_deregister env response = Ok (status, Success ()) \<and>
    (if custom_oauth2 env nf = Some (JBool True)
     then \<exists>entry rsp. get_token env ops NfTypeNrf [NnrfNfm] views client1 net2 = Some (Ok entry, client2, net') \<and>
       token_entry_get entry = Some rsp \<and>
       req_headers req ''authorization'' = Some (''Bearer '' @ access_token rsp)
     else req_headers req ''authorization'' = None \<and> client2 = client1 \<and> net' = net2)"
proof -
  from register_commits [OF assms(1)]
  have client1: "nrf_get_nf_id client1 = the_default requested assigned" "init_url client1 = init_url client"
    "get_oauth_enabled client1 \<longleftrightarrow> custom_oauth2 env nf = Some (JBool True)"
    by (simp_all add: registered_oauth) (simp add: registered_config_def)
  show ?thesis
    by (rule deregister_request [OF assms(2), unfolded client1]) blast
qed

subsection \<open>A concrete environment\<close>

text \<open>
  The network is the list of the requests sent.  The NRF accepts registrations with status 201,
  grants tokens when \<open>grant\<close> holds, and accepts deregistrations.
\<close>

type_synonym demo_nrf_env =
  "(nat, string, nat, string, string, unit, unit, unit, unit, unit, string request list) nrf_env"

definition demo_nrf :: "bool \<Rightarrow> demo_nrf_env" where
  "demo_nrf grant = \<lparr>
     env_serde = \<lparr>json_to_string = Ok, json_to_vec = (\<lambda>_. Ok []), qs_to_writer = (\<lambda>_. Ok []),
       urlencoded_pairs = (\<lambda>q. Ok [(q, q)]), urlencoded_to_string = Ok, header_name = Some,
       valid_header_value = (\<lambda>_. True)\<rparr>,
     env_url = demo_url,
     nrf_path = (\<lambda>_. ''/nnrf''), nrf_method = (\<lambda>_. PUT),
     format_path = (\<lambda>p n. Ok p), parse_instance_id = (\<lambda>s. Ok (length s)), parse_scope = Ok,
     service_text = (\<lambda>_. ''nnrf-nfm''),
     execute = (\<lambda>req net. (Ok (), net @ [req])),
     deser_search = (\<lambda>_. Ok (200, Success ())),
     deser_register = (\<lambda>_. Ok (201, Success (Register201 9 ''nf/abc''))),
     deser_deregister = (\<lambda>_. Ok (204, Success ())),
     deser_token = (\<lambda>_. if grant
       then Ok (200, Success (Token200 \<lparr>access_token = ''t'', token_type = Bearer\<rparr>))
       else Ok (400, Success (Token400 ()))),
     heart_beat_timer = (\<lambda>_. Some 60), custom_oauth2 = (\<lambda>_. Some (JBool True))\<rparr>"

definition demo_client :: "(nat, string, service_name list \<rightharpoonup> access_token_rsp token_state) nrf_client" where
  "demo_client = nrf_client_new map_ops 0 ''http://nrf'' NfTypeAmf"

lemmas demo_nrf_eval = demo_nrf_def demo_client_def nrf_client_new_def token_store_new_def demo_url_def prepare_request_def
  map_transpose_def extend_headers_def to_headers_def exec_deser_def check_status_def the_default_def
  remove_leading_slash_def

text \<open>The registration run, and the answer \<open>nf/abc\<close> read as the identifier 3.\<close>

lemma demo_register:
  "\<exists>net. register_nf_instance (demo_nrf g) 5 (SerStruct []) 9 demo_client [] =
     Some (Ok (9, Some 3), demo_client\<lparr>nf_config := \<lparr>cfg_heartbeat_timer = 60, cfg_nf_instance_id = 3,
       cfg_oauth_enabled = True\<rparr>\<rparr>, net)"
  by (simp add: register_nf_instance_def demo_nrf_eval register_answer_def registered_config_def
      parse_location_def rfind_def)

theorem register_nf_outcome_witness:
  "\<exists>net. register_nf_instance (demo_nrf True) 5 (SerStruct []) 9 demo_client [] =
     Some (Ok (9, Some 3), demo_client\<lparr>nf_config := \<lparr>cfg_heartbeat_timer = 60, cfg_nf_instance_id = 3,
       cfg_oauth_enabled = True\<rparr>\<rparr>, net) \<and>
     (\<exists>req response. execute (demo_nrf True) req [] = (Ok response, net))"
  using demo_register [of True] register_nf_outcome [of "demo_nrf True" 5 "SerStruct []" 9 demo_client "[]"]
  by fastforce

lemma demo_token:
  "authentication_request (demo_nrf g) ''http://nrf'' n NfTypeAmf t names [] =
     Some (if g then Ok \<lparr>access_token = ''t'', token_type = Bearer\<rparr> else Err (AccessTokenError ()),
       [\<lparr>req_method = PUT, req_url = ''http://nrf/nnrf?'',
         req_headers = [''content-type'' \<mapsto> ''application/x-www-form-urlencoded''], req_body = Some []\<rparr>])"
  by (simp add: authentication_request_def demo_nrf_eval)

lemma demo_get_token:
  "\<exists>entry client net. get_token (demo_nrf True) map_ops NfTypeNrf [NnrfNfm] (\<lambda>_. token_map demo_client) demo_client [] =
     Some (Ok entry, client, net)"
  by (simp add: get_token_def demo_client_def nrf_client_new_def demo_token token_get_def get_turn_def
      get_loop_done token_set_def set_check_def token_state_new_def set_complete_def Let_def split_beta)

theorem get_token_cached_witness:
  "\<exists>entry client net. get_token (demo_nrf True) map_ops NfTypeNrf [NnrfNfm] (\<lambda>_. token_map demo_client) demo_client [] =
     Some (Ok entry, client, net) \<and>
   get_token (demo_nrf True) map_ops NfTypeAmf [NnrfNfm] (\<lambda>_. token_map client) client [] = Some (Ok entry, client, [])"
proof -
  obtain entry client net where run: "get_token (demo_nrf True) map_ops NfTypeNrf [NnrfNfm]
      (\<lambda>_. token_map demo_client) demo_client [] = Some (Ok entry, client, net)"
    using demo_get_token by blast
  with get_token_cached [OF map_scc.scc_hash_map_axioms run, of NfTypeAmf "[]"] show ?thesis
    by blast
qed

lemma demo_deregister:
  "\<exists>net. deregister_nf_instance (demo_nrf g) map_ops (\<lambda>_. Map.empty) demo_client [] = Some (Ok (), demo_client, net)"
  by (simp add: deregister_nf_instance_def set_auth_token_def demo_nrf_eval)

theorem deregister_outcome_witness:
  "\<exists>net req response. deregister_nf_instance (demo_nrf True) map_ops (\<lambda>_. Map.empty) demo_client [] =
     Some (Ok (), demo_client, net) \<and>
   execute (demo_nrf True) req [] = (Ok response, net) \<and> req_headers req ''authorization'' = None"
proof -
  obtain net where run: "deregister_nf_instance (demo_nrf True) map_ops (\<lambda>_. Map.empty) demo_client [] =
      Some (Ok (), demo_client, net)"
    using demo_deregister [of True] by blast
  have "\<not> cfg_oauth_enabled (nf_config demo_client)"
    by (simp add: demo_client_def nrf_client_new_def)
  with deregister_outcome [OF run] run show ?thesis by auto
qed

text \<open>The same client after the registration, which enables tokens.\<close>

definition demo_registered :: "(nat, string, service_name list \<rightharpoonup> access_token_rsp token_state) nrf_client" where
  "demo_registered = demo_client\<lparr>nf_config := \<lparr>cfg_heartbeat_timer = 60, cfg_nf_instance_id = 3,
     cfg_oauth_enabled = True\<rparr>\<rparr>"

lemma demo_registered_token:
  "\<exists>entry client net. get_token (demo_nrf True) map_ops NfTypeNrf [NnrfNfm] (\<lambda>_. Map.empty) demo_registered [] =
     Some (Ok entry, client, net) \<and> token_entry_get entry = Some \<lparr>access_token = ''t'', token_type = Bearer\<rparr>"
  by (simp add: get_token_def demo_registered_def demo_client_def nrf_client_new_def demo_token token_get_def get_turn_def
      get_loop_done token_set_def set_check_def token_state_new_def set_complete_def Let_def split_beta)

lemma demo_registered_leaves:
  "\<exists>client net. deregister_nf_instance (demo_nrf True) map_ops (\<lambda>_. Map.empty) demo_registered [] =
     Some (Ok (), client, net)"
proof -
  obtain entry client net where "get_token (demo_nrf True) map_ops NfTypeNrf [NnrfNfm] (\<lambda>_. Map.empty) demo_registered [] =
      Some (Ok entry, client, net)" "token_entry_get entry = Some \<lparr>access_token = ''t'', token_type = Bearer\<rparr>"
    using demo_registered_token by blast
  moreover have "get_oauth_enabled demo_registered" "valid_header_value (env_serde (demo_nrf True)) v" for v
    by (simp_all add: demo_registered_def demo_nrf_def)
  ultimately have "\<exists>req'. set_auth_token (demo_nrf True) map_ops NfTypeNrf [NnrfNfm] (\<lambda>_. Map.empty) req
      demo_registered [] = Some (Ok req', client, net)" for req
    by (simp add: set_auth_token_def insert_auth_token_def Let_def)
  then obtain sign where auth: "set_auth_token (demo_nrf True) map_ops NfTypeNrf [NnrfNfm] (\<lambda>_. Map.empty) req
      demo_registered [] = Some (Ok (sign req), client, net)" for req
    by metis
  have "format_path (demo_nrf True) p n = Ok p"
    "exec_deser (demo_nrf True) (deser_deregister (demo_nrf True)) r ns = (Ok (204, Success ()), ns @ [r])"
    for p n r ns
    by (simp_all add: demo_nrf_def exec_deser_def)
  with auth show ?thesis
    by (simp add: deregister_nf_instance_def prepare_request_def map_transpose_def extend_headers_def
        check_status_def)
qed

theorem deregister_after_register_witness:
  "\<exists>net client. deregister_nf_instance (demo_nrf True) map_ops (\<lambda>_. Map.empty) demo_registered [] =
     Some (Ok (), client, net) \<and>
   (\<exists>req net' response. execute (demo_nrf True) req net' = (Ok response, net) \<and>
      req_url req = ''http://nrf/nnrf?'' \<and> req_headers req ''authorization'' \<noteq> None)"
proof -
  obtain net where reg: "register_nf_instance (demo_nrf True) 5 (SerStruct []) 9 demo_client [] =
      Some (Ok (9, Some 3), demo_registered, net)"
    using demo_register [of True] unfolding demo_registered_def by blast
  obtain client net' where leave: "deregister_nf_instance (demo_nrf True) map_ops (\<lambda>_. Map.empty) demo_registered [] =
      Some (Ok (), client, net')"
    using demo_registered_leaves by blast
  have "custom_oauth2 (demo_nrf True) 9 = Some (JBool True)"
    and url: "format_path (demo_nrf True) p n = Ok p" "nrf_path (demo_nrf True) op = ''/nnrf''"
      "query_pairs_mut (env_url (demo_nrf True)) [] (set_path (env_url (demo_nrf True))
        (remove_leading_slash ''/nnrf'') (init_url demo_client)) = ''http://nrf/nnrf?''" for p n op
    by (simp_all add: demo_nrf_eval)
  with deregister_after_register [OF reg leave] leave show ?thesis
    by fastforce
qed

end
