(* ===== verification/Nf_Clients.thy ===== *)
theory Nf_Clients
  imports Nrf_Client
begin

text \<open>
  \<open>utils/client/src/nf_clients/mod.rs\<close>: clients of other network functions.  A client asks the
  NRF for the instances of the type it serves, picks a profile from the answer, and sends its
  requests through a stack of HTTP layers.

  The stack is third-party code: building it and the two operations a request uses, \<open>ready\<close> and
  \<open>call\<close>, are arguments.  \<open>'d\<close> is the rest of the query parameters, which keep their defaults.
\<close>

record 'd search_query =
  requester_nf_type :: nf_type
  query_target_nf_type :: nf_type
  query_rest :: 'd

text \<open>The traits \<open>ApiBaseUrl\<close> and \<open>NfClientController\<close>; \<open>get_search_params\<close> has a body there.\<close>

record ('s, 'prof, 'u) nf_client_controller =
  client_type :: nf_type
  profile_selection :: "'s \<Rightarrow> 'prof"
  base_url :: 'u

definition get_search_params ::
  "'d search_query \<Rightarrow> ('s, 'prof, 'u) nf_client_controller \<Rightarrow> nf_type \<Rightarrow> 'd search_query" where
  "get_search_params dflt controller requester =
     dflt\<lparr>requester_nf_type := requester, query_target_nf_type := client_type controller\<rparr>"

datatype ('p, 'e) nf_client_error =
    ClientCreationError 'e
  | NrfDiscoveryError "('p, 'e) nrf_discovery_error"

record ('n, 'u, 'm, 's, 'prof, 'c) nf_client =
  nfc_nrf_client :: "('n, 'u, 'm) nrf_client"
  nfc_controller :: "('s, 'prof, 'u) nf_client_controller"
  nfc_profile :: 'prof
  req_client :: 'c

text \<open>\<open>NFClient::new\<close>; \<open>None\<close> is a panic of the request construction.\<close>

definition nf_client_new ::
  "('n, 'u, 'prof, 'v, 'd search_query, 's, 'p, 'te, 'e, 'resp, 'net) nrf_env \<Rightarrow> 'd search_query \<Rightarrow>
     'v ser_call \<Rightarrow> ('c, 'e) result \<Rightarrow> nf_type \<Rightarrow> ('n, 'u, 'm) nrf_client \<Rightarrow>
     ('s, 'prof, 'u) nf_client_controller \<Rightarrow> 'net \<Rightarrow>
     ((('n, 'u, 'm, 's, 'prof, 'c) nf_client, ('p, 'e) nf_client_error) result \<times> 'net) option" where
  "nf_client_new env dflt header_params build app_type nrf controller net =
     (let search_params = get_search_params dflt controller app_type
      in case search_nf_instance env search_params header_params nrf net of
           None \<Rightarrow> None
         | Some (Err e, net) \<Rightarrow> Some (Err (NrfDiscoveryError e), net)
         | Some (Ok search_result, net) \<Rightarrow>
             (let profile = profile_selection controller search_result
              in case build of
                   Err e \<Rightarrow> Some (Err (ClientCreationError e), net)
                 | Ok service \<Rightarrow>
                     Some (Ok \<lparr>nfc_nrf_client = nrf, nfc_controller = controller,
                       nfc_profile = profile, req_client = service\<rparr>, net)))"

text \<open>\<open>NFClient::request\<close>: a request built by \<open>prepare_http_request\<close> is sent and its answer read.\<close>

definition nf_client_request ::
  "('c \<Rightarrow> ('c, 'e) result) \<Rightarrow> ('c \<Rightarrow> 'req \<Rightarrow> 'net \<Rightarrow> ('resp, 'e) result \<times> 'net) \<Rightarrow>
     ('resp \<Rightarrow> (u16 \<times> 'r, 'e) result) \<Rightarrow> ('n, 'u, 'm, 's, 'prof, 'c) nf_client \<Rightarrow> 'req \<Rightarrow> 'net \<Rightarrow>
     (u16 \<times> 'r, ('p, 'e) generic_client_error) result \<times> 'net" where
  "nf_client_request ready call deser client req net =
     (case ready (req_client client) of
        Err e \<Rightarrow> (Err (TowerHttpError e), net)
      | Ok service \<Rightarrow>
          (case call service req net of
             (Err e, net) \<Rightarrow> (Err (TowerHttpError e), net)
           | (Ok resp, net) \<Rightarrow> (map_err ResponseParseError (deser resp), net)))"

subsection \<open>Properties\<close>

text \<open>
  A created client has the profile its controller selects from an answer of the NRF to a query
  for instances of the type the controller serves, on behalf of the type of the application;
  every other query parameter has its default.
\<close>

lemma nf_client_new_Ok:
  assumes "nf_client_new env dflt header_params build app_type nrf controller net = Some (Ok client, net')"
  obtains query result where "search_nf_instance env query header_params nrf net = Some (Ok result, net')"
    "requester_nf_type query = app_type" "query_target_nf_type query = client_type controller"
    "query_rest query = query_rest dflt" "nfc_profile client = profile_selection controller result"
    "build = Ok (req_client client)"
proof -
  let ?q = "get_search_params dflt controller app_type"
  from assms obtain result where "search_nf_instance env ?q header_params nrf net = Some (Ok result, net')"
      "nfc_profile client = profile_selection controller result" "build = Ok (req_client client)"
    by (auto simp: nf_client_new_def Let_def split: option.splits prod.splits result.splits)
  then show thesis
    by (intro that [of ?q result]) (simp_all add: get_search_params_def)
qed

text \<open>
  A request fails without an exchange when the stack is not ready, and otherwise makes exactly
  one exchange, whose answer is what the response type reads.
\<close>

lemma nf_client_request_Ok:
  "fst (nf_client_request ready call deser client req net) = Ok (status, body) \<longleftrightarrow>
     (\<exists>service resp. ready (req_client client) = Ok service \<and> fst (call service req net) = Ok resp \<and>
        deser resp = Ok (status, body))"
  by (auto simp: nf_client_request_def split: result.splits prod.splits)

end
