(* ===== verification/Nf_App.thy ===== *)
theory Nf_App
  imports Nrf_Client Ngap_Controller
begin

text \<open>
  The life of the process: the trait \<open>NfInstance\<close> of \<open>utils/nf-base/src/lib.rs\<close> as a
  record of functions, its implementation for the AMF in \<open>lightning-nf/omnipath/app/src/lib.rs\<close>,
  and the driver of \<open>lightning-cli/src/nf_type.rs\<close> that starts, registers, runs and
  deregisters an instance.

  A panic is \<open>None\<close>.  The operating system (files, the runtime builder, signals) and the YAML
  reader are arguments.
\<close>

subsection \<open>The trait\<close>

record ('c, 'st, 'e) nf_instance =
  inst_initialize :: "'c \<Rightarrow> ('st, 'e) result option"
  inst_start :: "'st \<Rightarrow> ((unit, 'e) result \<times> 'st) option"
  inst_register :: "'st \<Rightarrow> ((unit, 'e) result \<times> 'st) option"
  inst_deregister :: "'st \<Rightarrow> ((unit, 'e) result \<times> 'st) option"

text \<open>The trait \<open>NfConfig\<close>, and its implementation for the AMF.\<close>

record 'c nf_config_trait =
  get_log_config :: "'c \<Rightarrow> logging_config"
  get_runtime_config :: "'c \<Rightarrow> runtime_config"

definition omnipath_nf_config :: "'x omnipath_config nf_config_trait" where
  "omnipath_nf_config = \<lparr>get_log_config = logger, get_runtime_config = runtime\<rparr>"

subsection \<open>The driver\<close>

datatype 'e nf_error =
    InitializationFailedError 'e
  | RuntimeError 'e
  | ShutdownDeregistrationFailedError 'e
  | RuntimeWithDeregistrationError 'e 'e

datatype ('io, 'y) app_config_error = IoError 'io | YamlParsingError 'y

datatype ('io, 'y) app_setup_error =
    AppConfigError "('io, 'y) app_config_error"
  | RuntimeBuildError 'io
  | LoggingError

record ('f, 'c, 'io, 'y) os_ops =
  file_open :: "string \<Rightarrow> 'f option"
  read_to_string :: "'f \<Rightarrow> (string, 'io) result"
  yaml_from_str :: "string \<Rightarrow> ('c, 'y) result"
  multi_thread_build :: "(unit, 'io) result"
  current_thread_build :: "(unit, 'io) result"

text \<open>\<open>NfApp::new\<close>; a file that cannot be opened is a panic (\<open>expect\<close>).\<close>

definition nf_app_new ::
  "('f, 'c, 'io, 'y) os_ops \<Rightarrow> string \<Rightarrow> ('c, ('io, 'y) app_setup_error) result option" where
  "nf_app_new os config_path =
     Option.bind (file_open os config_path) (\<lambda>file.
       Some (and_then (map_err (\<lambda>e. AppConfigError (IoError e)) (read_to_string os file)) (\<lambda>contents.
         map_err (\<lambda>e. AppConfigError (YamlParsingError e)) (yaml_from_str os contents))))"

text \<open>What the driver makes of the results of the work and of the deregistration.\<close>

definition run_finish :: "(unit, 'e) result \<Rightarrow> (unit, 'e) result \<Rightarrow> (unit, 'e nf_error) result" where
  "run_finish res dreg_res =
     (if is_ok res \<and> \<not> is_ok dreg_res then map_err ShutdownDeregistrationFailedError dreg_res
      else if is_ok dreg_res \<and> \<not> is_ok res then map_err RuntimeError res
      else case dreg_res of
          Err dreg_err \<Rightarrow> map_err (\<lambda>e. RuntimeWithDeregistrationError e dreg_err) res
        | Ok _ \<Rightarrow> Ok ())"

text \<open>
  Which branch of the \<open>select!\<close> ends first: a signal, which drops the work in the state the
  instance has then, or the work itself.
\<close>

datatype 'st race = SignalFirst 'st | WorkFirst

definition nf_work :: "('c, 'st, 'e) nf_instance \<Rightarrow> 'st \<Rightarrow> ((unit, 'e) result \<times> 'st) option" where
  "nf_work inst st =
     Option.bind (inst_register inst st) (\<lambda>(r, st).
       case r of Err e \<Rightarrow> Some (Err e, st) | Ok _ \<Rightarrow> inst_start inst st)"

definition nf_app_run ::
  "('c, 'st, 'e) nf_instance \<Rightarrow> 'st race \<Rightarrow> 'c \<Rightarrow> ((unit, 'e nf_error) result \<times> 'st option) option" where
  "nf_app_run inst race config =
     Option.bind (inst_initialize inst config) (\<lambda>init.
       case init of
         Err e \<Rightarrow> Some (Err (InitializationFailedError e), None)
       | Ok st \<Rightarrow>
           (case race of
              SignalFirst st \<Rightarrow>
                map_option (\<lambda>(r, st). (map_err ShutdownDeregistrationFailedError r, Some st))
                  (inst_deregister inst st)
            | WorkFirst \<Rightarrow>
                Option.bind (nf_work inst st) (\<lambda>(res, st).
                  map_option (\<lambda>(dreg_res, st). (run_finish res dreg_res, Some st))
                    (inst_deregister inst st))))"

datatype ('io, 'y, 'e) app_error = SetupError "('io, 'y) app_setup_error" | RunError "'e nf_error"

definition setup_logging :: "logging_config \<Rightarrow> (unit, ('io, 'y) app_setup_error) result" where
  "setup_logging config = Ok ()"

definition setup_runtime ::
  "('f, 'c, 'io, 'y) os_ops \<Rightarrow> runtime_config \<Rightarrow> (unit, ('io, 'y) app_setup_error) result" where
  "setup_runtime os config = map_err RuntimeBuildError
     (case rt_type config of Multi \<Rightarrow> multi_thread_build os | Single \<Rightarrow> current_thread_build os)"

definition app_run ::
  "('f, 'c, 'io, 'y) os_ops \<Rightarrow> 'c nf_config_trait \<Rightarrow> ('c, 'st, 'e) nf_instance \<Rightarrow> 'st race \<Rightarrow> string \<Rightarrow>
     (unit, ('io, 'y, 'e) app_error) result option" where
  "app_run os conf inst race config_path =
     Option.bind (nf_app_new os config_path) (\<lambda>nf_app.
       case nf_app of
         Err e \<Rightarrow> Some (Err (SetupError e))
       | Ok config \<Rightarrow>
           (case and_then (setup_logging (get_log_config conf config)) (\<lambda>_.
                   setup_runtime os (get_runtime_config conf config)) of
              Err e \<Rightarrow> Some (Err (SetupError e))
            | Ok _ \<Rightarrow>
                map_option (\<lambda>(r, _). map_err RunError r) (nf_app_run inst race config)))"

definition DATAWARP_STR :: string where "DATAWARP_STR = ''datawarp''"
definition INFINISYNC_STR :: string where "INFINISYNC_STR = ''infinisync''"
definition OMNIPATH_STR :: string where "OMNIPATH_STR = ''omnipath''"

text \<open>The subcommands of the command line, and their dispatch.\<close>

definition clap_subcommands :: "string list" where
  "clap_subcommands = [DATAWARP_STR, INFINISYNC_STR, OMNIPATH_STR]"

definition start_app ::
  "('f, 'c, 'io, 'y) os_ops \<Rightarrow> 'c nf_config_trait \<Rightarrow> ('c, 'st, 'e) nf_instance \<Rightarrow> 'st race \<Rightarrow> string \<Rightarrow> string \<Rightarrow>
     (unit, ('io, 'y, 'e) app_error) result option" where
  "start_app os conf omnipath race name config_path =
     (if name = OMNIPATH_STR then app_run os conf omnipath race config_path else None)"

subsection \<open>The AMF as an instance\<close>

datatype 'e omnipath_config_error =
    InvalidNrfUriError 'e string
  | InvalidConfig "validation_error list"
  | ClientBuildError 'e

datatype ('b, 'p, 'te, 'e) nrf_error =
    ModelBuildError "'b model_build_error"
  | NrfManagementError "('p, 'te, 'e) nrf_management_error"

datatype ('b, 'p, 'te, 'e, 'a, 'io, 'n, 'x) omnipath_error =
    ConfigError "'e omnipath_config_error"
  | NrfError "('b, 'p, 'te, 'e) nrf_error"
  | NgapNetworkError "('a, 'io) network_error"
  | GlobalAppContextSetError "('n, 'x) app_context"

record ('n, 'u, 'm, 'x, 'g) omnipath_app =
  nrf_client :: "('n, 'u, 'm) nrf_client"
  valid_config :: "'x omnipath_config serde_validated"
  app_context :: "('n, 'x) app_context"
  ngap_context :: 'g

definition SOURCE_TYPE :: nf_type where
  "SOURCE_TYPE = NfTypeAmf"

definition create_nrf_client ::
  "(unit, 'e) result \<Rightarrow> (service_name list, access_token_rsp token_state, 'm) scc_ops \<Rightarrow> 'n \<Rightarrow> 'u \<Rightarrow>
     (('n, 'u, 'm) nrf_client, 'e omnipath_config_error) result" where
  "create_nrf_client build ops default_id url =
     and_then (map_err ClientBuildError build) (\<lambda>_. Ok (nrf_client_new ops default_id url SOURCE_TYPE))"

lemma create_nrf_client_eq:
  "create_nrf_client build ops default_id url =
     (case build of Ok _ \<Rightarrow> Ok (nrf_client_new ops default_id url NfTypeAmf) | Err e \<Rightarrow> Err (ClientBuildError e))"
  by (cases build) (simp_all add: create_nrf_client_def SOURCE_TYPE_def)

text \<open>
  \<open>find_diff\<close>, the text that a registration logs; \<open>to_value\<close>, \<open>err_text\<close> and \<open>diff\<close> stand for
  \<open>serde_json\<close>, its messages and the recorder of \<open>treediff\<close> with its output.
\<close>

definition find_diff ::
  "('v \<Rightarrow> ('j, 'e) result) \<Rightarrow> ('e \<Rightarrow> string) \<Rightarrow> ('j \<Rightarrow> 'j \<Rightarrow> string) \<Rightarrow> 'v \<Rightarrow> 'v \<Rightarrow> string" where
  "find_diff to_value err_text diff v1 v2 =
     (case to_value v1 of
        Err err \<Rightarrow> ''Error While Serializing: '' @ err_text err
      | Ok v1 \<Rightarrow>
          (case to_value v2 of
             Err err \<Rightarrow> ''Error While Serializing: '' @ err_text err
           | Ok v2 \<Rightarrow> diff v1 v2))"

text \<open>
  \<open>initialize\<close>.  \<open>build\<close> is the result of the HTTP client builder, \<open>uuid\<close> and
  \<open>default_id\<close> the random and the default instance identifier, \<open>cell\<close> the global
  \<open>APP_CONTEXT\<close>.
\<close>

definition initialize ::
  "text_ops \<Rightarrow> ('u, 'e) url_ops \<Rightarrow> (unit, 'e) result \<Rightarrow>
     (service_name list, access_token_rsp token_state, 'm) scc_ops \<Rightarrow> ('k, 'l, 'io) socket_ops \<Rightarrow>
     ('r, 'x, 's, 'a, 'io, 'gm, 'um) amf_env \<Rightarrow> 'n \<Rightarrow> 'n \<Rightarrow> 'x omnipath_config \<Rightarrow>
     ('n, 'x) app_context option \<Rightarrow>
     ((('n, 'u, 'm, 'x, ('r, 'x, 's, 'a, 'l, 'gm, 'um) amf_sys) omnipath_app,
       ('b, 'p, 'te, 'e, 'a, 'io, 'n, 'x) omnipath_error) result \<times> ('n, 'x) app_context option) option" where
  "initialize txt uops build ops sock env uuid default_id config cell =
     (let uri = nrf_uri (configuration config)
      in case url_parse uops uri of
           Err e \<Rightarrow> Some (Err (ConfigError (InvalidNrfUriError e uri)), cell)
         | Ok url \<Rightarrow>
             (case create_nrf_client build ops default_id url of
                Err e \<Rightarrow> Some (Err (ConfigError e), cell)
              | Ok client \<Rightarrow>
                  (case serde_validated_new txt config of
                        Err e \<Rightarrow> Some (Err (ConfigError (InvalidConfig e)), cell)
                      | Ok valid \<Rightarrow>
                          (let ctx = app_context_initialize txt uuid valid
                           in case ngap_ips (app_config ctx) of
                                [] \<Rightarrow> None
                              | ip # _ \<Rightarrow>
                                  (case network_new sock ip (ngap_port (app_config ctx))
                                          (sctp (configuration (validated_inner valid))) of
                                     Err e \<Rightarrow> Some (Err (NgapNetworkError e), cell)
                                   | Ok net \<Rightarrow>
                                       (case app_context_set ctx cell of
                                          (Err e, cell) \<Rightarrow> Some (Err (GlobalAppContextSetError e), cell)
                                        | (Ok _, cell) \<Rightarrow>
                                            Some (Ok \<lparr>nrf_client = client, valid_config = valid, app_context = ctx,
                                              ngap_context = ngap_context_new env net\<rparr>, cell)))))))"

text \<open>
  \<open>NgapContext::run\<close>: the answers of \<open>accept\<close> until the cancellation, then the graceful
  shutdown, which leaves the connections as they are.
\<close>

definition graceful_shutdown ::
  "('r, 'x, 's, 'a, 'l, 'gm, 'um) amf_sys \<Rightarrow>
     (unit, ('a, 'io) network_error) result \<times> ('r, 'x, 's, 'a, 'l, 'gm, 'um) amf_sys" where [simp]:
  "graceful_shutdown s = (Ok (), s)"

definition ngap_run ::
  "('r, 'x, 's, 'a, 'io, 'gm, 'um) amf_env \<Rightarrow> ('s \<times> 'a, 'io) result list \<Rightarrow>
     ('r, 'x, 's, 'a, 'l, 'gm, 'um) amf_sys \<Rightarrow>
     (unit, ('a, 'io) network_error) result \<times> ('r, 'x, 's, 'a, 'l, 'gm, 'um) amf_sys" where
  "ngap_run env accepts s = graceful_shutdown (fold (run_accept env) accepts s)"

definition omnipath_start ::
  "('r, 'x, 's, 'a, 'io, 'gm, 'um) amf_env \<Rightarrow> ('s \<times> 'a, 'io) result list \<Rightarrow>
     ('n, 'u, 'm, 'x, ('r, 'x, 's, 'a, 'l, 'gm, 'um) amf_sys) omnipath_app \<Rightarrow>
     (unit, ('b, 'p, 'te, 'e, 'a, 'io, 'n, 'x) omnipath_error) result \<times>
     ('n, 'u, 'm, 'x, ('r, 'x, 's, 'a, 'l, 'gm, 'um) amf_sys) omnipath_app" where
  "omnipath_start env accepts app =
     (let (r, g) = ngap_run env accepts (ngap_context app)
      in (map_err NgapNetworkError r, app\<lparr>ngap_context := g\<rparr>))"

definition register_nf ::
  "('n, 'u, 'prof, 'v, 'q, 'sr, 'p, 'te, 'e, 'resp, 'net) nrf_env \<Rightarrow>
     (('n, 'x) nf_profile \<Rightarrow> ('prof, 'b) result) \<Rightarrow> 'v ser_call \<Rightarrow> ('n, 'u, 'm, 'x, 'g) omnipath_app \<Rightarrow> 'net \<Rightarrow>
     ((unit, ('b, 'p, 'te, 'e, 'a, 'io, 'n, 'x) omnipath_error) result \<times>
      ('n, 'u, 'm, 'x, 'g) omnipath_app \<times> 'net) option" where
  "register_nf env check default_header app net =
     (case build_nf_profile check (app_context app) of
        Err e \<Rightarrow> Some (Err (NrfError (ModelBuildError e)), app, net)
      | Ok profile \<Rightarrow>
          (case register_nf_instance env (get_nf_id (app_context app)) default_header profile (nrf_client app) net of
             None \<Rightarrow> None
           | Some (Err e, client, net) \<Rightarrow>
               Some (Err (NrfError (NrfManagementError e)), app\<lparr>nrf_client := client\<rparr>, net)
           | Some (Ok (profile_resp, instance_id), client, net) \<Rightarrow>
               (let ctx = app_context app;
                    ctx = (case instance_id of
                        Some i \<Rightarrow> if i = get_nf_id ctx then commit_config (\<lambda>c. c\<lparr>nf_id := i\<rparr>) ctx else ctx
                      | None \<Rightarrow> ctx)
                in Some (Ok (), app\<lparr>nrf_client := client, app_context := ctx\<rparr>, net))))"

definition deregister_nf ::
  "('n, 'u, 'prof, 'v, 'q, 'sr, 'p, 'te, 'e, 'resp, 'net) nrf_env \<Rightarrow>
     (service_name list, access_token_rsp token_state, 'm) scc_ops \<Rightarrow> ('n, 'u, 'm, 'x, 'g) omnipath_app \<Rightarrow> 'net \<Rightarrow>
     ((unit, ('b, 'p, 'te, 'e, 'a, 'io, 'n, 'x) omnipath_error) result \<times>
      ('n, 'u, 'm, 'x, 'g) omnipath_app \<times> 'net) option" where
  "deregister_nf env ops app net =
     map_option (\<lambda>(r, client, net). (map_err (\<lambda>e. NrfError (NrfManagementError e)) r, app\<lparr>nrf_client := client\<rparr>, net))
       (deregister_nf_instance env ops (\<lambda>_. token_map (nrf_client app)) (nrf_client app) net)"

text \<open>
  The implementation of the trait.  The state of the instance is the application with the
  network it talks to.
\<close>

definition omnipath_instance ::
  "text_ops \<Rightarrow> (unit, 'e) result \<Rightarrow> (service_name list, access_token_rsp token_state, 'm) scc_ops \<Rightarrow>
     ('k, 'l, 'io) socket_ops \<Rightarrow> ('r, 'x, 's, 'a, 'io, 'gm, 'um) amf_env \<Rightarrow>
     ('n, 'u, 'prof, 'v, 'q, 'sr, 'p, 'te, 'e, 'resp, 'net) nrf_env \<Rightarrow>
     (('n, 'x) nf_profile \<Rightarrow> ('prof, 'b) result) \<Rightarrow> 'v ser_call \<Rightarrow> ('s \<times> 'a, 'io) result list \<Rightarrow>
     'n \<Rightarrow> 'n \<Rightarrow> 'net \<Rightarrow>
     ('x omnipath_config,
      ('n, 'u, 'm, 'x, ('r, 'x, 's, 'a, 'l, 'gm, 'um) amf_sys) omnipath_app \<times> 'net,
      ('b, 'p, 'te, 'e, 'a, 'io, 'n, 'x) omnipath_error) nf_instance" where
  "omnipath_instance txt build ops sock env nrf check header accepts uuid default_id net0 = \<lparr>
     inst_initialize = (\<lambda>config. map_option (\<lambda>(r, cell). map_ok (\<lambda>app. (app, net0)) r)
       (initialize txt (env_url nrf) build ops sock env uuid default_id config None)),
     inst_start = (\<lambda>(app, net). case omnipath_start env accepts app of (r, app) \<Rightarrow> Some (r, (app, net))),
     inst_register = (\<lambda>(app, net). map_option (\<lambda>(r, app, net). (r, (app, net))) (register_nf nrf check header app net)),
     inst_deregister = (\<lambda>(app, net). map_option (\<lambda>(r, app, net). (r, (app, net))) (deregister_nf nrf ops app net))\<rparr>"

subsection \<open>What every instance keeps\<close>

text \<open>An invariant that the four operations of an instance keep holds when the driver ends.\<close>

locale nf_lifecycle =
  fixes inst :: "('c, 'st, 'e) nf_instance" and inv :: "'st \<Rightarrow> bool"
  assumes init_inv: "inst_initialize inst config = Some (Ok st) \<Longrightarrow> inv st"
    and start_inv: "inv st \<Longrightarrow> inst_start inst st = Some (r, st') \<Longrightarrow> inv st'"
    and register_inv: "inv st \<Longrightarrow> inst_register inst st = Some (r, st') \<Longrightarrow> inv st'"
    and deregister_inv: "inv st \<Longrightarrow> inst_deregister inst st = Some (r, st') \<Longrightarrow> inv st'"
begin

lemma work_inv: "inv st \<Longrightarrow> nf_work inst st = Some (r, st') \<Longrightarrow> inv st'"
proof -
  assume inv: "inv st" and run: "nf_work inst st = Some (r, st')"
  from run obtain r1 st1 where reg: "inst_register inst st = Some (r1, st1)"
    and rest: "(case r1 of Err e \<Rightarrow> Some (Err e, st1) | Ok _ \<Rightarrow> inst_start inst st1) = Some (r, st')"
    by (auto simp: nf_work_def bind_eq_Some_conv)
  from register_inv [OF inv reg] rest show "inv st'"
    by (cases r1) (auto intro: start_inv)
qed

lemma run_inv:
  assumes "nf_app_run inst race config = Some (r, Some st)" and "\<And>s. race = SignalFirst s \<Longrightarrow> inv s"
  shows "inv st"
proof (cases race)
  case (SignalFirst s)
  with assms show ?thesis
    by (auto simp: nf_app_run_def split: bind_splits result.splits intro: deregister_inv)
next
  case WorkFirst
  with assms(1) obtain st0 res st1 dreg where
    "inst_initialize inst config = Some (Ok st0)" "nf_work inst st0 = Some (res, st1)"
    "inst_deregister inst st1 = Some (dreg, st)"
    by (auto simp: nf_app_run_def split: bind_splits result.splits)
  then show ?thesis
    using init_inv work_inv deregister_inv by blast
qed

end

definition own_id :: "'n \<Rightarrow> ('n, 'u, 'm, 'x, 'g) omnipath_app \<times> 'net \<Rightarrow> bool" where
  "own_id uuid st \<longleftrightarrow> get_nf_id (app_context (fst st)) = uuid"

lemma commit_same_id: "commit_config (\<lambda>c. c\<lparr>nf_id := get_nf_id ctx\<rparr>) ctx = ctx"
  by (simp add: commit_config_def commit_store_def commit_load_def get_nf_id_def)

lemma register_nf_context:
  assumes "register_nf env check header app net = Some (r, app', net')"
  shows "app_context app' = app_context app"
  using assms
  by (auto simp: register_nf_def Let_def commit_same_id
      split: result.splits option.splits prod.splits if_splits)

lemma initialize_Ok:
  "initialize txt uops build ops sock env uuid default_id config cell = Some (Ok app, cell') \<longleftrightarrow>
     (\<exists>url ip ips net. url_parse uops (nrf_uri (configuration config)) = Ok url \<and> is_ok build \<and>
        validate txt config = Ok () \<and> ngap_ip_list (configuration config) = ip # ips \<and>
        network_new sock ip (file_ngap_port (configuration config)) (sctp (configuration config)) = Ok net \<and>
        cell = None \<and> cell' = Some (app_context app) \<and>
        app = \<lparr>nrf_client = nrf_client_new ops default_id url NfTypeAmf, valid_config = SerdeValidated config,
          app_context = app_context_initialize txt uuid (SerdeValidated config),
          ngap_context = ngap_context_new env net\<rparr>)"
  by (auto simp: initialize_def create_nrf_client_eq serde_validated_new_def app_context_initialize_def configuration_new_def
      app_context_set_def Let_def and_then_eq_Ok split: result.splits option.splits list.splits)

lemma is_ok_iff: "is_ok r \<longleftrightarrow> (\<exists>x. r = Ok x)"
  by (cases r) auto

lemma register_config:
  assumes "register_nf_instance env requested hdr body client net = Some (Ok (nf, assigned), client', net')"
  shows "cfg_nf_instance_id (nf_config client') = the_default requested assigned"
  using assms
  by (auto simp: register_nf_instance_def registered_config_def
      split: result.splits option.splits prod.splits)

interpretation omni: nf_lifecycle
  "omnipath_instance txt build ops sock env nrf check header accepts uuid default_id net0" "own_id uuid"
proof unfold_locales
  let ?i = "omnipath_instance txt build ops sock env nrf check header accepts uuid default_id net0"
  show "own_id uuid st" if "inst_initialize ?i config = Some (Ok st)" for config st
    using that
    by (auto simp: omnipath_instance_def own_id_def initialize_Ok app_context_initialize_def
        configuration_new_def get_nf_id_def Let_def)
  show "own_id uuid st'" if "own_id uuid st" "inst_start ?i st = Some (r, st')" for st r st'
    using that by (auto simp: omnipath_instance_def own_id_def omnipath_start_def split: prod.splits)
  show "own_id uuid st'" if "own_id uuid st" "inst_register ?i st = Some (r, st')" for st r st'
    using that by (cases st) (auto simp: omnipath_instance_def own_id_def register_nf_context)
  show "own_id uuid st'" if "own_id uuid st" "inst_deregister ?i st = Some (r, st')" for st r st'
    using that by (cases st) (auto simp: omnipath_instance_def own_id_def deregister_nf_def)
qed

subsection \<open>Properties\<close>

text \<open>
  Start-up.  The AMF is initialised exactly when the URI of the NRF parses, the HTTP client
  can be built, the configuration is valid, it lists an NGAP address, the listening socket can
  be set up on the first one, and no other instance has set the global context.  It panics
  exactly when everything up to the validation succeeds and the list of NGAP addresses is
  empty, which the validation does not exclude.
\<close>

theorem initialize_outcome:
  fixes env :: "('r, 'x, 's, 'a, 'io, 'gm, 'um) amf_env" and sock :: "('k, 'l, 'io) socket_ops"
  shows
  "((\<exists>app cell'. initialize txt uops build ops sock env uuid default_id config cell = Some (Ok app, cell')) \<longleftrightarrow>
      is_ok (url_parse uops (nrf_uri (configuration config))) \<and> is_ok build \<and> is_ok (validate txt config) \<and>
      (\<exists>ip ips net. ngap_ip_list (configuration config) = ip # ips \<and>
         (network_new sock ip (file_ngap_port (configuration config)) (sctp (configuration config)) ::
           (('l, 's, 'a) network, ('a, 'io) network_error) result) = Ok net) \<and>
      cell = None) \<and>
   (initialize txt uops build ops sock env uuid default_id config cell = None \<longleftrightarrow>
      is_ok (url_parse uops (nrf_uri (configuration config))) \<and> is_ok build \<and> is_ok (validate txt config) \<and>
      ngap_ip_list (configuration config) = [])"
proof (rule conjI)
  show "(\<exists>app cell'. initialize txt uops build ops sock env uuid default_id config cell = Some (Ok app, cell')) \<longleftrightarrow>
      is_ok (url_parse uops (nrf_uri (configuration config))) \<and> is_ok build \<and> is_ok (validate txt config) \<and>
      (\<exists>ip ips net. ngap_ip_list (configuration config) = ip # ips \<and>
         (network_new sock ip (file_ngap_port (configuration config)) (sctp (configuration config)) ::
           (('l, 's, 'a) network, ('a, 'io) network_error) result) = Ok net) \<and>
      cell = None"
    unfolding initialize_Ok by (auto simp: is_ok_iff)
  show "initialize txt uops build ops sock env uuid default_id config cell = None \<longleftrightarrow>
      is_ok (url_parse uops (nrf_uri (configuration config))) \<and> is_ok build \<and> is_ok (validate txt config) \<and>
      ngap_ip_list (configuration config) = []"
    by (auto simp: initialize_def create_nrf_client_eq serde_validated_new_def app_context_initialize_def configuration_new_def
        app_context_set_def Let_def is_ok_iff and_then_eq_Ok split: result.splits option.splits list.splits)
qed

text \<open>
  C25: the identifier of the AMF.  A successful registration leaves the application context as it
  was, whatever the NRF answered; it sent the profile built from that context under the
  identifier of that context, and the NRF client takes the identifier the NRF assigned, or the
  one that was asked for when none was assigned.
\<close>

theorem register_nf_keeps_own_id:
  assumes "register_nf env check header0 app net = Some (Ok (), app', net')"
  shows "app_context app' = app_context app \<and>
    (\<exists>profile answer assigned.
       build_nf_profile check (app_context app) = Ok profile \<and>
       register_nf_instance env (get_nf_id (app_context app)) header0 profile (nrf_client app) net =
         Some (Ok (answer, assigned), nrf_client app', net') \<and>
       cfg_nf_instance_id (nf_config (nrf_client app')) = the_default (get_nf_id (app_context app)) assigned)"
proof -
  from assms obtain profile answer assigned client where
    profile: "build_nf_profile check (app_context app) = Ok profile"
    and run: "register_nf_instance env (get_nf_id (app_context app)) header0 profile (nrf_client app) net =
      Some (Ok (answer, assigned), client, net')"
    and client: "nrf_client app' = client"
    by (auto simp: register_nf_def Let_def split: result.splits option.splits prod.splits)
  from register_config [OF run] profile run client register_nf_context [OF assms] show ?thesis
    by auto
qed

text \<open>
  The end of the process.  When the work ends before a signal arrives, the instance is
  deregistered in the state the work left, also when the registration itself had failed, and
  the result tells which of the two failed, or both.
\<close>

theorem nf_app_run_outcome:
  assumes "inst_initialize inst config = Some (Ok st)" and "nf_work inst st = Some (res, st1)"
    and "inst_deregister inst st1 = Some (dreg, st2)"
  shows "nf_app_run inst WorkFirst config = Some (case (res, dreg) of
      (Ok _, Ok _) \<Rightarrow> Ok ()
    | (Ok _, Err d) \<Rightarrow> Err (ShutdownDeregistrationFailedError d)
    | (Err e, Ok _) \<Rightarrow> Err (RuntimeError e)
    | (Err e, Err d) \<Rightarrow> Err (RuntimeWithDeregistrationError e d), Some st2)"
  using assms by (cases res; cases dreg) (simp_all add: nf_app_run_def run_finish_def)

text \<open>
  One identity for life: whatever the NRF answers to the registration, the AMF ends with
  the instance identifier it was initialised with.
\<close>

lemma omnipath_keeps_own_id:
  assumes "nf_app_run (omnipath_instance txt build ops sock env nrf check header0 accepts uuid default_id net0)
      WorkFirst config = Some (r, Some (app, net))"
  shows "get_nf_id (app_context app) = uuid"
  using omni.run_inv [OF assms] by (simp add: own_id_def)

text \<open>The subcommands offered on the command line that have no implementation.\<close>

lemma start_app_unimplemented:
  "n \<in> set clap_subcommands \<and> n \<noteq> OMNIPATH_STR \<Longrightarrow> start_app os conf inst race n path = None"
  by (simp add: start_app_def)

subsection \<open>Witnesses\<close>

definition demo_sockets :: "(unit, unit, unit) socket_ops" where
  "demo_sockets = \<lparr>socket_new = (\<lambda>_. Ok ()), set_sctp_initmsg = (\<lambda>_ k. Ok k), set_nodelay = (\<lambda>_ k. Ok k),
     bind_from = (\<lambda>_ _. Ok ())\<rparr>"

text \<open>An AMF with the identifier 5, whose NRF assigns the identifier 3.\<close>

type_synonym demo_omnipath =
  "(nat, string, service_name list \<rightharpoonup> access_token_rsp token_state, unit, unit) omnipath_app"

definition demo_omni :: demo_omnipath where
  "demo_omni = \<lparr>nrf_client = demo_client, valid_config = SerdeValidated demo_config,
     app_context = app_context_initialize demo_text 5 (SerdeValidated demo_config), ngap_context = ()\<rparr>"

definition demo_registered_omni :: demo_omnipath where
  "demo_registered_omni = demo_omni\<lparr>nrf_client := demo_client\<lparr>nf_config :=
     \<lparr>cfg_heartbeat_timer = 60, cfg_nf_instance_id = 3, cfg_oauth_enabled = True\<rparr>\<rparr>\<rparr>"

lemma demo_own_id: "get_nf_id (app_context demo_omni) = 5"
  by (simp add: demo_omni_def app_context_initialize_def configuration_new_def get_nf_id_def Let_def)

lemma build_nf_profile_const: "build_nf_profile (\<lambda>_. Ok p) ctx = Ok p"
  by (simp add: build_nf_profile_def Let_def)

lemma demo_register_nf:
  "\<exists>net. register_nf (demo_nrf True) (\<lambda>_. Ok 9) (SerStruct []) demo_omni [] =
     Some (Ok (), demo_registered_omni, net)"
proof -
  obtain net where "register_nf_instance (demo_nrf True) 5 (SerStruct []) 9 demo_client [] =
      Some (Ok (9, Some 3), demo_client\<lparr>nf_config := \<lparr>cfg_heartbeat_timer = 60, cfg_nf_instance_id = 3,
        cfg_oauth_enabled = True\<rparr>\<rparr>, net)"
    using demo_register [of True] by blast
  moreover have "nrf_client demo_omni = demo_client"
    by (simp add: demo_omni_def)
  ultimately show ?thesis
    by (simp add: register_nf_def build_nf_profile_const demo_own_id demo_registered_omni_def)
qed

theorem register_nf_keeps_own_id_witness:
  "\<exists>net. register_nf (demo_nrf True) (\<lambda>_. Ok 9) (SerStruct []) demo_omni [] =
     Some (Ok () :: (unit, (unit, unit, unit, unit, unit, unit, nat, unit) omnipath_error) result,
       demo_registered_omni, net) \<and>
   get_nf_id (app_context demo_registered_omni) = 5 \<and>
   cfg_nf_instance_id (nf_config (nrf_client demo_registered_omni)) = 3"
proof -
  obtain net where run: "register_nf (demo_nrf True) (\<lambda>_. Ok 9) (SerStruct []) demo_omni [] =
      Some (Ok () :: (unit, (unit, unit, unit, unit, unit, unit, nat, unit) omnipath_error) result,
        demo_registered_omni, net)"
    using demo_register_nf by blast
  from register_nf_keeps_own_id [OF run] run demo_own_id show ?thesis
    by (auto simp: demo_registered_omni_def)
qed

definition demo_inst :: "(unit, nat, string) nf_instance" where
  "demo_inst = \<lparr>inst_initialize = (\<lambda>_. Some (Ok 0)), inst_start = (\<lambda>st. Some (Ok (), st)),
     inst_register = (\<lambda>st. Some (Err ''no NRF'', st)), inst_deregister = (\<lambda>st. Some (Err ''not registered'', Suc st))\<rparr>"

theorem nf_app_run_outcome_witness:
  "nf_app_run demo_inst WorkFirst () =
     Some (Err (RuntimeWithDeregistrationError ''no NRF'' ''not registered''), Some 1)"
  using nf_app_run_outcome [of demo_inst "()" 0 "Err ''no NRF''" 0 "Err ''not registered''" 1]
  by (simp add: demo_inst_def nf_work_def)

end
