(* ===== verification/Packet_Monitor.thy ===== *)
theory Packet_Monitor
  imports Omnipath_Prelude "HOL-Library.Multiset"
begin

text \<open>
  The packet monitor of the integration environment, \<open>tests/integration/src\<close>: the IPv4 header
  parser, the table of network functions, the analysis of a packet, the three capture loops and
  their statistics (\<open>tester.rs\<close>), and the search for the bridge device (\<open>main.rs\<close>).

  A capture loop runs until its deadline; its argument is the list of the answers
  \<open>next_packet\<close> gave before it.  What the loops print is part of their result.
\<close>

subsection \<open>IPv4 headers\<close>

type_synonym ipv4_addr = "u8 \<times> u8 \<times> u8 \<times> u8"

record ip_header =
  ip_version :: u8
  header_length :: u8
  total_length :: u16
  identification :: u16
  flags :: u8
  fragment_offset :: u16
  ttl :: u8
  protocol :: u8
  checksum :: u16
  source_ip :: ipv4_addr
  destination_ip :: ipv4_addr

definition from_be_bytes :: "u8 \<Rightarrow> u8 \<Rightarrow> u16" where
  "from_be_bytes hi lo = push_bit 8 (ucast hi) OR ucast lo"

text \<open>The function never fails; \<open>None\<close> means that the octets are no IPv4 header.\<close>

definition parse_ip_header :: "bytes \<Rightarrow> ip_header option" where
  "parse_ip_header packet_data =
     (if length packet_data < 20 then None
      else
        let version_and_ihl = packet_data ! 0;
            version = drop_bit 4 version_and_ihl AND 0x0F;
            header_length = (version_and_ihl AND 0x0F) * 4
        in if version \<noteq> 4 then None
           else if length packet_data < unat header_length then None
           else
             let flags_and_offset = from_be_bytes (packet_data ! 6) (packet_data ! 7)
             in Some \<lparr>ip_version = version, header_length = header_length,
                  total_length = from_be_bytes (packet_data ! 2) (packet_data ! 3),
                  identification = from_be_bytes (packet_data ! 4) (packet_data ! 5),
                  flags = ucast (drop_bit 13 flags_and_offset AND 0x07),
                  fragment_offset = flags_and_offset AND 0x1FFF,
                  ttl = packet_data ! 8, protocol = packet_data ! 9,
                  checksum = from_be_bytes (packet_data ! 10) (packet_data ! 11),
                  source_ip = (packet_data ! 12, packet_data ! 13, packet_data ! 14, packet_data ! 15),
                  destination_ip =
                    (packet_data ! 16, packet_data ! 17, packet_data ! 18, packet_data ! 19)\<rparr>)"

text \<open>\<open>Ipv4Addr::to_string\<close>.\<close>

definition ipv4_to_string :: "ipv4_addr \<Rightarrow> string" where
  "ipv4_to_string ip = (case ip of (a, b, c, d) \<Rightarrow>
     join ''.'' (map (\<lambda>x. show_nat (unat x)) [a, b, c, d]))"

subsection \<open>Network functions\<close>

text \<open>The constants of the addresses with the names of the match, in the order of the match.\<close>

definition nf_table :: "(string \<times> string) list" where
  "nf_table =
    [(''10.0.0.2'', ''AMF''), (''10.0.0.3'', ''SMF''), (''10.0.0.4'', ''UPF''),
     (''10.0.0.5'', ''NRF''), (''10.0.0.6'', ''AUSF''), (''10.0.0.7'', ''PCF''),
     (''10.0.0.8'', ''NSSF''), (''10.0.0.9'', ''UDM''), (''10.0.0.10'', ''UDR''),
     (''10.0.0.11'', ''BSF''), (''10.0.0.12'', ''CHF''), (''10.0.0.13'', ''SMSF''),
     (''10.0.0.14'', ''N3IWF''), (''10.0.0.15'', ''SEPP''), (''10.0.0.16'', ''NWDAF''),
     (''10.0.0.17'', ''GMLC''), (''10.0.0.18'', ''SCEF''), (''10.0.0.19'', ''EIR''),
     (''10.0.0.20'', ''UDSF''), (''10.0.0.21'', ''LMF''), (''10.0.0.22'', ''MBSF''),
     (''10.0.0.23'', ''NAF''), (''10.0.0.24'', ''NEF''), (''10.0.0.25'', ''SCP''),
     (''10.0.0.26'', ''SPP''), (''10.0.0.27'', ''HSS''), (''10.0.0.28'', ''CBC''),
     (''10.0.0.29'', ''IWF''), (''10.0.0.30'', ''DCCF''), (''10.0.1.0'', ''RAN1''),
     (''10.0.1.1'', ''RAN2''), (''10.0.1.2'', ''RAN3'')]"

definition get_nf_name_by_ip :: "string \<Rightarrow> string" where
  "get_nf_name_by_ip ip = the_default ''UNKNOWN'' (map_of nf_table ip)"

definition is_known_nf_ip :: "string \<Rightarrow> bool" where
  "is_known_nf_ip ip \<longleftrightarrow> ip \<in> set (map fst nf_table)"

definition get_protocol_name :: "u8 \<Rightarrow> string" where
  "get_protocol_name p =
     (if p = 1 then ''ICMP'' else if p = 6 then ''TCP'' else if p = 17 then ''UDP''
      else if p = 89 then ''OSPF'' else if p = 132 then ''SCTP'' else ''UNKNOWN'')"

subsection \<open>Packets and flows\<close>

text \<open>A captured packet: its octets and the seconds and microseconds of its time stamp.\<close>

record packet =
  data :: bytes
  tv_sec :: "64 word"
  tv_usec :: "64 word"

record packet_flow =
  flow_source_ip :: string
  flow_destination_ip :: string
  source_name :: string
  destination_name :: string
  flow_protocol :: u8
  flow_length :: nat
  timestamp :: u64

text \<open>The time stamp is computed in \<open>u64\<close>, with the wrap-around of a release build.\<close>

definition analyze_packet :: "packet \<Rightarrow> packet_flow option" where
  "analyze_packet p =
     Option.bind (parse_ip_header (data p)) (\<lambda>ip_header.
       let source = ipv4_to_string (source_ip ip_header);
           destination = ipv4_to_string (destination_ip ip_header)
       in if is_known_nf_ip source \<or> is_known_nf_ip destination
          then Some \<lparr>flow_source_ip = source, flow_destination_ip = destination,
            source_name = get_nf_name_by_ip source, destination_name = get_nf_name_by_ip destination,
            flow_protocol = protocol ip_header, flow_length = length (data p),
            timestamp = tv_sec p * 1000000 + tv_usec p\<rparr>
          else None)"

text \<open>A printed line, by the values it shows.\<close>

record flow_line =
  line_number :: nat
  line_flow :: packet_flow
  line_protocol :: string
  line_sec :: u64
  line_usec :: u64

definition print_packet_flow :: "packet_flow \<Rightarrow> nat \<Rightarrow> flow_line" where
  "print_packet_flow flow packet_number =
     \<lparr>line_number = packet_number, line_flow = flow,
      line_protocol = get_protocol_name (flow_protocol flow),
      line_sec = timestamp flow div 1000000, line_usec = timestamp flow mod 1000000\<rparr>"

subsection \<open>The capture loops\<close>

datatype 'e capture_error = TimeoutExpired | CaptureError 'e

record monitor =
  packet_count :: nat
  filtered_count :: nat
  flow_stats :: "string \<rightharpoonup> nat"
  printed :: "flow_line list"

definition monitor_new :: monitor where
  "monitor_new = \<lparr>packet_count = 0, filtered_count = 0, flow_stats = Map.empty, printed = []\<rparr>"

text \<open>The separator is an arrow, three octets in UTF-8.\<close>

definition flow_key :: "packet_flow \<Rightarrow> string" where
  "flow_key flow = source_name flow @ '' '' @ [CHR 0xE2, CHR 0x86, CHR 0x92] @ '' '' @ destination_name flow"

text \<open>The common part of the three loops: a flow that passes is counted and printed.\<close>

definition pass_flow :: "packet_flow \<Rightarrow> monitor \<Rightarrow> monitor" where
  "pass_flow flow m = m\<lparr>filtered_count := Suc (filtered_count m),
     printed := printed m @ [print_packet_flow flow (Suc (filtered_count m))]\<rparr>"

fun process_loop :: "(packet, 'e capture_error) result list \<Rightarrow> monitor \<Rightarrow> monitor" where
  "process_loop [] m = m"
| "process_loop (Ok p # rest) m =
     (let m = m\<lparr>packet_count := Suc (packet_count m)\<rparr>
      in process_loop rest
        (case analyze_packet p of
           None \<Rightarrow> m
         | Some flow \<Rightarrow>
             (let m = pass_flow flow m; k = flow_key flow
              in m\<lparr>flow_stats := (flow_stats m)(k \<mapsto> the_default 0 (flow_stats m k) + 1)\<rparr>)))"
| "process_loop (Err TimeoutExpired # rest) m = process_loop rest m"
| "process_loop (Err (CaptureError e) # rest) m = m"

text \<open>The ten largest counts; \<open>entries\<close> is the table in the order its iterator yields.\<close>

definition top_flows :: "(string \<times> nat) list \<Rightarrow> (string \<times> nat) list" where
  "top_flows entries = take 10 (sort_key (\<lambda>e. - int (snd e)) entries)"

definition process_filtered_packets :: "(packet, 'e capture_error) result list \<Rightarrow> monitor" where
  "process_filtered_packets answers = process_loop answers monitor_new"

fun filter_loop :: "(packet_flow \<Rightarrow> bool) \<Rightarrow> (packet, 'e capture_error) result list \<Rightarrow> monitor \<Rightarrow> monitor" where
  "filter_loop P [] m = m"
| "filter_loop P (Ok p # rest) m =
     (let m = m\<lparr>packet_count := Suc (packet_count m)\<rparr>
      in filter_loop P rest
        (case analyze_packet p of
           None \<Rightarrow> m
         | Some flow \<Rightarrow> if P flow then pass_flow flow m else m))"
| "filter_loop P (Err TimeoutExpired # rest) m = filter_loop P rest m"
| "filter_loop P (Err (CaptureError e) # rest) m = m"

definition filter_packets_by_ips ::
  "string option \<Rightarrow> string option \<Rightarrow> (packet, 'e capture_error) result list \<Rightarrow> monitor" where
  "filter_packets_by_ips source destination answers =
     filter_loop (\<lambda>flow. (case source of None \<Rightarrow> True | Some src \<Rightarrow> flow_source_ip flow = src) \<and>
       (case destination of None \<Rightarrow> True | Some dst \<Rightarrow> flow_destination_ip flow = dst)) answers monitor_new"

definition example_filter_amf_to_smf :: "(packet, 'e capture_error) result list \<Rightarrow> monitor" where
  "example_filter_amf_to_smf = filter_packets_by_ips (Some ''10.0.0.2'') (Some ''10.0.0.3'')"

definition is_ran_ip :: "string \<Rightarrow> bool" where
  "is_ran_ip ip \<longleftrightarrow> ip \<in> {''10.0.1.0'', ''10.0.1.1'', ''10.0.1.2''}"

definition example_filter_ran_traffic :: "(packet, 'e capture_error) result list \<Rightarrow> monitor" where
  "example_filter_ran_traffic answers =
     filter_loop (\<lambda>flow. is_ran_ip (flow_source_ip flow) \<or> is_ran_ip (flow_destination_ip flow))
       answers monitor_new"

subsection \<open>The bridge device\<close>

text \<open>
  \<open>start_packet_capture\<close> up to the found device: \<open>devices k\<close> is the list of devices at attempt
  \<open>k\<close>, with their names.
\<close>

datatype 'e bridge_error = DeviceListError 'e | BridgeNotFound nat

definition bridge_attempts :: nat where
  "bridge_attempts = 30"

definition starts_with :: "string \<Rightarrow> string \<Rightarrow> bool" where
  "starts_with prefix s \<longleftrightarrow> take (length prefix) s = prefix"

function find_bridge :: "(nat \<Rightarrow> (string list, 'e) result) \<Rightarrow> nat \<Rightarrow> (string, 'e bridge_error) result" where
  "find_bridge devices attempts =
     (if bridge_attempts \<le> attempts then Err (BridgeNotFound bridge_attempts)
      else case devices attempts of
          Err e \<Rightarrow> Err (DeviceListError e)
        | Ok names \<Rightarrow>
            (case find (starts_with ''br-'') names of
               Some name \<Rightarrow> Ok name
             | None \<Rightarrow> find_bridge devices (Suc attempts)))"
  by auto
termination
  by (relation "measure (\<lambda>(_, attempts). bridge_attempts - attempts)") auto

declare find_bridge.simps [simp del]

subsection \<open>Lemmas\<close>

text \<open>The first twenty octets a header stands for.\<close>

definition ip_header_bytes :: "ip_header \<Rightarrow> bytes" where
  "ip_header_bytes h =
     (let hi = (\<lambda>w :: u16. ucast (drop_bit 8 w)); lo = (\<lambda>w :: u16. ucast w);
          fo = push_bit 13 (ucast (flags h)) OR fragment_offset h
      in [push_bit 4 (ip_version h) OR drop_bit 2 (header_length h)] @ [0] @
         concat (map (\<lambda>w. [hi w, lo w]) [total_length h, identification h, fo]) @
         [ttl h, protocol h, hi (checksum h), lo (checksum h)] @
         (case source_ip h of (a, b, c, d) \<Rightarrow> [a, b, c, d]) @
         (case destination_ip h of (a, b, c, d) \<Rightarrow> [a, b, c, d]))"

lemma be_bytes [simp]:
  "ucast (drop_bit 8 (from_be_bytes a b)) = a" "(ucast (from_be_bytes a b) :: u8) = b"
  unfolding from_be_bytes_def
  by (rule bit_word_eqI; auto simp: bit_simps dest: bit_imp_le_length)+

lemma low_bits:
  "w AND 7 = take_bit 3 w" "w AND 0x1FFF = take_bit 13 w" "x AND 0x0F = take_bit 4 x" "x * 4 = push_bit 2 x"
  for w :: u16 and x :: u8
  by (simp_all add: take_bit_eq_mask mask_eq_exp_minus_1 push_bit_eq_mult)

lemma flags_offset_join:
  "push_bit 13 (ucast (ucast (drop_bit 13 w AND 7 :: u16) :: u8)) OR (w AND 0x1FFF) = (w :: u16)"
  unfolding low_bits by (rule bit_word_eqI) (auto simp: bit_simps)

lemma version_ihl_join:
  "push_bit 4 (drop_bit 4 x AND 0x0F) OR drop_bit 2 ((x AND 0x0F) * 4) = (x :: u8)"
  unfolding low_bits by (rule bit_word_eqI) (auto simp: bit_simps)

lemma ihl_bound: "unat ((x AND 0x0F) * 4 :: u8) = 4 * (unat x mod 16)"
proof -
  have "unat (x AND 0x0F) = unat x mod 16"
    unfolding low_bits unsigned_take_bit_eq take_bit_nat_def by simp
  moreover have "4 * (unat x mod 16) < 256"
    using mod_less_divisor [of 16 "unat x"] by linarith
  ultimately show ?thesis
    by (simp add: unat_word_ariths)
qed

lemma take_20:
  assumes "20 \<le> length bs"
  shows "take 20 bs = [bs ! 0, bs ! 1, bs ! 2, bs ! 3, bs ! 4, bs ! 5, bs ! 6, bs ! 7, bs ! 8, bs ! 9,
    bs ! 10, bs ! 11, bs ! 12, bs ! 13, bs ! 14, bs ! 15, bs ! 16, bs ! 17, bs ! 18, bs ! 19]"
  using assms by (intro nth_equalityI) (auto simp: less_Suc_eq numeral_eq_Suc)

lemma parse_ip_header_None_iff:
  "parse_ip_header bs = None \<longleftrightarrow>
     length bs < 20 \<or> drop_bit 4 (bs ! 0) AND 0x0F \<noteq> 4 \<or> length bs < 4 * (unat (bs ! 0) mod 16)"
  by (simp add: parse_ip_header_def Let_def ihl_bound)

lemma parse_ip_header_SomeD:
  assumes "parse_ip_header bs = Some h"
  shows "20 \<le> length bs" and "ip_version h = 4" and "unat (header_length h) = 4 * (unat (bs ! 0) mod 16)"
    and "unat (header_length h) \<le> length bs" and "ip_header_bytes h = (take 20 bs)[1 := 0]"
proof -
  from assms have len: "20 \<le> length bs" and h: "h = \<lparr>ip_version = drop_bit 4 (bs ! 0) AND 0x0F,
      header_length = (bs ! 0 AND 0x0F) * 4, total_length = from_be_bytes (bs ! 2) (bs ! 3),
      identification = from_be_bytes (bs ! 4) (bs ! 5),
      flags = ucast (drop_bit 13 (from_be_bytes (bs ! 6) (bs ! 7)) AND 0x07),
      fragment_offset = from_be_bytes (bs ! 6) (bs ! 7) AND 0x1FFF, ttl = bs ! 8, protocol = bs ! 9,
      checksum = from_be_bytes (bs ! 10) (bs ! 11), source_ip = (bs ! 12, bs ! 13, bs ! 14, bs ! 15),
      destination_ip = (bs ! 16, bs ! 17, bs ! 18, bs ! 19)\<rparr>"
    and v: "ip_version h = 4" and hl: "unat (header_length h) \<le> length bs"
    by (auto simp: parse_ip_header_def Let_def split: if_splits)
  then show "20 \<le> length bs" "ip_version h = 4" "unat (header_length h) \<le> length bs"
    by simp_all
  show "unat (header_length h) = 4 * (unat (bs ! 0) mod 16)"
    by (simp add: h ihl_bound)
  show "ip_header_bytes h = (take 20 bs)[1 := 0]"
    unfolding take_20 [OF len] by (simp add: h ip_header_bytes_def flags_offset_join
        version_ihl_join [simplified] Let_def)
qed

lemma known_nf_iff: "is_known_nf_ip ip \<longleftrightarrow> get_nf_name_by_ip ip \<noteq> ''UNKNOWN''"
proof -
  have "''UNKNOWN'' \<notin> set (map snd nf_table)"
    by code_simp
  then have "n \<noteq> ''UNKNOWN''" if "map_of nf_table ip = Some n" for n
    using map_of_SomeD [OF that] by (metis image_eqI list.set_map snd_conv)
  moreover have "is_known_nf_ip ip \<longleftrightarrow> map_of nf_table ip \<noteq> None"
    by (simp add: is_known_nf_ip_def map_of_eq_None_iff del: not_None_eq)
  ultimately show ?thesis
    by (cases "map_of nf_table ip") (simp_all add: get_nf_name_by_ip_def the_default_def)
qed

text \<open>A frame that begins with a hardware address is not read as an IPv4 packet.\<close>

lemma frames_are_invisible:
  "drop_bit 4 (data p ! 0) AND 0x0F \<noteq> 4 \<Longrightarrow> analyze_packet p = None"
  by (simp add: analyze_packet_def parse_ip_header_None_iff bind_eq_None_conv)

fun captured :: "(packet, 'e capture_error) result list \<Rightarrow> packet list" where
  "captured (Ok p # rest) = p # captured rest"
| "captured (Err TimeoutExpired # rest) = captured rest"
| "captured _ = []"

definition flows_of :: "(packet, 'e capture_error) result list \<Rightarrow> packet_flow list" where
  "flows_of answers = List.map_filter analyze_packet (captured answers)"

lemma flows_of_simps [simp]:
  "flows_of [] = []"
  "flows_of (Ok p # rest) = (case analyze_packet p of None \<Rightarrow> [] | Some f \<Rightarrow> [f]) @ flows_of rest"
  "flows_of (Err TimeoutExpired # rest) = flows_of rest"
  "flows_of (Err (CaptureError e) # rest) = []"
  by (simp_all add: flows_of_def List.map_filter_def split: option.splits)

text \<open>The lines for the flows that pass, numbered from \<open>n + 1\<close>.\<close>

definition lines_from :: "nat \<Rightarrow> packet_flow list \<Rightarrow> flow_line list" where
  "lines_from n flows = map (\<lambda>(i, f). print_packet_flow f i) (enumerate (Suc n) flows)"

lemma lines_from_simps [simp]:
  "lines_from n [] = []"
  "lines_from n (f # fs) = print_packet_flow f (Suc n) # lines_from (Suc n) fs"
  by (simp_all add: lines_from_def)

definition add_count :: "(string \<rightharpoonup> nat) \<Rightarrow> string list \<Rightarrow> string \<rightharpoonup> nat" where
  "add_count m ks k =
     (if k \<in> set ks then Some (the_default 0 (m k) + count_list ks k) else m k)"

lemma add_count_simps:
  "add_count m [] = m"
  "add_count m (k # ks) = add_count (m(k \<mapsto> the_default 0 (m k) + 1)) ks"
  by (auto simp: add_count_def fun_eq_iff the_default_def count_list_0_iff split: option.splits)

lemma process_loop_eq:
  "process_loop answers m = \<lparr>packet_count = packet_count m + length (captured answers),
     filtered_count = filtered_count m + length (flows_of answers),
     flow_stats = add_count (flow_stats m) (map flow_key (flows_of answers)),
     printed = printed m @ lines_from (filtered_count m) (flows_of answers)\<rparr>"
  by (induction answers m rule: process_loop.induct)
    (simp_all add: add_count_simps pass_flow_def Let_def split: option.splits)

lemma filter_loop_eq:
  "filter_loop P answers m = m\<lparr>packet_count := packet_count m + length (captured answers),
     filtered_count := filtered_count m + length (filter P (flows_of answers)),
     printed := printed m @ lines_from (filtered_count m) (filter P (flows_of answers))\<rparr>"
  by (induction P answers m rule: filter_loop.induct)
    (simp_all add: pass_flow_def Let_def split: option.splits)

lemma find_bridge_cases:
  assumes "k < bridge_attempts"
  shows "find_bridge devices k =
    (case devices k of
       Err e \<Rightarrow> Err (DeviceListError e)
     | Ok names \<Rightarrow> (case find (starts_with ''br-'') names of
         Some name \<Rightarrow> Ok name
       | None \<Rightarrow> find_bridge devices (Suc k)))"
  using assms by (subst find_bridge.simps) simp

subsection \<open>Properties\<close>

text \<open>
  C40: the IPv4 parser.  It rejects octets exactly when there are fewer than twenty, the version
  is not four, or there are fewer than the header length says; it never reads past the end.  Of
  a header it accepts, the length is four times the low nibble without overflow, and the fields
  together determine the first twenty octets but for the type of service.
\<close>

theorem parse_ip_header_exact:
  "case parse_ip_header bs of
     None \<Rightarrow> length bs < 20 \<or> unat (bs ! 0) div 16 \<noteq> 4 \<or> length bs < 4 * (unat (bs ! 0) mod 16)
   | Some h \<Rightarrow> 20 \<le> length bs \<and> ip_version h = 4 \<and>
       unat (header_length h) = 4 * (unat (bs ! 0) mod 16) \<and> unat (header_length h) \<le> length bs \<and>
       ip_header_bytes h = (take 20 bs)[1 := 0]"
proof (cases "parse_ip_header bs")
  case None
  have "unat (drop_bit 4 (bs ! 0) AND 0x0F) = unat (bs ! 0) div 16"
  proof -
    have "unat (bs ! 0) < 2 ^ LENGTH(8)"
      by (rule unsigned_less)
    then have "unat (bs ! 0) div 16 < 16"
      by simp
    then show ?thesis
      unfolding low_bits unsigned_take_bit_eq unsigned_drop_bit_eq
      by (simp add: take_bit_nat_def drop_bit_nat_def)
  qed
  then have "drop_bit 4 (bs ! 0) AND 0x0F \<noteq> 4 \<longleftrightarrow> unat (bs ! 0) div 16 \<noteq> 4"
    by (simp add: word_unat_eq_iff)
  with None [unfolded parse_ip_header_None_iff] None show ?thesis
    by auto
next
  case (Some h)
  with parse_ip_header_SomeD [OF Some] show ?thesis by simp
qed

text \<open>
  The statistics of the monitor.  Up to the first capture error, and ignoring time-outs, the
  monitor counts every packet, counts and prints in order exactly the packets with a known
  network function at either end, and its table has for every pair of names the number of
  packets between them.
\<close>

theorem monitor_statistics:
  "let m = process_filtered_packets answers; flows = flows_of answers in
     packet_count m = length (captured answers) \<and> filtered_count m = length flows \<and>
     map line_flow (printed m) = flows \<and> map line_number (printed m) = [1 ..< Suc (length flows)] \<and>
     (\<forall>k. the_default 0 (flow_stats m k) = count (mset (map flow_key flows)) k) \<and>
     (\<forall>flow \<in> set flows. source_name flow \<noteq> ''UNKNOWN'' \<or> destination_name flow \<noteq> ''UNKNOWN'')"
proof -
  have lines: "map line_flow (lines_from n fs) = fs \<and> map line_number (lines_from n fs) = [Suc n ..< Suc n + length fs]"
    for n fs
    by (induction fs arbitrary: n) (simp_all add: print_packet_flow_def upt_rec)
  have "flow \<in> set (flows_of answers) \<Longrightarrow> \<exists>p. analyze_packet p = Some flow" for flow
    by (auto simp: flows_of_def List.map_filter_def)
  then have "flow \<in> set (flows_of answers) \<Longrightarrow> source_name flow \<noteq> ''UNKNOWN'' \<or> destination_name flow \<noteq> ''UNKNOWN''" for flow
    by (fastforce simp: analyze_packet_def bind_eq_Some_conv Let_def known_nf_iff split: if_splits)
  with lines [of 0 "flows_of answers"] show ?thesis
    by (simp add: process_filtered_packets_def process_loop_eq monitor_new_def add_count_def Let_def
        the_default_def count_mset count_list_0_iff del: mset_map)
qed

text \<open>
  The other two loops print exactly the flows that satisfy their criterion, and no packet is
  printed that the unfiltered loop would not print.
\<close>

lemma filter_packets_by_ips_outcome:
  "map line_flow (printed (filter_packets_by_ips src dst answers)) =
     filter (\<lambda>flow. (src = None \<or> src = Some (flow_source_ip flow)) \<and>
       (dst = None \<or> dst = Some (flow_destination_ip flow))) (flows_of answers)"
proof -
  have lines: "map line_flow (lines_from n fs) = fs" for n fs
    by (induction fs arbitrary: n) (simp_all add: print_packet_flow_def)
  have crit: "(\<lambda>flow. (case src of None \<Rightarrow> True | Some s \<Rightarrow> flow_source_ip flow = s) \<and>
      (case dst of None \<Rightarrow> True | Some d \<Rightarrow> flow_destination_ip flow = d)) =
    (\<lambda>flow. (src = None \<or> src = Some (flow_source_ip flow)) \<and>
      (dst = None \<or> dst = Some (flow_destination_ip flow)))"
    by (auto simp: fun_eq_iff split: option.splits)
  show ?thesis
    unfolding filter_packets_by_ips_def crit filter_loop_eq by (simp add: monitor_new_def lines)
qed

text \<open>The list of the most frequent flows is in decreasing order and leaves out no larger count.\<close>

lemma top_flows_largest:
  "sorted_wrt (\<lambda>x y. snd y \<le> snd x) (top_flows es)"
  "e \<in> set (top_flows es) \<Longrightarrow> e' \<in> set (drop 10 (sort_key (\<lambda>e. - int (snd e)) es)) \<Longrightarrow>
     snd e' \<le> snd e"
proof -
  let ?s = "sort_key (\<lambda>e. - int (snd e)) es"
  have srt: "sorted_wrt (\<lambda>x y. snd y \<le> snd x) ?s"
    using sorted_sort_key [of "\<lambda>e. - int (snd e)" es] by (simp add: sorted_map)
  then show "sorted_wrt (\<lambda>x y. snd y \<le> snd x) (top_flows es)"
    unfolding top_flows_def by (rule sorted_wrt_take)
  assume "e \<in> set (top_flows es)" "e' \<in> set (drop 10 ?s)"
  moreover from srt have "sorted_wrt (\<lambda>x y. snd y \<le> snd x) (take 10 ?s @ drop 10 ?s)"
    by simp
  ultimately show "snd e' \<le> snd e"
    unfolding top_flows_def sorted_wrt_append by blast
qed

text \<open>The search ends after at most thirty listings, with the first bridge of the first listing that has one.\<close>

lemma find_bridge_outcome:
  assumes "k < bridge_attempts" and "\<forall>j < k. \<exists>names. devices j = Ok names \<and> find (starts_with ''br-'') names = None"
    and "devices k = Ok names" and "find (starts_with ''br-'') names = Some name"
  shows "find_bridge devices 0 = Ok name"
proof -
  have "find_bridge devices j = Ok name" if "j \<le> k" for j
    using that
  proof (induction rule: inc_induct)
    case base
    with assms show ?case by (simp add: find_bridge_cases)
  next
    case (step j)
    with assms(1,2) show ?case by (fastforce simp: find_bridge_cases)
  qed
  then show ?thesis by simp
qed

subsection \<open>Witnesses\<close>

text \<open>An SCTP packet from the AMF to the SMF.\<close>

definition demo_packet :: packet where
  "demo_packet = \<lparr>data = [0x45, 0, 0, 20, 0, 1, 0x40, 0, 64, 132, 0, 0, 10, 0, 0, 2, 10, 0, 0, 3],
     tv_sec = 5, tv_usec = 7\<rparr>"

lemma demo_packet_parsed: "map_option protocol (parse_ip_header (data demo_packet)) = Some 132"
  by code_simp

lemma demo_packet_flow:
  "map_option (\<lambda>f. (source_name f, destination_name f)) (analyze_packet demo_packet) = Some (''AMF'', ''SMF'')"
  by code_simp

theorem parse_ip_header_exact_witness:
  "\<exists>h. parse_ip_header (data demo_packet) = Some h \<and> protocol h = 132 \<and>
     ip_header_bytes h = data demo_packet"
proof -
  obtain h where "parse_ip_header (data demo_packet) = Some h" "protocol h = 132"
    using demo_packet_parsed by auto
  with parse_ip_header_exact [of "data demo_packet"] show ?thesis
    by (simp add: demo_packet_def)
qed

theorem monitor_statistics_witness:
  "packet_count (process_filtered_packets [Ok demo_packet, Err TimeoutExpired, Ok demo_packet,
       Err (CaptureError ()), Ok demo_packet]) = 2 \<and>
   filtered_count (process_filtered_packets [Ok demo_packet, Err TimeoutExpired, Ok demo_packet,
       Err (CaptureError ()), Ok demo_packet]) = 2"
proof -
  obtain f where "analyze_packet demo_packet = Some f"
    using demo_packet_flow by auto
  with monitor_statistics [of "[Ok demo_packet, Err TimeoutExpired, Ok demo_packet,
      Err (CaptureError ()), Ok demo_packet]"]
  show ?thesis
    by (simp add: Let_def)
qed

end
