(* ===== verification/Manager_Tasks.thy ===== *)
theory Manager_Tasks
  imports Context_Manager "HOL-Library.Multiset"
begin

text \<open>
  The operations of \<open>ContextManager\<close> (\<open>ngap/manager/context_manager.rs\<close>) called by any number
  of tasks.  A method suspends between its operations on the map, so it is a sequence of steps:
  \<open>add_context\<close> has one, \<open>change_id\<close> up to three, \<open>with_context\<close> looks the queue up and then
  runs its closure through the \<open>Arc\<close> it holds.  The closure itself is one step, because the
  queue runs closures one at a time (\<open>Context_Queue\<close>).

  \<open>lost\<close> is a ghost: the addresses of the queues that \<open>change_id\<close> has dropped because the old
  identity was taken again when it tried to restore it.
\<close>

subsection \<open>Tasks and steps\<close>

datatype ('i, 'c, 'o) mgr_task =
    Adding 'c
  | AddDone "(unit, ('i, 'c) context_error) result option"
  | ChangeStart 'i 'i
  | ChangeHolding 'i 'i nat
  | ChangeRestoring 'i 'i nat
  | ChangeDone "(unit, ('i, 'c) context_error) result"
  | WithStart 'i "'c \<Rightarrow> 'c \<times> 'o option"
  | WithHolding nat "'c \<Rightarrow> 'c \<times> 'o option"
  | WithDone "('o, ('i, 'c) context_error) result option"

record ('i, 'c, 'o, 'm) mgr_sys =
  mgr :: "('c, 'o, 'm) context_manager"
  mgr_tasks :: "('i, 'c, 'o) mgr_task list"
  lost :: "nat list"

text \<open>What a task does next: its new state, the manager, and what it drops.\<close>

fun mgr_task_step ::
  "('i, nat, 'm) scc_ops \<Rightarrow> ('c \<Rightarrow> 'i) \<Rightarrow> ('i, 'c, 'o) mgr_task \<Rightarrow> ('c, 'o, 'm) context_manager \<Rightarrow>
     ('i, 'c, 'o) mgr_task \<times> ('c, 'o, 'm) context_manager \<times> nat list" where
  "mgr_task_step ops ident (Adding c) m =
     (case add_context ops ident c m of (r, m) \<Rightarrow> (AddDone r, m, []))"
| "mgr_task_step ops ident (ChangeStart old_id new_id) m =
     (case change_remove ops old_id m of
        (Some element_queue, m) \<Rightarrow> (ChangeHolding old_id new_id element_queue, m, [])
      | (None, m) \<Rightarrow> (ChangeDone (Err (ContextChangeError OldIdNotFound old_id new_id)), m, []))"
| "mgr_task_step ops ident (ChangeHolding old_id new_id element_queue) m =
     (case change_insert ops new_id element_queue m of
        (Ok _, m) \<Rightarrow> (ChangeDone (Ok ()), m, [])
      | (Err (new_id, element_queue), m) \<Rightarrow> (ChangeRestoring old_id new_id element_queue, m, []))"
| "mgr_task_step ops ident (ChangeRestoring old_id new_id element_queue) m =
     (case change_insert ops old_id element_queue m of
        (r, m) \<Rightarrow> (ChangeDone (Err (ContextChangeError NewIdAlreadyExists old_id new_id)), m,
          case r of Ok _ \<Rightarrow> [] | Err _ \<Rightarrow> [element_queue]))"
| "mgr_task_step ops ident (WithStart ctx_id f) m =
     ((case read_async ops ctx_id (queues m) of
         Some a \<Rightarrow> WithHolding a f
       | None \<Rightarrow> WithDone (Some (Err (ContextNotFound ctx_id)))), m, [])"
| "mgr_task_step ops ident (WithHolding a f) m =
     (case arcs m a of
        Some q \<Rightarrow>
          (let (out, q') = schedule_and_wait f q
           in (WithDone (map_option Ok out), m\<lparr>arcs := (arcs m)(a \<mapsto> q')\<rparr>, []))
      | None \<Rightarrow> (WithDone None, m, []))"
| "mgr_task_step ops ident t m = (t, m, [])"

text \<open>A call of one of the methods.\<close>

fun is_call :: "('i, 'c, 'o) mgr_task \<Rightarrow> bool" where
  "is_call (Adding c) = True"
| "is_call (ChangeStart old_id new_id) = True"
| "is_call (WithStart ctx_id f) = True"
| "is_call _ = False"

inductive mgr_step ::
  "('i, nat, 'm) scc_ops \<Rightarrow> ('c \<Rightarrow> 'i) \<Rightarrow> ('i, 'c, 'o, 'm) mgr_sys \<Rightarrow> ('i, 'c, 'o, 'm) mgr_sys \<Rightarrow> bool"
  for ops ident where
  call: "is_call t \<Longrightarrow> mgr_step ops ident s (s\<lparr>mgr_tasks := mgr_tasks s @ [t]\<rparr>)"
| work: "mgr_tasks s = ts @ t # ts' \<Longrightarrow> mgr_task_step ops ident t (mgr s) = (t', m, l) \<Longrightarrow>
    mgr_step ops ident s \<lparr>mgr = m, mgr_tasks = ts @ t' # ts', lost = l @ lost s\<rparr>"

inductive mgr_reachable ::
  "('i, nat, 'm) scc_ops \<Rightarrow> ('c \<Rightarrow> 'i) \<Rightarrow> ('i, 'c, 'o, 'm) mgr_sys \<Rightarrow> bool" for ops ident where
  init: "mgr_reachable ops ident \<lparr>mgr = context_manager_new ops, mgr_tasks = [], lost = []\<rparr>"
| step: "mgr_reachable ops ident s \<Longrightarrow> mgr_step ops ident s t \<Longrightarrow> mgr_reachable ops ident t"

subsection \<open>Who owns a queue\<close>

text \<open>The queue a task has taken out of the table, and the one it has borrowed.\<close>

fun held :: "('i, 'c, 'o) mgr_task \<Rightarrow> nat list" where
  "held (ChangeHolding old_id new_id a) = [a]"
| "held (ChangeRestoring old_id new_id a) = [a]"
| "held _ = []"

fun borrowed :: "('i, 'c, 'o) mgr_task \<Rightarrow> nat list" where
  "borrowed (WithHolding a f) = [a]"
| "borrowed _ = []"

definition away :: "('i, 'c, 'o) mgr_task list \<Rightarrow> nat list \<Rightarrow> nat list" where
  "away ts l = concat (map held ts) @ l"

text \<open>
  The table and the queues that are away share no address, and together they are the allocated
  ones.
\<close>

definition map_inj :: "('i \<Rightarrow> 'a option) \<Rightarrow> bool" where
  "map_inj tab \<longleftrightarrow> (\<forall>i j a. tab i = Some a \<and> tab j = Some a \<longrightarrow> i = j)"

definition owned ::
  "('i \<Rightarrow> nat option) \<Rightarrow> (nat \<rightharpoonup> 'q) \<Rightarrow> nat list \<Rightarrow> bool" where
  "owned tab store out \<longleftrightarrow> map_inj tab \<and> distinct out \<and>
     ran tab \<inter> set out = {} \<and> dom store = ran tab \<union> set out"

definition mgr_inv :: "('m \<Rightarrow> 'i \<Rightarrow> nat option) \<Rightarrow> ('i, 'c, 'o, 'm) mgr_sys \<Rightarrow> bool" where
  "mgr_inv entries s \<longleftrightarrow>
     owned (entries (queues (mgr s))) (arcs (mgr s)) (away (mgr_tasks s) (lost s)) \<and>
     (\<forall>a \<in> dom (arcs (mgr s)). a < next_arc (mgr s)) \<and>
     (\<forall>t \<in> set (mgr_tasks s). set (borrowed t) \<subseteq> dom (arcs (mgr s)))"

lemma owned_perm: "owned tab store out \<Longrightarrow> mset out = mset out' \<Longrightarrow> owned tab store out'"
  unfolding owned_def by (metis mset_eq_imp_distinct_iff mset_eq_setD)

lemma map_injD: "map_inj tab \<Longrightarrow> tab i = Some a \<Longrightarrow> tab j = Some a \<Longrightarrow> i = j"
  unfolding map_inj_def by blast

lemma map_inj_upd: "map_inj tab \<Longrightarrow> a \<notin> ran tab \<Longrightarrow> map_inj (tab(i \<mapsto> a))"
  unfolding map_inj_def by (metis fun_upd_other fun_upd_same option.inject ranI)

lemma map_inj_del: "map_inj tab \<Longrightarrow> map_inj (tab(i := None))"
  unfolding map_inj_def by (metis fun_upd_other fun_upd_same option.discI)

lemma ran_map_del:
  assumes "map_inj tab" and "tab i = Some a"
  shows "ran (tab(i := None)) = ran tab - {a}"
proof (intro set_eqI iffI)
  fix b
  assume "b \<in> ran (tab(i := None))"
  then obtain j where j: "j \<noteq> i" "tab j = Some b"
    by (auto simp: ran_def split: if_splits)
  with map_injD [OF assms] have "b \<noteq> a"
    by blast
  with j show "b \<in> ran tab - {a}"
    by (auto intro: ranI)
next
  fix b
  assume "b \<in> ran tab - {a}"
  then obtain j where "tab j = Some b" "b \<noteq> a"
    by (auto simp: ran_def)
  with assms(2) show "b \<in> ran (tab(i := None))"
    by (intro ranI [of _ j]) auto
qed

lemma owned_alloc:
  assumes "owned tab store out" and "store a = None" and "tab i = None"
  shows "owned (tab(i \<mapsto> a)) (store(a \<mapsto> q)) out"
proof -
  from assms(1,2) have "a \<notin> ran tab" "a \<notin> set out"
    unfolding owned_def by (metis UnI1 UnI2 domIff)+
  with assms(1,3) show ?thesis
    unfolding owned_def by (simp add: map_inj_upd ran_map_upd)
qed

lemma owned_remove:
  assumes "owned tab store out" and "tab i = Some a"
  shows "owned (tab(i := None)) store (a # out)"
proof -
  from assms have inj: "map_inj tab" and "a \<in> ran tab"
    by (simp_all add: owned_def ranI)
  with assms(1) ran_map_del [OF inj assms(2)] map_inj_del [OF inj] show ?thesis
    unfolding owned_def by auto
qed

lemma owned_insert:
  assumes "owned tab store (a # out)" and "tab i = None"
  shows "owned (tab(i \<mapsto> a)) store out"
  using assms unfolding owned_def by (auto simp: map_inj_upd ran_map_upd)

lemma owned_write: "owned tab store out \<Longrightarrow> store a = Some q \<Longrightarrow> owned tab (store(a \<mapsto> q')) out"
proof -
  assume "owned tab store out" and "store a = Some q"
  moreover from this(2) have "dom (store(a \<mapsto> q')) = dom store"
    by auto
  ultimately show ?thesis
    by (simp only: owned_def)
qed

lemma owned_away:
  "owned tab store (away (ts @ t # ts') l) \<longleftrightarrow> owned tab store (held t @ away (ts @ ts') l)"
proof -
  have "mset (away (ts @ t # ts') l) = mset (held t @ away (ts @ ts') l)"
    by (simp add: away_def)
  then show ?thesis
    using owned_perm by metis
qed

lemma owned_away_lost:
  "owned tab store (away (ts @ t # ts') (d @ l)) \<longleftrightarrow> owned tab store (held t @ d @ away (ts @ ts') l)"
proof -
  have "mset (away (ts @ t # ts') (d @ l)) = mset (held t @ d @ away (ts @ ts') l)"
    by (simp add: away_def)
  then show ?thesis
    using owned_perm by metis
qed

text \<open>One lemma per kind of step; \<open>rest\<close> is what the other tasks hold and what is lost.\<close>

context arc_table
begin

lemma add_owned:
  assumes "owned (entries (queues m)) (arcs m) rest" and "\<forall>a \<in> dom (arcs m). a < next_arc m"
    and "add_context ops ident c m = (r, m')"
  shows "owned (entries (queues m')) (arcs m') rest" and "\<forall>a \<in> dom (arcs m'). a < next_arc m'"
    and "dom (arcs m) \<subseteq> dom (arcs m')"
proof -
  let ?tab = "entries (queues m)"
  have fresh: "arcs m (next_arc m) = None"
    using assms(2) by auto
  obtain i qs where ins: "insert_async ops (ident c) (next_arc m) (queues m) = (i, qs)"
    by force
  have "owned (entries (queues m')) (arcs m') rest \<and> (\<forall>a \<in> dom (arcs m'). a < next_arc m') \<and>
      dom (arcs m) \<subseteq> dom (arcs m')"
  proof (cases "?tab (ident c)")
    case None
    then have "i = Ok ()" "entries qs = ?tab(ident c \<mapsto> next_arc m)"
      using ins insert_vacant [OF None, of "next_arc m"] entries_insert_vacant [OF None, of "next_arc m"]
      by simp_all
    moreover note owned_alloc [OF assms(1) fresh None]
    ultimately show ?thesis
      using assms(2,3) ins by (auto simp: add_context_def Let_def less_SucI domI split: if_splits)
  next
    case (Some b)
    then have "i = Err (ident c, next_arc m)" "entries qs = ?tab"
      using ins insert_occupied [OF Some, of "next_arc m"] entries_insert_occupied [OF Some, of "next_arc m"]
      by simp_all
    then show ?thesis
      using assms ins by (auto simp: add_context_def Let_def)
  qed
  then show "owned (entries (queues m')) (arcs m') rest" "\<forall>a \<in> dom (arcs m'). a < next_arc m'"
    "dom (arcs m) \<subseteq> dom (arcs m')"
    by blast+
qed

lemma change_remove_owned:
  assumes "owned (entries (queues m)) (arcs m) rest" and "change_remove ops i m = (r, m')"
  shows "owned (entries (queues m')) (arcs m') (case r of None \<Rightarrow> rest | Some a \<Rightarrow> a # rest)"
proof -
  have r: "r = entries (queues m) i" and q: "entries (queues m') = (entries (queues m))(i := None)"
    and "arcs m' = arcs m"
    using change_remove_simps [of i m] assms(2) by simp_all
  with assms(1) owned_remove [OF assms(1)] show ?thesis
    by (cases "entries (queues m) i") (simp_all add: fun_upd_idem)
qed

lemma change_insert_owned:
  assumes "owned (entries (queues m)) (arcs m) (a # rest)" and "change_insert ops i a m = (r, m')"
  shows "owned (entries (queues m')) (arcs m') (case r of Ok _ \<Rightarrow> rest | Err _ \<Rightarrow> a # rest)"
    and "\<And>e. r = Err e \<Longrightarrow> e = (i, a)"
proof -
  have m': "arcs m' = arcs m"
    using change_insert_frame [of i a m] assms(2) by simp
  have "owned (entries (queues m')) (arcs m') (case r of Ok _ \<Rightarrow> rest | Err _ \<Rightarrow> a # rest) \<and>
      (\<forall>e. r = Err e \<longrightarrow> e = (i, a))"
  proof (cases "entries (queues m) i")
    case None
    with change_insert_vacant [OF None, of a] owned_insert [OF assms(1) None] assms(2) m' show ?thesis
      by auto
  next
    case (Some b)
    with change_insert_occupied [OF Some, of a] assms m' show ?thesis
      by auto
  qed
  then show "owned (entries (queues m')) (arcs m') (case r of Ok _ \<Rightarrow> rest | Err _ \<Rightarrow> a # rest)"
    and "\<And>e. r = Err e \<Longrightarrow> e = (i, a)"
    by blast+
qed

lemma task_owned:
  assumes own: "owned (entries (queues m)) (arcs m) (held t @ rest)"
    and below: "\<forall>a \<in> dom (arcs m). a < next_arc m" and bor: "set (borrowed t) \<subseteq> dom (arcs m)"
    and step: "mgr_task_step ops ident t m = (t', m', d)"
  shows "owned (entries (queues m')) (arcs m') (held t' @ d @ rest) \<and>
    (\<forall>a \<in> dom (arcs m'). a < next_arc m') \<and> set (borrowed t') \<subseteq> dom (arcs m') \<and>
    dom (arcs m) \<subseteq> dom (arcs m')"
proof (cases t)
  case (Adding c)
  obtain r m1 where add: "add_context ops ident c m = (r, m1)" by force
  with add_owned [OF _ below add, of rest] own step Adding show ?thesis by auto
next
  case (ChangeStart old new)
  obtain r m1 where rem: "change_remove ops old m = (r, m1)" by force
  with change_remove_owned [OF _ rem, of rest] change_remove_simps(3,4) [of old m] own below step ChangeStart
  show ?thesis by (cases r) auto
next
  case (ChangeHolding old new a)
  obtain r m1 where ins: "change_insert ops new a m = (r, m1)" by force
  with change_insert_owned [OF _ ins, of rest] change_insert_frame [of new a m] own below step ChangeHolding
  show ?thesis by (cases r) auto
next
  case (ChangeRestoring old new a)
  obtain r m1 where ins: "change_insert ops old a m = (r, m1)" by force
  with change_insert_owned [OF _ ins, of rest] change_insert_frame [of old a m] own below step ChangeRestoring
  show ?thesis by (cases r) auto
next
  case (WithStart i f)
  then show ?thesis
    using own below step by (cases "entries (queues m) i") (auto simp: owned_def ran_def)
next
  case (WithHolding a f)
  with bor obtain q where q: "arcs m a = Some q" by auto
  obtain out q' where run: "schedule_and_wait f q = (out, q')" by force
  with WithHolding q step have "t' = WithDone (map_option Ok out)" "d = []"
      "m' = m\<lparr>arcs := (arcs m)(a \<mapsto> q')\<rparr>"
    by simp_all
  with own below q owned_write [of "entries (queues m)" "arcs m" rest a q q'] WithHolding show ?thesis
    by auto
qed (use own below bor step in auto)

lemma mgr_inv_init: "mgr_inv entries \<lparr>mgr = context_manager_new ops, mgr_tasks = [], lost = []\<rparr>"
  by (simp add: mgr_inv_def owned_def away_def map_inj_def context_manager_new_def)

lemma mgr_inv_call:
  assumes "mgr_inv entries s" and "is_call t"
  shows "mgr_inv entries (s\<lparr>mgr_tasks := mgr_tasks s @ [t]\<rparr>)"
proof -
  from assms(2) have "held t = []" "borrowed t = []"
    by (cases t; simp)+
  with assms(1) show ?thesis
    by (simp add: mgr_inv_def away_def)
qed

lemma mgr_inv_work:
  assumes inv: "mgr_inv entries s" and ts: "mgr_tasks s = ts @ t # ts'"
    and step: "mgr_task_step ops ident t (mgr s) = (t', m, l)"
  shows "mgr_inv entries \<lparr>mgr = m, mgr_tasks = ts @ t' # ts', lost = l @ lost s\<rparr>"
proof -
  from inv ts have own: "owned (entries (queues (mgr s))) (arcs (mgr s)) (held t @ away (ts @ ts') (lost s))"
    and below: "\<forall>a \<in> dom (arcs (mgr s)). a < next_arc (mgr s)"
    and bor: "\<forall>t \<in> set (mgr_tasks s). set (borrowed t) \<subseteq> dom (arcs (mgr s))"
    by (simp_all add: mgr_inv_def owned_away)
  from bor ts have "set (borrowed t) \<subseteq> dom (arcs (mgr s))"
    by simp
  from task_owned [OF own below this step] bor ts show ?thesis
    unfolding mgr_inv_def by (simp add: owned_away_lost) blast
qed

lemma mgr_inv_reachable: "mgr_reachable ops ident s \<Longrightarrow> mgr_inv entries s"
proof (induction rule: mgr_reachable.induct)
  case init
  show ?case by (rule mgr_inv_init)
next
  case (step s t)
  from step(2,3) show ?case
    by (cases rule: mgr_step.cases) (auto intro: mgr_inv_call mgr_inv_work)
qed

end

subsection \<open>Executable schedules\<close>

text \<open>
  A schedule either starts a call or lets the task with the given number take its next step;
  what it leads to is reachable.
\<close>

fun mgr_exec ::
  "('i, nat, 'm) scc_ops \<Rightarrow> ('c \<Rightarrow> 'i) \<Rightarrow> ('i, 'c, 'o) mgr_task + nat \<Rightarrow>
     ('i, 'c, 'o, 'm) mgr_sys \<Rightarrow> ('i, 'c, 'o, 'm) mgr_sys" where
  "mgr_exec ops ident (Inl t) s = (if is_call t then s\<lparr>mgr_tasks := mgr_tasks s @ [t]\<rparr> else s)"
| "mgr_exec ops ident (Inr n) s =
     (if n < length (mgr_tasks s)
      then case mgr_task_step ops ident (mgr_tasks s ! n) (mgr s) of (t', m, l) \<Rightarrow>
        \<lparr>mgr = m, mgr_tasks = (mgr_tasks s)[n := t'], lost = l @ lost s\<rparr>
      else s)"

lemma mgr_exec_reachable: "mgr_reachable ops ident s \<Longrightarrow> mgr_reachable ops ident (mgr_exec ops ident e s)"
proof (cases e)
  case (Inl t)
  assume "mgr_reachable ops ident s"
  then show ?thesis
    by (simp add: Inl) (blast intro: mgr_reachable.step mgr_step.call)
next
  case (Inr n)
  assume r: "mgr_reachable ops ident s"
  show ?thesis
  proof (cases "n < length (mgr_tasks s)")
    case True
    obtain t' m l where st: "mgr_task_step ops ident (mgr_tasks s ! n) (mgr s) = (t', m, l)"
      using prod_cases3 by blast
    from mgr_step.work [OF id_take_nth_drop [OF True] st] r show ?thesis
      by (auto simp: Inr True st upd_conv_take_nth_drop intro: mgr_reachable.step)
  qed (use r Inr in simp)
qed

lemma mgr_run_reachable:
  "mgr_reachable ops ident s \<Longrightarrow> mgr_reachable ops ident (fold (mgr_exec ops ident) es s)"
  by (induction es arbitrary: s) (simp_all add: mgr_exec_reachable)

subsection \<open>Calls end\<close>

text \<open>The steps a task still needs.\<close>

fun steps_left :: "('i, 'c, 'o) mgr_task \<Rightarrow> nat" where
  "steps_left (ChangeStart old_id new_id) = 3"
| "steps_left (ChangeHolding old_id new_id a) = 2"
| "steps_left (ChangeRestoring old_id new_id a) = 1"
| "steps_left (WithStart ctx_id f) = 2"
| "steps_left (WithHolding a f) = 1"
| "steps_left (Adding c) = 1"
| "steps_left _ = 0"

lemma steps_left_decreases:
  "mgr_task_step ops ident t m = (t', m', d) \<Longrightarrow> 0 < steps_left t \<Longrightarrow> steps_left t' < steps_left t"
  by (cases t) (auto split: prod.splits option.splits result.splits)

lemma steps_left_call: "is_call t \<Longrightarrow> steps_left t \<le> 3"
  by (cases t) simp_all

text \<open>
  Apart from the turn of a closure in its queue, no call waits for another one: whatever the other
  tasks do in between (\<open>env k\<close> is the manager at the \<open>k\<close>-th own step), a call has ended after three
  steps of its own.
\<close>

fun own_steps ::
  "('i, nat, 'm) scc_ops \<Rightarrow> ('c \<Rightarrow> 'i) \<Rightarrow> (nat \<Rightarrow> ('c, 'o, 'm) context_manager) \<Rightarrow> nat \<Rightarrow>
     ('i, 'c, 'o) mgr_task \<Rightarrow> ('i, 'c, 'o) mgr_task" where
  "own_steps ops ident env 0 t = t"
| "own_steps ops ident env (Suc k) t = own_steps ops ident (\<lambda>j. env (Suc j)) k (fst (mgr_task_step ops ident t (env 0)))"

lemma steps_left_step:
  "steps_left (fst (mgr_task_step ops ident t m)) \<le> steps_left t - 1"
proof (cases "steps_left t")
  case 0
  then have "fst (mgr_task_step ops ident t m) = t"
    by (cases t) simp_all
  with 0 show ?thesis by simp
next
  case (Suc n)
  with steps_left_decreases [of ops ident t m] show ?thesis
    by (metis One_nat_def diff_Suc_1 less_Suc_eq_le prod.collapse zero_less_Suc)
qed

lemma own_steps_left: "steps_left (own_steps ops ident env k t) \<le> steps_left t - k"
proof (induction k arbitrary: env t)
  case (Suc k)
  from Suc [of "\<lambda>j. env (Suc j)" "fst (mgr_task_step ops ident t (env 0))"]
    steps_left_step [of ops ident t "env 0"]
  show ?case by simp
qed simp

lemma calls_are_wait_free: "is_call t \<Longrightarrow> steps_left (own_steps ops ident env 3 t) = 0"
  using own_steps_left [of ops ident env 3 t] steps_left_call [of t] by simp

subsection \<open>Properties of concurrent calls\<close>

lemma count_list_distinct: "distinct xs \<Longrightarrow> count_list xs a = (if a \<in> set xs then 1 else 0)"
  by (induction xs) auto

lemma card_owner:
  assumes "map_inj tab"
  shows "card {i. tab i = Some a} = (if a \<in> ran tab then 1 else 0)"
proof (cases "a \<in> ran tab")
  case True
  then obtain i where "tab i = Some a"
    by (auto simp: ran_def)
  with map_injD [OF assms] have "{j. tab j = Some a} = {i}"
    by blast
  with True show ?thesis by simp
next
  case False
  then have "{i. tab i = Some a} = {}"
    by (auto simp: ran_def)
  with False show ?thesis by simp
qed

text \<open>
  C6: conservation of contexts.  However many tasks call \<open>add_context\<close>, \<open>change_id\<close> and
  \<open>with_context\<close> and however their steps interleave, every queue ever stored has exactly one
  owner: one identity of the table, one \<open>change_id\<close> call between its removal and its
  insertion, or none at all because the restoring insertion of a \<open>change_id\<close> was refused.  No
  context is ever reachable under two identities, and a queue borrowed by \<open>with_context\<close> is
  always one of them.
\<close>

theorem manager_conservation:
  assumes "scc_hash_map ops entries" and "mgr_reachable ops ident s"
  shows "card {i. entries (queues (mgr s)) i = Some a} +
      count_list (concat (map held (mgr_tasks s))) a + count_list (lost s) a =
        (if a \<in> dom (arcs (mgr s)) then 1 else 0) \<and>
    (WithHolding a f \<in> set (mgr_tasks s) \<longrightarrow> a \<in> dom (arcs (mgr s)))"
proof -
  from arc_table.mgr_inv_reachable [OF arc_table.intro [OF assms(1)] assms(2)]
  have own: "owned (entries (queues (mgr s))) (arcs (mgr s)) (away (mgr_tasks s) (lost s))"
    and bor: "\<forall>t \<in> set (mgr_tasks s). set (borrowed t) \<subseteq> dom (arcs (mgr s))"
    by (simp_all add: mgr_inv_def)
  from own have dist: "distinct (away (mgr_tasks s) (lost s))" and inj: "map_inj (entries (queues (mgr s)))"
    and disj: "ran (entries (queues (mgr s))) \<inter> set (away (mgr_tasks s) (lost s)) = {}"
    and dom: "dom (arcs (mgr s)) = ran (entries (queues (mgr s))) \<union> set (away (mgr_tasks s) (lost s))"
    by (simp_all add: owned_def)
  have "count_list (concat (map held (mgr_tasks s))) a + count_list (lost s) a =
      (if a \<in> set (away (mgr_tasks s) (lost s)) then 1 else 0)"
    using count_list_distinct [OF dist, of a] by (simp add: away_def)
  with card_owner [OF inj, of a] disj dom bor show ?thesis
    by fastforce
qed

text \<open>The race in which a context is lost: 105 takes the identity 5 while 5 is being renamed to 6.\<close>

definition lossy_run :: "(nat, nat, nat, nat \<rightharpoonup> nat) mgr_sys" where
  "lossy_run = fold (mgr_exec map_ops (\<lambda>c. c mod 100))
     [Inl (Adding 5), Inr 0, Inl (Adding 6), Inr 1, Inl (ChangeStart 5 6), Inr 2,
      Inl (Adding 105), Inr 3, Inr 2, Inr 2]
     \<lparr>mgr = context_manager_new map_ops, mgr_tasks = [], lost = []\<rparr>"

lemma lossy_run_eq:
  "lost lossy_run = [0]" "queues (mgr lossy_run) = [6 \<mapsto> 1, 5 \<mapsto> 2]"
  "mgr_tasks lossy_run = [AddDone (Some (Ok ())), AddDone (Some (Ok ())),
     ChangeDone (Err (ContextChangeError NewIdAlreadyExists 5 6)), AddDone (Some (Ok ()))]"
  by (auto simp: lossy_run_def context_manager_new_def add_context_def change_remove_def
      change_insert_def Let_def fun_eq_iff)

theorem manager_conservation_witness:
  "lost lossy_run = [0] \<and> {i. queues (mgr lossy_run) i = Some 0} = {} \<and>
   0 \<in> dom (arcs (mgr lossy_run)) \<and> count_list (concat (map held (mgr_tasks lossy_run))) 0 = 0"
proof -
  have "mgr_reachable map_ops (\<lambda>c. c mod 100) lossy_run"
    unfolding lossy_run_def by (intro mgr_run_reachable mgr_reachable.init)
  from manager_conservation [OF map_scc.scc_hash_map_axioms this, of 0 add_one]
  show ?thesis
    by (auto simp: lossy_run_eq split: if_splits)
qed

end
