(* ===== verification/Asn_Limits.thy ===== *)
theory Asn_Limits
  imports Ng_Setup
begin

text \<open>
  \<open>ngap/constants.rs\<close>: the constants of the application and the sizes that the ASN.1
  definition of NGAP gives its lists.  The sources declare the sizes and never compare a list
  with them; the encoder, which is not part of the repository, refuses a list that is longer.
  So a response has the types of the protocol only when the configuration keeps to the sizes,
  and the property below says that this is all it takes.
\<close>

subsection \<open>The constants\<close>

definition MAX_TNLA_ASSOCIATIONS :: nat where
  "MAX_TNLA_ASSOCIATIONS = 32"

definition DEFAULT_NGAP_PORT :: u16 where
  "DEFAULT_NGAP_PORT = 38412"

text \<open>The module \<open>asn\<close>: its constants, in the order of the file, and their values.\<close>

record asn_module =
  MAX_NUM_OF_ALLOWED_AREAS :: nat
  MAX_NUM_OF_ALLOWED_CAGS_PER_PLMN :: nat
  MAX_NUM_OF_ALLOWED_S_NSSAIS :: nat
  MAX_NUM_OF_BLUETOOTH_NAME :: nat
  MAX_NUM_OF_BPLMNS :: nat
  MAX_NUM_OF_CAGS_PER_CELL :: nat
  MAX_NUM_OF_CELL_ID_FOR_MDT :: nat
  MAX_NUM_OF_CELL_ID_FOR_WARNING :: nat
  MAX_NUM_OF_CELL_IN_AOI :: nat
  MAX_NUM_OF_CELL_IN_EAI :: nat
  MAX_NUM_OF_CELL_IN_TAI :: nat
  MAX_NUM_OF_CELLS_FOR_MBS :: nat
  MAX_NUM_OF_CELLS_IN_GNB :: nat
  MAX_NUM_OF_CELLS_IN_NG_ENB :: nat
  MAX_NUM_OF_CELLS_IN_NGRAN_NODE :: nat
  MAX_NUM_OF_CELLS_IN_UE_HISTORY_INFO :: nat
  MAX_NUM_OF_CELLS_UE_MOVING_TRAJECTORY :: nat
  MAX_NUM_OF_DRBS :: nat
  MAX_NUM_OF_EMERGENCY_AREA_ID :: nat
  MAX_NUM_OF_EAI_FOR_RESTART :: nat
  MAX_NUM_OF_EPLMNS :: nat
  MAX_NUM_OF_EPLMNS_PLUS_ONE :: nat
  MAX_NUM_OF_E_RABS :: nat
  MAX_NUM_OF_ERRORS :: nat
  MAX_NUM_OF_EXT_SLICE_ITEMS :: nat
  MAX_NUM_OF_FORB_TACS :: nat
  MAX_NUM_OF_FREQ_FOR_MDT :: nat
  MAX_NUM_OF_MBS_AREA_SESSION_IDS :: nat
  MAX_NUM_OF_MBS_FSAS :: nat
  MAX_NUM_OF_MBS_QOS_FLOWS :: nat
  MAX_NUM_OF_MBS_SESSIONS :: nat
  MAX_NUM_OF_MBS_SESSIONS_OF_UE :: nat
  MAX_NUM_OF_MBS_SERVICE_AREA_INFORMATION :: nat
  MAX_NUM_OF_MDT_PLMNS :: nat
  MAX_NUM_OF_MRBS :: nat
  MAX_NUM_OF_MULTI_CONNECTIVITY :: nat
  MAX_NUM_OF_MULTI_CONNECTIVITY_MINUS_ONE :: nat
  MAX_NUM_OF_NEIGH_PCI_FOR_MDT :: nat
  MAX_NUM_OF_NGAP_IE_SUPPORT_INFO :: nat
  MAX_NUM_OF_NG_CONNECTIONS_TO_RESET :: nat
  MAX_NUM_OF_NR_CELL_BANDS :: nat
  MAX_NUM_OF_NSAGS :: nat
  MAX_NUM_OF_PAGING_AREAS :: nat
  MAX_NUM_OF_PC5_QOS_FLOWS :: nat
  MAX_NUM_OF_PDU_SESSIONS :: nat
  MAX_NUM_OF_PLMNS :: nat
  MAX_NUM_OF_PS_CELLS_PER_PRIMARY_CELL_IN_UE_HISTORY_INFO :: nat
  MAX_NUM_OF_QOS_FLOWS :: nat
  MAX_NUM_OF_QOS_PARA_SETS :: nat
  MAX_NUM_OF_RAN_NODE_IN_AOI :: nat
  MAX_NUM_OF_RECOMMENDED_CELLS :: nat
  MAX_NUM_OF_RECOMMENDED_RAN_NODES :: nat
  MAX_NUM_OF_AOI :: nat
  MAX_NUM_OF_REPORTED_CELLS :: nat
  MAX_NUM_OF_SENSOR_NAME :: nat
  MAX_NUM_OF_SERVED_GUAMIS :: nat
  MAX_NUM_OF_SLICE_ITEMS :: nat
  MAX_NUM_OF_SUCCESSFUL_HO_REPORTS :: nat
  MAX_NUM_OF_TACS :: nat
  MAX_NUM_OF_TACS_IN_NTN :: nat
  MAX_NUM_OF_TA_FOR_MDT :: nat
  MAX_NUM_OF_TAI_FOR_INACTIVE :: nat
  MAX_NUM_OF_TAI_FOR_MBS :: nat
  MAX_NUM_OF_TAI_FOR_PAGING :: nat
  MAX_NUM_OF_TAI_FOR_RESTART :: nat
  MAX_NUM_OF_TAI_FOR_WARNING :: nat
  MAX_NUM_OF_TAI_IN_AOI :: nat
  MAX_NUM_OF_TIME_PERIODS :: nat
  MAX_NUM_OF_TNL_ASSOCIATIONS :: nat
  MAX_NUM_OF_UES_FOR_PAGING :: nat
  MAX_NUM_OF_WLAN_NAME :: nat
  MAX_NUM_OF_XN_EXT_TLAS :: nat
  MAX_NUM_OF_XN_GTP_TLAS :: nat
  MAX_NUM_OF_XN_TLAS :: nat
  MAX_NUM_OF_CANDIDATE_CELLS :: nat
  MAX_NUM_OF_TARGET_S_NSSAIS :: nat
  MAX_NR_ARFCN :: nat
  MAX_NUM_OF_CELL_ID_FOR_QMC :: nat
  MAX_NUM_OF_PLMN_FOR_QMC :: nat
  MAX_NUM_OF_UE_APP_LAYER_MEAS :: nat
  MAX_NUM_OF_SNSSAI_FOR_QMC :: nat
  MAX_NUM_OF_TA_FOR_QMC :: nat
  MAX_NUM_OF_THRESHOLDS_FOR_EXCESS_PACKET_DELAY :: nat

definition asn :: asn_module where
  "asn = \<lparr>
     MAX_NUM_OF_ALLOWED_AREAS = 16,
     MAX_NUM_OF_ALLOWED_CAGS_PER_PLMN = 256,
     MAX_NUM_OF_ALLOWED_S_NSSAIS = 8,
     MAX_NUM_OF_BLUETOOTH_NAME = 4,
     MAX_NUM_OF_BPLMNS = 12,
     MAX_NUM_OF_CAGS_PER_CELL = 64,
     MAX_NUM_OF_CELL_ID_FOR_MDT = 32,
     MAX_NUM_OF_CELL_ID_FOR_WARNING = 65535,
     MAX_NUM_OF_CELL_IN_AOI = 256,
     MAX_NUM_OF_CELL_IN_EAI = 65535,
     MAX_NUM_OF_CELL_IN_TAI = 65535,
     MAX_NUM_OF_CELLS_FOR_MBS = 8192,
     MAX_NUM_OF_CELLS_IN_GNB = 16384,
     MAX_NUM_OF_CELLS_IN_NG_ENB = 256,
     MAX_NUM_OF_CELLS_IN_NGRAN_NODE = 16384,
     MAX_NUM_OF_CELLS_IN_UE_HISTORY_INFO = 16,
     MAX_NUM_OF_CELLS_UE_MOVING_TRAJECTORY = 16,
     MAX_NUM_OF_DRBS = 32,
     MAX_NUM_OF_EMERGENCY_AREA_ID = 65535,
     MAX_NUM_OF_EAI_FOR_RESTART = 256,
     MAX_NUM_OF_EPLMNS = 15,
     MAX_NUM_OF_EPLMNS_PLUS_ONE = 16,
     MAX_NUM_OF_E_RABS = 256,
     MAX_NUM_OF_ERRORS = 256,
     MAX_NUM_OF_EXT_SLICE_ITEMS = 65535,
     MAX_NUM_OF_FORB_TACS = 4096,
     MAX_NUM_OF_FREQ_FOR_MDT = 8,
     MAX_NUM_OF_MBS_AREA_SESSION_IDS = 256,
     MAX_NUM_OF_MBS_FSAS = 64,
     MAX_NUM_OF_MBS_QOS_FLOWS = 64,
     MAX_NUM_OF_MBS_SESSIONS = 32,
     MAX_NUM_OF_MBS_SESSIONS_OF_UE = 256,
     MAX_NUM_OF_MBS_SERVICE_AREA_INFORMATION = 256,
     MAX_NUM_OF_MDT_PLMNS = 16,
     MAX_NUM_OF_MRBS = 32,
     MAX_NUM_OF_MULTI_CONNECTIVITY = 4,
     MAX_NUM_OF_MULTI_CONNECTIVITY_MINUS_ONE = 3,
     MAX_NUM_OF_NEIGH_PCI_FOR_MDT = 32,
     MAX_NUM_OF_NGAP_IE_SUPPORT_INFO = 32,
     MAX_NUM_OF_NG_CONNECTIONS_TO_RESET = 65536,
     MAX_NUM_OF_NR_CELL_BANDS = 32,
     MAX_NUM_OF_NSAGS = 256,
     MAX_NUM_OF_PAGING_AREAS = 64,
     MAX_NUM_OF_PC5_QOS_FLOWS = 2048,
     MAX_NUM_OF_PDU_SESSIONS = 256,
     MAX_NUM_OF_PLMNS = 12,
     MAX_NUM_OF_PS_CELLS_PER_PRIMARY_CELL_IN_UE_HISTORY_INFO = 8,
     MAX_NUM_OF_QOS_FLOWS = 64,
     MAX_NUM_OF_QOS_PARA_SETS = 8,
     MAX_NUM_OF_RAN_NODE_IN_AOI = 64,
     MAX_NUM_OF_RECOMMENDED_CELLS = 16,
     MAX_NUM_OF_RECOMMENDED_RAN_NODES = 16,
     MAX_NUM_OF_AOI = 64,
     MAX_NUM_OF_REPORTED_CELLS = 256,
     MAX_NUM_OF_SENSOR_NAME = 3,
     MAX_NUM_OF_SERVED_GUAMIS = 256,
     MAX_NUM_OF_SLICE_ITEMS = 1024,
     MAX_NUM_OF_SUCCESSFUL_HO_REPORTS = 64,
     MAX_NUM_OF_TACS = 256,
     MAX_NUM_OF_TACS_IN_NTN = 12,
     MAX_NUM_OF_TA_FOR_MDT = 8,
     MAX_NUM_OF_TAI_FOR_INACTIVE = 16,
     MAX_NUM_OF_TAI_FOR_MBS = 1024,
     MAX_NUM_OF_TAI_FOR_PAGING = 16,
     MAX_NUM_OF_TAI_FOR_RESTART = 2048,
     MAX_NUM_OF_TAI_FOR_WARNING = 65535,
     MAX_NUM_OF_TAI_IN_AOI = 16,
     MAX_NUM_OF_TIME_PERIODS = 2,
     MAX_NUM_OF_TNL_ASSOCIATIONS = 32,
     MAX_NUM_OF_UES_FOR_PAGING = 4096,
     MAX_NUM_OF_WLAN_NAME = 4,
     MAX_NUM_OF_XN_EXT_TLAS = 16,
     MAX_NUM_OF_XN_GTP_TLAS = 16,
     MAX_NUM_OF_XN_TLAS = 2,
     MAX_NUM_OF_CANDIDATE_CELLS = 32,
     MAX_NUM_OF_TARGET_S_NSSAIS = 8,
     MAX_NR_ARFCN = 3279165,
     MAX_NUM_OF_CELL_ID_FOR_QMC = 32,
     MAX_NUM_OF_PLMN_FOR_QMC = 16,
     MAX_NUM_OF_UE_APP_LAYER_MEAS = 16,
     MAX_NUM_OF_SNSSAI_FOR_QMC = 16,
     MAX_NUM_OF_TA_FOR_QMC = 8,
     MAX_NUM_OF_THRESHOLDS_FOR_EXCESS_PACKET_DELAY = 255\<rparr>"

lemma asn_simps [simp]:
  "MAX_NUM_OF_PLMNS asn = 12" "MAX_NUM_OF_SERVED_GUAMIS asn = 256" "MAX_NUM_OF_SLICE_ITEMS asn = 1024"
  by (simp_all add: asn_def)

subsection \<open>Typed responses\<close>

text \<open>
  A PLMN identity is three octets of digits; the parts of an AMF identifier have 8, 10 and 6
  bits; the lists have the sizes of the table.
\<close>

definition typed_guami :: "ngap_guami \<Rightarrow> bool" where
  "typed_guami g \<longleftrightarrow> is_ok (try_from_ngap_plmn (plmn_identity g)) \<and>
     length (amf_region_id g) = 8 \<and> length (amf_set_id g) = 10 \<and> length (amf_pointer g) = 6"

definition typed_plmn_item :: "ngap_plmn_support_item \<Rightarrow> bool" where
  "typed_plmn_item item \<longleftrightarrow> is_ok (try_from_ngap_plmn (item_plmn_identity item)) \<and>
     length (ne_list (slice_support_list item)) \<le> MAX_NUM_OF_SLICE_ITEMS asn"

definition typed_response :: "ng_setup_response \<Rightarrow> bool" where
  "typed_response resp \<longleftrightarrow>
     length (ne_list (resp_served_guami_list resp)) \<le> MAX_NUM_OF_SERVED_GUAMIS asn \<and>
     list_all (\<lambda>i. typed_guami (item_guami i)) (ne_list (resp_served_guami_list resp)) \<and>
     length (ne_list (resp_plmn_support_list resp)) \<le> MAX_NUM_OF_PLMNS asn \<and>
     list_all typed_plmn_item (ne_list (resp_plmn_support_list resp))"

definition config_in_bounds :: "('u, 'x) app_configuration \<Rightarrow> bool" where
  "config_in_bounds config \<longleftrightarrow>
     length (ne_list (served_guami_list config)) \<le> MAX_NUM_OF_SERVED_GUAMIS asn \<and>
     length (ne_list (plmn_support_list config)) \<le> MAX_NUM_OF_PLMNS asn \<and>
     list_all (\<lambda>item. length (ne_list (snssai_list item)) \<le> MAX_NUM_OF_SLICE_ITEMS asn)
       (ne_list (plmn_support_list config))"

lemma transform_nonempty_all2:
  "transform_nonempty f v = Some w \<Longrightarrow> list_all2 (\<lambda>y x. f x = Some y) (ne_list w) (ne_list v)"
  by (auto simp: transform_nonempty_eq_Some list_all2_conv_all_nth list_eq_iff_nth_eq)

lemma list_all2_list_all_iff:
  assumes "list_all2 R ys xs" and "\<And>x y. x \<in> set xs \<Longrightarrow> R y x \<Longrightarrow> P y \<longleftrightarrow> Q x"
  shows "list_all P ys \<longleftrightarrow> list_all Q xs"
  using assms by (induction rule: list_all2_induct) auto

lemma typed_guami_list:
  assumes "bitvec bv" and "from_guami_list bv gs = Some w"
    and "\<forall>g \<in> set (ne_list gs). valid_mcc (mcc (guami_plmn_id g)) \<and> valid_mnc (mnc (guami_plmn_id g))"
  shows "list_all (\<lambda>i. typed_guami (item_guami i)) (ne_list w)"
    and "length (ne_list w) = length (ne_list gs)"
proof -
  note all2 = transform_nonempty_all2 [OF assms(2) [unfolded from_guami_list_def]]
  show "length (ne_list w) = length (ne_list gs)"
    using all2 by (rule list_all2_lengthD)
  have "list_all (\<lambda>i. typed_guami (item_guami i)) (ne_list w) \<longleftrightarrow> list_all (\<lambda>_. True) (ne_list gs)"
  proof (rule list_all2_list_all_iff [OF all2])
    fix g i
    assume "g \<in> set (ne_list gs)"
    then obtain a b c where "convert_mcc_mnc_to_plmn_id (mcc (guami_plmn_id g)) (mnc (guami_plmn_id g)) = Some (a, b, c)"
        "is_ok (try_from_ngap_plmn (a, b, c))"
      using assms(3) from_sbi_plmn_id_converts [of "\<lparr>mcc = mcc (guami_plmn_id g), mnc = mnc (guami_plmn_id g)\<rparr>"]
      by (auto simp: from_sbi_plmn_id_def)
    moreover assume "do { n \<leftarrow> from_sbi_guami bv g; Some \<lparr>item_guami = n\<rparr> } = Some i"
    ultimately show "typed_guami (item_guami i) \<longleftrightarrow> True"
      by (auto simp: from_sbi_guami_def from_sbi_amf_id_eq [OF assms(1)] from_sbi_plmn_id_nid_def
          typed_guami_def bind_eq_Some_conv)
  qed
  then show "list_all (\<lambda>i. typed_guami (item_guami i)) (ne_list w)"
    by (simp add: list_all_iff)
qed

lemma typed_plmn_list:
  assumes "from_plmn_support_list hx ps = Some w"
    and "\<forall>p \<in> set (ne_list ps). valid_mcc (mcc (item_plmn_id p)) \<and> valid_mnc (mnc (item_plmn_id p))"
  shows "list_all typed_plmn_item (ne_list w) \<longleftrightarrow>
      list_all (\<lambda>p. length (ne_list (snssai_list p)) \<le> MAX_NUM_OF_SLICE_ITEMS asn) (ne_list ps)"
    and "length (ne_list w) = length (ne_list ps)"
proof -
  note all2 = transform_nonempty_all2 [OF assms(1) [unfolded from_plmn_support_list_def]]
  show "length (ne_list w) = length (ne_list ps)"
    using all2 by (rule list_all2_lengthD)
  show "list_all typed_plmn_item (ne_list w) \<longleftrightarrow>
      list_all (\<lambda>p. length (ne_list (snssai_list p)) \<le> MAX_NUM_OF_SLICE_ITEMS asn) (ne_list ps)"
  proof (rule list_all2_list_all_iff [OF all2])
    fix p i
    assume "p \<in> set (ne_list ps)"
    with assms(2) from_sbi_plmn_id_converts [of "item_plmn_id p"]
    obtain n where "from_sbi_plmn_id (item_plmn_id p) = Some n" "is_ok (try_from_ngap_plmn n)"
      by auto
    moreover assume "do {
        plmn \<leftarrow> from_sbi_plmn_id (item_plmn_id p);
        slices \<leftarrow> from_snssai_list hx (snssai_list p);
        Some \<lparr>item_plmn_identity = plmn, slice_support_list = slices\<rparr>
      } = Some i"
    ultimately obtain l where i: "i = \<lparr>item_plmn_identity = n, slice_support_list = l\<rparr>"
      and l: "from_snssai_list hx (snssai_list p) = Some l" and "is_ok (try_from_ngap_plmn n)"
      by (auto simp: bind_eq_Some_conv)
    then show "typed_plmn_item i \<longleftrightarrow> length (ne_list (snssai_list p)) \<le> MAX_NUM_OF_SLICE_ITEMS asn"
      using list_all2_lengthD [OF transform_nonempty_all2 [OF l [unfolded from_snssai_list_def]]]
      by (simp add: typed_plmn_item_def)
  qed
qed

subsection \<open>Property\<close>

text \<open>
  C14: the types of a setup response.  With a valid configuration, the response of an accepted
  NG Setup has the types of the protocol - identities of digits, AMF identifiers of 8, 10 and 6
  bits, lists within the sizes of \<open>constants.rs\<close> - exactly when the lists of the configuration
  are within these sizes; nothing else of the request or of the state matters.
\<close>

theorem ng_setup_response_typed:
  assumes "bitvec (bitlib env)" and "valid_app_config config"
    and "fst (handle_ng_setup env config gnbs request state) = Some (Ok resp)"
  shows "typed_response resp \<longleftrightarrow> config_in_bounds config"
proof -
  from assms(3) have p: "from_plmn_support_list (hexlib env) (plmn_support_list config) =
      Some (resp_plmn_support_list resp)"
    and g: "from_guami_list (bitlib env) (served_guami_list config) = Some (resp_served_guami_list resp)"
    by (auto simp: handle_ng_setup_def Let_def bind_eq_Some_conv split: if_splits result.splits)
  from assms(2) have "\<forall>g \<in> set (ne_list (served_guami_list config)).
      valid_mcc (mcc (guami_plmn_id g)) \<and> valid_mnc (mnc (guami_plmn_id g))"
    "\<forall>p \<in> set (ne_list (plmn_support_list config)).
      valid_mcc (mcc (item_plmn_id p)) \<and> valid_mnc (mnc (item_plmn_id p))"
    by (simp_all add: valid_app_config_def list_all_iff)
  from typed_guami_list [OF assms(1) g this(1)] typed_plmn_list [OF p this(2)] show ?thesis
    by (simp add: typed_response_def config_in_bounds_def)
qed

theorem ng_setup_response_typed_witness:
  "\<exists>resp. fst (handle_ng_setup demo_env demo_app Map.empty demo_request demo_gnb) = Some (Ok resp) \<and>
    typed_response resp"
proof -
  have "\<lparr>tai_plmn_id = \<lparr>mcc = ''208'', mnc = ''93''\<rparr>, tai_tac = ''000001'', tai_rest = ()\<rparr>
      \<in> set (support_tai_list demo_app)"
    by (simp add: demo_app_def configuration_new_def demo_config_def Let_def)
  with handle_ng_setup_succeeds [OF demo_env_laws(1,3,4) demo_app_valid _ demo_announced_ok, of Map.empty demo_gnb]
    demo_announces
  obtain resp where resp: "fst (handle_ng_setup demo_env demo_app Map.empty demo_request demo_gnb) = Some (Ok resp)"
    by fastforce
  have "config_in_bounds demo_app"
    by (simp add: config_in_bounds_def demo_app_lists demo_plmn_support_def ne_list_def)
  with ng_setup_response_typed [OF demo_env_laws(4) demo_app_valid resp] resp show ?thesis
    by blast
qed

end
