(* ===== verification/Manager_Queues.thy ===== *)
theory Manager_Queues
  imports Manager_Tasks
begin

text \<open>
  The context manager with its queues at work: the system of \<open>Manager_Tasks\<close> in which every queue is
  the concurrent system of \<open>Context_Queue\<close>.  A \<open>with_context\<close> call that has looked up its queue pushes
  its closure when the queue is not locked, waits on its channel, and returns what the channel
  delivers; in between other calls push, processors run, and the context may be renamed or dropped
  from the table.

  \<open>births\<close> is a ghost: the context each queue was created with.
\<close>

subsection \<open>The system\<close>

datatype ('i, 'c, 'o) call =
    Own "('i, 'c, 'o) mgr_task"
  | Awaiting nat nat "'c \<Rightarrow> 'c \<times> 'o option"
  | Returned nat nat "'c \<Rightarrow> 'c \<times> 'o option" "'o option"

record ('i, 'c, 'o, 'm) full_sys =
  tab :: "('c, 'o, 'm) context_manager"
  qsys :: "nat \<rightharpoonup> ('c, 'o) queue_sys"
  births :: "nat \<rightharpoonup> 'c"
  calls :: "('i, 'c, 'o) call list"
  gone :: "nat list"

text \<open>A context that has been added gets a queue of its own.\<close>

fun added :: "('i, 'c, 'o) mgr_task \<Rightarrow> ('i, 'c, 'o) mgr_task \<Rightarrow> 'c option" where
  "added (Adding c) (AddDone (Some (Ok _))) = Some c"
| "added _ _ = None"

fun is_holding :: "('i, 'c, 'o) mgr_task \<Rightarrow> bool" where
  "is_holding (WithHolding a f) = True"
| "is_holding _ = False"

definition set_queue :: "nat \<Rightarrow> ('c, 'o) queue_sys \<Rightarrow> ('i, 'c, 'o, 'm) full_sys \<Rightarrow> ('i, 'c, 'o, 'm) full_sys" where
  "set_queue a q s = s\<lparr>qsys := (qsys s)(a \<mapsto> q), tab := (tab s)\<lparr>arcs := (arcs (tab s))(a \<mapsto> cq q)\<rparr>\<rparr>"

inductive full_step ::
  "('i, nat, 'm) scc_ops \<Rightarrow> ('c \<Rightarrow> 'i) \<Rightarrow> ('i, 'c, 'o, 'm) full_sys \<Rightarrow> ('i, 'c, 'o, 'm) full_sys \<Rightarrow> bool"
  for ops ident where
  call: "is_call t \<Longrightarrow> full_step ops ident s (s\<lparr>calls := calls s @ [Own t]\<rparr>)"
| table: "\<lbrakk>calls s = ts @ Own t # ts'; \<not> is_holding t; mgr_task_step ops ident t (tab s) = (t', m, l)\<rbrakk> \<Longrightarrow>
    full_step ops ident s (s\<lparr>tab := m, calls := ts @ Own t' # ts', gone := l @ gone s,
      qsys := (case added t t' of Some c \<Rightarrow> (qsys s)(next_arc (tab s) \<mapsto> queue_sys_init c) | None \<Rightarrow> qsys s),
      births := (case added t t' of Some c \<Rightarrow> (births s)(next_arc (tab s) \<mapsto> c) | None \<Rightarrow> births s)\<rparr>)"
| push: "\<lbrakk>calls s = ts @ Own (WithHolding a f) # ts'; qsys s a = Some q; \<not> queue_locked q\<rbrakk> \<Longrightarrow>
    full_step ops ident s ((set_queue a (client_push f q) s)
      \<lparr>calls := ts @ Awaiting a (length (pushed q)) f # ts'\<rparr>)"
| turn: "\<lbrakk>qsys s a = Some q; queue_step q q'; pushed q' = pushed q\<rbrakk> \<Longrightarrow>
    full_step ops ident s (set_queue a q' s)"
| receive: "\<lbrakk>calls s = ts @ Awaiting a n f # ts'; qsys s a = Some q; channels q n = Some (delivered r)\<rbrakk> \<Longrightarrow>
    full_step ops ident s (s\<lparr>calls := ts @ Returned a n f r # ts'\<rparr>)"

inductive full_reachable ::
  "('i, nat, 'm) scc_ops \<Rightarrow> ('c \<Rightarrow> 'i) \<Rightarrow> ('i, 'c, 'o, 'm) full_sys \<Rightarrow> bool" for ops ident where
  init: "full_reachable ops ident
    \<lparr>tab = context_manager_new ops, qsys = Map.empty, births = Map.empty, calls = [], gone = []\<rparr>"
| step: "full_reachable ops ident s \<Longrightarrow> full_step ops ident s t \<Longrightarrow> full_reachable ops ident t"

subsection \<open>The invariant\<close>

fun strip :: "('i, 'c, 'o) call \<Rightarrow> ('i, 'c, 'o) mgr_task" where
  "strip (Own t) = t"
| "strip _ = WithDone None"

text \<open>Every queue runs from its first context; the store shows the queues.\<close>

definition queues_ok :: "('i, 'c, 'o, 'm) full_sys \<Rightarrow> bool" where
  "queues_ok s \<longleftrightarrow>
     (\<forall>a. map_option cq (qsys s a) = arcs (tab s) a) \<and>
     (\<forall>a q. qsys s a = Some q \<longrightarrow> (\<exists>c0. births s a = Some c0 \<and> queue_reachable c0 q))"

text \<open>A call that waits has a place in its queue; one that returned has the output of that place.\<close>

definition placed :: "('c, 'o) queue_sys \<Rightarrow> nat \<Rightarrow> ('c \<Rightarrow> 'c \<times> 'o option) \<Rightarrow> bool" where
  "placed q n f \<longleftrightarrow> n < length (pushed q) \<and> closure (pushed q ! n) = f"

fun call_ok :: "(nat \<rightharpoonup> ('c, 'o) queue_sys) \<Rightarrow> (nat \<rightharpoonup> 'c) \<Rightarrow> ('i, 'c, 'o) call \<Rightarrow> bool" where
  "call_ok qs bs (Own t) = (set (borrowed t) \<subseteq> dom qs)"
| "call_ok qs bs (Awaiting a n f) = (\<exists>q. qs a = Some q \<and> placed q n f)"
| "call_ok qs bs (Returned a n f r) =
     (\<exists>q c0. qs a = Some q \<and> bs a = Some c0 \<and> placed q n f \<and> snd (seq_run c0 (pushed q)) ! n = r)"

text \<open>The place of a call in a queue.\<close>

fun place :: "('i, 'c, 'o) call \<Rightarrow> (nat \<times> nat) list" where
  "place (Awaiting a n f) = [(a, n)]"
| "place (Returned a n f r) = [(a, n)]"
| "place (Own t) = []"

definition full_inv :: "('m \<Rightarrow> 'i \<Rightarrow> nat option) \<Rightarrow> ('i, 'c, 'o, 'm) full_sys \<Rightarrow> bool" where
  "full_inv entries s \<longleftrightarrow>
     owned (entries (queues (tab s))) (arcs (tab s)) (away (map strip (calls s)) (gone s)) \<and>
     (\<forall>a \<in> dom (arcs (tab s)). a < next_arc (tab s)) \<and>
     queues_ok s \<and> (\<forall>t \<in> set (calls s). call_ok (qsys s) (births s) t)"

text \<open>Queues only grow.\<close>

definition extends :: "('c, 'o) queue_sys \<Rightarrow> ('c, 'o) queue_sys \<Rightarrow> bool" where
  "extends q q' \<longleftrightarrow> (\<exists>rest. pushed q' = pushed q @ rest)"

lemma queue_step_extends: "queue_step q q' \<Longrightarrow> extends q q'"
  by (erule queue_stepE) (auto simp: extends_def)

lemma placed_extends: "extends q q' \<Longrightarrow> placed q n f \<Longrightarrow> placed q' n f"
  by (auto simp: extends_def placed_def nth_append)

lemma output_extends:
  "extends q q' \<Longrightarrow> placed q n f \<Longrightarrow> snd (seq_run c0 (pushed q')) ! n = snd (seq_run c0 (pushed q)) ! n"
  by (auto simp: extends_def placed_def nth_seq_run_append)

lemma call_ok_extends:
  assumes "call_ok qs bs t" and "qs a = Some q" and "extends q q'"
  shows "call_ok (qs(a \<mapsto> q')) bs t"
  using assms by (cases t) (auto simp: placed_extends output_extends)

lemma call_ok_fresh:
  assumes "call_ok qs bs t" and "qs a = None"
  shows "call_ok (qs(a \<mapsto> q)) (bs(a \<mapsto> c)) t"
  using assms by (cases t) (auto split: if_splits)

lemma extends_push: "extends q (client_push f q)" and placed_push: "placed (client_push f q) (length (pushed q)) f"
  by (auto simp: extends_def placed_def client_push_def Let_def split: prod.splits)

lemma delivered_inject [simp]: "delivered r = delivered r' \<longleftrightarrow> r = r'"
  by (cases r; cases r') simp_all

lemma delivered_neq_Waiting [simp]: "delivered r \<noteq> Waiting" "Waiting \<noteq> delivered r"
  by (cases r; simp)+

lemma received_output:
  assumes "queue_reachable c0 q" and "placed q n f" and "channels q n = Some (delivered r)"
  shows "snd (seq_run c0 (pushed q)) ! n = r"
proof -
  from reachable_order_inv [OF assms(1)] assms(2,3)
  have "n < finished q" "finished q \<le> length (pushed q)"
    "r = snd (seq_run c0 (take (finished q) (pushed q))) ! n"
    by (auto simp: order_inv_def placed_def split: if_splits)
  then show ?thesis
    by (simp add: nth_seq_run_take)
qed

lemma table_arcs:
  assumes "mgr_task_step ops ident t m = (t', m', l)" and "\<not> is_holding t"
  shows "arcs m' = (case added t t' of Some c \<Rightarrow> (arcs m)(next_arc m \<mapsto> context_queue_new c) | None \<Rightarrow> arcs m)"
proof (cases t)
  case (Adding c)
  with assms(1) show ?thesis
    by (auto simp: add_context_def arc_into_inner_def Let_def split: prod.splits result.splits option.splits)
next
  case (ChangeStart old new)
  with assms(1) show ?thesis
    by (auto simp: change_remove_def Let_def split: prod.splits option.splits)
next
  case (ChangeHolding old new a)
  with assms(1) show ?thesis
    by (auto simp: change_insert_def split: prod.splits result.splits)
next
  case (ChangeRestoring old new a)
  with assms(1) show ?thesis
    by (auto simp: change_insert_def split: prod.splits result.splits)
qed (use assms in auto)

subsection \<open>Every step keeps the invariant\<close>

lemma queues_ok_set:
  assumes "queues_ok s" and "qsys s a = Some q" and "queue_step q q'"
  shows "queues_ok (set_queue a q' s)"
proof -
  from assms(1,2) obtain c0 where "births s a = Some c0" "queue_reachable c0 q"
    unfolding queues_ok_def by blast
  with queue_reachable.step [OF this(2) assms(3)] assms(1) show ?thesis
    by (auto simp: queues_ok_def set_queue_def)
qed

lemma owned_set_queue:
  assumes "owned (entries (queues (tab s))) (arcs (tab s)) out" and "queues_ok s" and "qsys s a = Some q"
  shows "owned (entries (queues (tab (set_queue a q' s)))) (arcs (tab (set_queue a q' s))) out"
proof -
  from assms(2,3) have "arcs (tab s) a = Some (cq q)"
    by (metis option.simps(9) queues_ok_def)
  from owned_write [OF assms(1) this, of "cq q'"] show ?thesis
    by (simp add: set_queue_def)
qed

lemma set_queue_below:
  assumes "\<forall>a \<in> dom (arcs (tab s)). a < next_arc (tab s)" and "queues_ok s" and "qsys s a = Some q"
  shows "\<forall>b \<in> dom (arcs (tab (set_queue a q' s))). b < next_arc (tab (set_queue a q' s))"
proof -
  from assms(2,3) have "a \<in> dom (arcs (tab s))"
    by (metis domI option.simps(9) queues_ok_def)
  with assms(1) show ?thesis
    by (auto simp: set_queue_def)
qed

lemma full_inv_set_queue:
  assumes "full_inv entries s" and "qsys s a = Some q" and "queue_step q q'"
  shows "full_inv entries (set_queue a q' s)"
proof -
  from assms(1) have inv: "owned (entries (queues (tab s))) (arcs (tab s)) (away (map strip (calls s)) (gone s))"
    "\<forall>a \<in> dom (arcs (tab s)). a < next_arc (tab s)" "queues_ok s"
    "\<forall>t \<in> set (calls s). call_ok (qsys s) (births s) t"
    by (simp_all add: full_inv_def)
  have "\<forall>t \<in> set (calls s). call_ok ((qsys s)(a \<mapsto> q')) (births s) t"
    using inv(4) call_ok_extends [of "qsys s" "births s" _ a q q'] assms(2)
      queue_step_extends [OF assms(3)] by blast
  with owned_set_queue [of entries s _ a q q', OF inv(1,3) assms(2)] set_queue_below [OF inv(2,3) assms(2)]
    queues_ok_set [OF inv(3) assms(2,3)]
  show ?thesis
    by (simp add: full_inv_def) (simp add: set_queue_def)
qed

text \<open>Replacing a call by one that holds as much.\<close>

lemma full_inv_replace:
  assumes "full_inv entries s" and "calls s = ts @ t # ts'" and "held (strip t') = held (strip t)"
    and "call_ok (qsys s) (births s) t'"
  shows "full_inv entries (s\<lparr>calls := ts @ t' # ts'\<rparr>)"
  using assms by (auto simp: full_inv_def away_def queues_ok_def)

context arc_table
begin

lemma full_inv_init: "full_inv entries
    \<lparr>tab = context_manager_new ops, qsys = Map.empty, births = Map.empty, calls = [], gone = []\<rparr>"
  by (simp add: full_inv_def queues_ok_def owned_def away_def map_inj_def context_manager_new_def)

lemma full_inv_call:
  assumes "full_inv entries s" and "is_call t"
  shows "full_inv entries (s\<lparr>calls := calls s @ [Own t]\<rparr>)"
proof -
  from assms(2) have "held t = []" "borrowed t = []"
    by (cases t; simp)+
  with assms(1) show ?thesis
    by (simp add: full_inv_def away_def queues_ok_def)
qed

lemma full_inv_push:
  assumes "full_inv entries s" and "calls s = ts @ Own (WithHolding a f) # ts'"
    and "qsys s a = Some q" and "\<not> queue_locked q"
  shows "full_inv entries ((set_queue a (client_push f q) s)\<lparr>calls := ts @ Awaiting a (length (pushed q)) f # ts'\<rparr>)"
proof (rule full_inv_replace)
  show "full_inv entries (set_queue a (client_push f q) s)"
    by (rule full_inv_set_queue [OF assms(1,3) client_push_step [OF assms(4)]])
qed (use assms(2) placed_push [of f q] in \<open>auto simp: set_queue_def\<close>)

lemma full_inv_receive:
  assumes "full_inv entries s" and "calls s = ts @ Awaiting a n f # ts'"
    and "qsys s a = Some q" and "channels q n = Some (delivered r)"
  shows "full_inv entries (s\<lparr>calls := ts @ Returned a n f r # ts'\<rparr>)"
proof (rule full_inv_replace [OF assms(1,2)])
  from assms(1-3) have "placed q n f"
    by (auto simp: full_inv_def)
  moreover from assms(1,3) obtain c0 where "births s a = Some c0" "queue_reachable c0 q"
    unfolding full_inv_def queues_ok_def by blast
  ultimately show "call_ok (qsys s) (births s) (Returned a n f r)"
    using assms(3,4) received_output by fastforce
qed simp

lemma full_inv_table:
  assumes inv: "full_inv entries s" and ts: "calls s = ts @ Own t # ts'" and "\<not> is_holding t"
    and step: "mgr_task_step ops ident t (tab s) = (t', m, l)"
  shows "full_inv entries (s\<lparr>tab := m, calls := ts @ Own t' # ts', gone := l @ gone s,
      qsys := (case added t t' of Some c \<Rightarrow> (qsys s)(next_arc (tab s) \<mapsto> queue_sys_init c) | None \<Rightarrow> qsys s),
      births := (case added t t' of Some c \<Rightarrow> (births s)(next_arc (tab s) \<mapsto> c) | None \<Rightarrow> births s)\<rparr>)"
    (is "full_inv entries (s\<lparr>tab := m, calls := _, gone := _, qsys := ?qs, births := ?bs\<rparr>)")
proof -
  let ?n = "next_arc (tab s)"
  from inv ts have own: "owned (entries (queues (tab s))) (arcs (tab s))
      (held t @ away (map strip (ts @ ts')) (gone s))"
    and below: "\<forall>a \<in> dom (arcs (tab s)). a < ?n" and qok: "queues_ok s"
    and calls: "\<forall>t \<in> set (ts @ ts'). call_ok (qsys s) (births s) t"
    by (simp_all add: full_inv_def owned_away)
  from assms(3) have "set (borrowed t) \<subseteq> dom (arcs (tab s))"
    by (cases t) simp_all
  note next' = task_owned [OF own below this step]
  have arcs: "arcs m = (case added t t' of Some c \<Rightarrow> (arcs (tab s))(?n \<mapsto> context_queue_new c) | None \<Rightarrow> arcs (tab s))"
    by (rule table_arcs [OF step assms(3)])
  from below have "arcs (tab s) ?n = None"
    by auto
  with qok have fresh: "qsys s ?n = None"
    unfolding queues_ok_def by (metis map_option_is_None)
  have shown: "map_option cq (?qs a) = arcs m a" for a
    using qok by (auto simp: arcs queues_ok_def queue_sys_init_def split: option.splits)
  moreover have "?qs a = Some q \<Longrightarrow> \<exists>c0. ?bs a = Some c0 \<and> queue_reachable c0 q" for a q
    using qok by (auto simp: queues_ok_def intro: queue_reachable.init split: option.splits if_splits)
  moreover have "\<forall>t \<in> set (ts @ ts'). call_ok ?qs ?bs t"
    using calls fresh by (auto simp: call_ok_fresh split: option.splits)
  moreover have "dom ?qs = dom (arcs m)"
    using shown unfolding dom_def by (metis map_option_is_None)
  ultimately show ?thesis
    using next' by (auto simp: full_inv_def queues_ok_def owned_away_lost)
qed

lemma full_inv_reachable: "full_reachable ops ident s \<Longrightarrow> full_inv entries s"
proof (induction rule: full_reachable.induct)
  case init
  show ?case by (rule full_inv_init)
next
  case (step s t)
  from step(2,3) show ?case
    by (cases rule: full_step.cases)
      (auto intro: full_inv_call full_inv_push full_inv_set_queue full_inv_receive simp: full_inv_table)
qed

lemma places_reachable: "full_reachable ops ident s \<Longrightarrow> distinct (concat (map place (calls s)))"
proof (induction rule: full_reachable.induct)
  case (step s t)
  note inv = full_inv_reachable [OF step(1)]
  from step(2,3) show ?case
  proof (cases rule: full_step.cases)
    case (push ts a f ts' q)
    have "(a, length (pushed q)) \<notin> set (place t)" if "t \<in> set (calls s)" for t
    proof -
      from inv that have "call_ok (qsys s) (births s) t"
        by (simp add: full_inv_def)
      with push show ?thesis
        by (cases t) (auto simp: placed_def)
    qed
    with push step(3) show ?thesis
      by (auto simp: set_queue_def)
  qed (auto simp: set_queue_def)
qed simp

lemma turn_reachable:
  assumes "full_reachable ops ident s" and "qsys s a = Some q" and "processors q \<noteq> []"
  shows "full_reachable ops ident (set_queue a (processor_turn q) s)"
proof -
  from full_inv_reachable [OF assms(1)] assms(2) obtain c0 where "queue_reachable c0 q"
    unfolding full_inv_def queues_ok_def by blast
  from processor_turn_step [OF reachable_tasks_inv [OF this] assms(3)]
  have "full_step ops ident s (set_queue a (processor_turn q) s)"
    by (rule full_step.turn [OF assms(2)]) simp
  with assms(1) show ?thesis
    by (rule full_reachable.step)
qed

end

subsection \<open>Executable schedules\<close>

text \<open>A schedule starts a call, lets a call take its next step, or lets a processor take a turn.\<close>

datatype ('i, 'c, 'o) sched = Call "('i, 'c, 'o) mgr_task" | Step nat | Turn nat

definition table_step ::
  "('i, nat, 'm) scc_ops \<Rightarrow> ('c \<Rightarrow> 'i) \<Rightarrow> nat \<Rightarrow> ('i, 'c, 'o) mgr_task \<Rightarrow>
     ('i, 'c, 'o, 'm) full_sys \<Rightarrow> ('i, 'c, 'o, 'm) full_sys" where
  "table_step ops ident k t s =
     (case mgr_task_step ops ident t (tab s) of (t', m, l) \<Rightarrow>
        s\<lparr>tab := m, calls := (calls s)[k := Own t'], gone := l @ gone s,
          qsys := (case added t t' of Some c \<Rightarrow> (qsys s)(next_arc (tab s) \<mapsto> queue_sys_init c) | None \<Rightarrow> qsys s),
          births := (case added t t' of Some c \<Rightarrow> (births s)(next_arc (tab s) \<mapsto> c) | None \<Rightarrow> births s)\<rparr>)"

definition call_step ::
  "('i, nat, 'm) scc_ops \<Rightarrow> ('c \<Rightarrow> 'i) \<Rightarrow> nat \<Rightarrow> ('i, 'c, 'o, 'm) full_sys \<Rightarrow> ('i, 'c, 'o, 'm) full_sys" where
  "call_step ops ident k s =
     (case calls s ! k of
        Own (WithHolding a f) \<Rightarrow>
          (case qsys s a of
             Some q \<Rightarrow> if queue_locked q then s
               else (set_queue a (client_push f q) s)\<lparr>calls := (calls s)[k := Awaiting a (length (pushed q)) f]\<rparr>
           | None \<Rightarrow> s)
      | Own t \<Rightarrow> table_step ops ident k t s
      | Awaiting a n f \<Rightarrow>
          (case qsys s a of
             Some q \<Rightarrow>
               (case channels q n of
                  Some (Sent out) \<Rightarrow> s\<lparr>calls := (calls s)[k := Returned a n f (Some out)]\<rparr>
                | Some SenderDropped \<Rightarrow> s\<lparr>calls := (calls s)[k := Returned a n f None]\<rparr>
                | _ \<Rightarrow> s)
           | None \<Rightarrow> s)
      | Returned a n f r \<Rightarrow> s)"

fun full_exec ::
  "('i, nat, 'm) scc_ops \<Rightarrow> ('c \<Rightarrow> 'i) \<Rightarrow> ('i, 'c, 'o) sched \<Rightarrow> ('i, 'c, 'o, 'm) full_sys \<Rightarrow> ('i, 'c, 'o, 'm) full_sys" where
  "full_exec ops ident (Call t) s = (if is_call t then s\<lparr>calls := calls s @ [Own t]\<rparr> else s)"
| "full_exec ops ident (Step k) s = (if k < length (calls s) then call_step ops ident k s else s)"
| "full_exec ops ident (Turn a) s =
     (case qsys s a of
        Some q \<Rightarrow> if processors q = [] then s else set_queue a (processor_turn q) s
      | None \<Rightarrow> s)"

lemma call_step_table:
  assumes "k < length (calls s)" and "calls s ! k = Own t" and "\<not> is_holding t"
  shows "full_step ops ident s (call_step ops ident k s)"
proof -
  obtain t' m l where st: "mgr_task_step ops ident t (tab s) = (t', m, l)"
    using prod_cases3 by blast
  from id_take_nth_drop [OF assms(1)] assms(2)
  have split: "calls s = take k (calls s) @ Own t # drop (Suc k) (calls s)"
    by simp
  have "call_step ops ident k s = table_step ops ident k t s"
    using assms(2,3) by (cases t) (simp_all add: call_step_def)
  with full_step.table [OF split assms(3) st] show ?thesis
    by (simp add: table_step_def st upd_conv_take_nth_drop [OF assms(1)])
qed

lemma call_step_full:
  assumes "k < length (calls s)"
  shows "call_step ops ident k s = s \<or> full_step ops ident s (call_step ops ident k s)"
proof -
  note split = id_take_nth_drop [OF assms]
  note upd = upd_conv_take_nth_drop [OF assms]
  show ?thesis
  proof (cases "calls s ! k")
    case (Own t)
    show ?thesis
    proof (cases "is_holding t")
      case True
      then obtain a f where t: "t = WithHolding a f"
        by (cases t) simp_all
      with Own split full_step.push [of s "take k (calls s)" a f "drop (Suc k) (calls s)"] show ?thesis
        by (auto simp: call_step_def upd split: option.splits)
    qed (use call_step_table [OF assms Own] in blast)
  next
    case (Awaiting a n f)
    with split full_step.receive [of s "take k (calls s)" a n f "drop (Suc k) (calls s)" _ "Some out" for out]
      full_step.receive [of s "take k (calls s)" a n f "drop (Suc k) (calls s)" _ None]
    show ?thesis
      by (auto simp: call_step_def upd split: option.splits oneshot.splits)
  qed (simp add: call_step_def)
qed

lemma full_exec_reachable:
  assumes "scc_hash_map ops entries" and "full_reachable ops ident s"
  shows "full_reachable ops ident (full_exec ops ident e s)"
proof (cases e)
  case (Call t)
  with full_reachable.step [OF assms(2) full_step.call [of t]] assms(2) show ?thesis
    by simp
next
  case (Step k)
  with call_step_full [of k s ops ident] full_reachable.step [OF assms(2)] assms(2) show ?thesis
    by (cases "k < length (calls s)") (simp, metis, simp)
next
  case (Turn a)
  with arc_table.turn_reachable [OF arc_table.intro [OF assms(1)] assms(2)] assms(2) show ?thesis
    by (auto split: option.splits)
qed

lemma full_run_reachable:
  "scc_hash_map ops entries \<Longrightarrow> full_reachable ops ident s \<Longrightarrow>
     full_reachable ops ident (fold (full_exec ops ident) es s)"
  by (induction es arbitrary: s) (simp_all add: full_exec_reachable)

subsection \<open>Property\<close>

text \<open>
  C5: the manager is linearizable with all its calls interleaved.  Each context ever added has one
  order of the operations on it, the order in which they were pushed: the context is what a prefix
  of them makes of the context that was added, and every \<open>with_context\<close> call that has returned has
  a place of its own in that order, holds its own closure there, and returned the output of the
  sequential execution at that place, or panicked when that execution does.  This does not depend
  on what became of the identity meanwhile: operations in flight survive a \<open>change_id\<close>, also one
  that loses the context, and no context is reachable under two identities.
\<close>

theorem manager_linearizable:
  assumes "scc_hash_map ops entries" and "full_reachable ops ident s"
  shows "(\<forall>a q. qsys s a = Some q \<longrightarrow> arcs (tab s) a = Some (cq q) \<and>
      (\<exists>c0. births s a = Some c0 \<and>
        (\<exists>n \<le> length (pushed q). inner (cq q) = fst (seq_run c0 (take n (pushed q)))))) \<and>
    (\<forall>a n f r. Returned a n f r \<in> set (calls s) \<longrightarrow>
      (\<exists>q c0. qsys s a = Some q \<and> births s a = Some c0 \<and> n < length (pushed q) \<and>
         closure (pushed q ! n) = f \<and> r = snd (seq_run c0 (pushed q)) ! n)) \<and>
    distinct (concat (map place (calls s))) \<and>
    (\<forall>i j a. entries (queues (tab s)) i = Some a \<and> entries (queues (tab s)) j = Some a \<longrightarrow>
       i = j \<and> a \<in> dom (qsys s))"
proof -
  note tbl = arc_table.intro [OF assms(1)]
  note inv = arc_table.full_inv_reachable [OF tbl assms(2), unfolded full_inv_def]
  then have qok: "queues_ok s" and calls: "\<forall>t \<in> set (calls s). call_ok (qsys s) (births s) t"
    and own: "owned (entries (queues (tab s))) (arcs (tab s)) (away (map strip (calls s)) (gone s))"
    by blast+
  have "arcs (tab s) a = Some (cq q) \<and> (\<exists>c0. births s a = Some c0 \<and>
      (\<exists>n \<le> length (pushed q). inner (cq q) = fst (seq_run c0 (take n (pushed q)))))"
    if q: "qsys s a = Some q" for a q
  proof -
    from qok q obtain c0 where "births s a = Some c0" "queue_reachable c0 q"
      unfolding queues_ok_def by blast
    moreover from qok q have "arcs (tab s) a = Some (cq q)"
      by (metis option.simps(9) queues_ok_def)
    ultimately show ?thesis
      using reachable_order_inv by (fastforce simp: order_inv_def)
  qed
  moreover have "\<exists>q c0. qsys s a = Some q \<and> births s a = Some c0 \<and> n < length (pushed q) \<and>
      closure (pushed q ! n) = f \<and> r = snd (seq_run c0 (pushed q)) ! n"
    if "Returned a n f r \<in> set (calls s)" for a n f r
    using bspec [OF calls that] by (auto simp: placed_def)
  moreover have "i = j \<and> a \<in> dom (qsys s)"
    if "entries (queues (tab s)) i = Some a" "entries (queues (tab s)) j = Some a" for i j a
  proof -
    from own that have "i = j" "a \<in> dom (arcs (tab s))"
      by (auto simp: owned_def dest: map_injD intro: ranI)
    moreover from qok have "dom (arcs (tab s)) = dom (qsys s)"
      unfolding queues_ok_def dom_def by (metis map_option_is_None)
    ultimately show ?thesis by simp
  qed
  ultimately show ?thesis
    using arc_table.places_reachable [OF tbl assms(2)] by blast
qed

text \<open>The context 5 is renamed to 9 while an operation on it is in flight.\<close>

definition renamed_run :: "(nat, nat, nat, nat \<rightharpoonup> nat) full_sys" where
  "renamed_run = fold (full_exec map_ops (\<lambda>c. c))
     [Call (Adding 5), Step 0, Call (WithStart 5 add_one), Step 1, Call (ChangeStart 5 9), Step 2,
      Step 1, Step 2, Turn 0, Turn 0, Step 1]
     \<lparr>tab = context_manager_new map_ops, qsys = Map.empty, births = Map.empty, calls = [], gone = []\<rparr>"

lemma renamed_run_calls:
  "calls renamed_run = [Own (AddDone (Some (Ok ()))), Returned 0 0 add_one (Some 5), Own (ChangeDone (Ok ()))]"
  "queues (tab renamed_run) = [9 \<mapsto> 0]"
  by (auto simp: renamed_run_def context_manager_new_def add_context_def change_remove_def change_insert_def
      call_step_def table_step_def set_queue_def client_push_def push_future_def queue_sys_init_def
      context_queue_new_def processor_turn_def pop_or_stop_def run_future_def add_one_def Let_def fun_eq_iff)

theorem manager_linearizable_witness:
  "calls renamed_run = [Own (AddDone (Some (Ok ()))), Returned 0 0 add_one (Some 5), Own (ChangeDone (Ok ()))] \<and>
   queues (tab renamed_run) = [9 \<mapsto> 0] \<and>
   (\<exists>q c0. qsys renamed_run 0 = Some q \<and> births renamed_run 0 = Some c0 \<and>
      Some 5 = snd (seq_run c0 (pushed q)) ! 0)"
proof -
  have "full_reachable map_ops (\<lambda>c. c) renamed_run"
    unfolding renamed_run_def
    by (rule full_run_reachable [OF map_scc.scc_hash_map_axioms full_reachable.init])
  from manager_linearizable [OF map_scc.scc_hash_map_axioms this] renamed_run_calls show ?thesis
    by auto
qed

end
