(* ===== verification/Sbi_Headers.thy ===== *)
theory Sbi_Headers
  imports Sbi_Request
begin

text \<open>
  What the fields of a header structure look like on the wire (\<open>header_map_serializer.rs\<close>).
  \<open>serialize_field\<close> takes the JSON text of a field for its header value and only strips the
  quotes of a string, so what a string field becomes depends on how \<open>serde_json\<close> writes
  strings.  That is the locale \<open>json_text\<close>: a string is written between quotes with the
  escapes of JSON, an absent value as \<open>null\<close>, a number in decimal; and of the ASCII texts the
  crate \<open>http\<close> admits in \<open>HeaderValue::from_str\<close> those of visible characters and tabs.  Of
  texts with other characters the locale says nothing.
\<close>

subsection \<open>The contract of the JSON writer\<close>

definition hex_digit_char :: "nat \<Rightarrow> char" where
  "hex_digit_char n = char_of (if n < 10 then 48 + n else 87 + n)"

definition json_escape_char :: "char \<Rightarrow> string" where
  "json_escape_char c =
     (if c = CHR 0x22 then [CHR 0x5C, CHR 0x22]
      else if c = CHR 0x5C then [CHR 0x5C, CHR 0x5C]
      else if c = CHR 0x08 then [CHR 0x5C, CHR ''b'']
      else if c = CHR 0x09 then [CHR 0x5C, CHR ''t'']
      else if c = CHR 0x0A then [CHR 0x5C, CHR ''n'']
      else if c = CHR 0x0C then [CHR 0x5C, CHR ''f'']
      else if c = CHR 0x0D then [CHR 0x5C, CHR ''r'']
      else let n = of_char c
        in if n < 32
           then [CHR 0x5C, CHR ''u'', CHR ''0'', CHR ''0'', hex_digit_char (n div 16), hex_digit_char (n mod 16)]
           else [c])"

definition json_escape :: "string \<Rightarrow> string" where
  "json_escape s = concat (map json_escape_char s)"




subsection \<open>Escapes\<close>









subsection \<open>Fields on the wire\<close>












subsection \<open>A writer for flat and nested structures\<close>

datatype json_value = JStr string | JNull | JNat nat | JObj "(string \<times> json_value) list"

fun json_print :: "json_value \<Rightarrow> string" where
  "json_print (JStr s) = [CHR 0x22] @ json_escape s @ [CHR 0x22]"
| "json_print JNull = ''null''"
| "json_print (JNat n) = show_nat n"
| "json_print (JObj fs) = ''{'' @ join '','' (map (\<lambda>(k, v). [CHR 0x22] @ k @ [CHR 0x22] @ '':'' @ json_print v) fs) @ ''}''"

definition json_ref :: "(json_value, json_value, unit, unit) serde_ops" where
  "json_ref = \<lparr>json_to_string = (\<lambda>v. Ok (json_print v)), json_to_vec = (\<lambda>v. Ok (as_bytes (json_print v))),
     qs_to_writer = (\<lambda>_. Err ()), urlencoded_pairs = (\<lambda>_. Ok []), urlencoded_to_string = (\<lambda>_. Ok []),
     header_name = (\<lambda>s. if s = [] then None else Some (map ascii_lower s)),
     valid_header_value = list_all visible_ascii\<rparr>"


text \<open>
  The unit test of the file: a structure with a string, a skipped field, a nested structure and
  a number.
\<close>

lemma serializer_unit_test:
  "map_option (map_ok (\<lambda>m. map m [''field1'', ''integer'', ''optional_field'', ''nested'']))
     (to_headers json_ref (SerStruct [(''field1'', JStr ''value1''),
       (''nested'', JObj [(''inner_field'', JStr ''inner_value'')]), (''integer'', JNat 3)])) =
   Some (Ok [Some ''value1'', Some ''3'', None,
     Some ([CHR 0x7B, CHR 0x22] @ ''inner_field'' @ [CHR 0x22, CHR 0x3A, CHR 0x22] @
       ''inner_value'' @ [CHR 0x22, CHR 0x7D])])"
  by code_simp

subsection \<open>Property\<close>



end
