(* ===== verification/Cli.thy ===== *)
theory Cli
  imports Nf_App
begin

text \<open>
  The command line (\<open>lightning-cli/src/app.rs\<close>, \<open>main.rs\<close>): the description of the commands and
  what \<open>main\<close> makes of the arguments.

  The parser is that of the third-party crate \<open>clap\<close>.  Its documented behaviour is the locale
  \<open>clap_parser\<close>: it ends the process on its own when the arguments do not fit; otherwise a
  required subcommand is present; the matches of a declared subcommand have its arguments, the
  required ones with a value; a name that is not declared gets through only when external
  subcommands are allowed, and its matches have none of the arguments of the others; and when
  they are allowed, a first argument that is no declared name, no option and not the built-in
  \<open>help\<close> does get through, whatever follows it.  Asking matches for an argument they do not have
  is a panic.
\<close>

subsection \<open>Commands\<close>

record arg_def =
  arg_id :: string
  arg_help :: string
  arg_required :: bool
  arg_value_name :: string
  arg_long :: string
  arg_short :: char

datatype command = Command
  (cmd_name: string)
  (cmd_about: string)
  (cmd_args: "arg_def list")
  (cmd_subcommand_required: bool)
  (cmd_arg_required_else_help: bool)
  (cmd_allow_external: bool)
  (cmd_subcommands: "command list")

definition get_nf_subcommand :: "string \<Rightarrow> command" where
  "get_nf_subcommand nf_name =
     (let nf_about = ''Runs '' @ nf_name @ '' network function''
      in Command nf_name nf_about
           [\<lparr>arg_id = ''config'', arg_help = ''Configuration file to use'', arg_required = True,
             arg_value_name = ''CONFIG_FILE'', arg_long = ''config'', arg_short = CHR ''c''\<rparr>]
           False False False [])"

text \<open>The version and the author of the program do not take part in parsing.\<close>

definition get_clap_app :: "string \<Rightarrow> string \<Rightarrow> command" where
  "get_clap_app name about =
     Command name about [] True True True
       [get_nf_subcommand DATAWARP_STR, get_nf_subcommand INFINISYNC_STR, get_nf_subcommand OMNIPATH_STR]"

subsection \<open>Matches\<close>

record arg_matches =
  match_ids :: "string list"
  match_values :: "string \<rightharpoonup> string"

text \<open>\<open>get_one\<close> panics on an argument that is not defined.\<close>

definition get_one :: "string \<Rightarrow> arg_matches \<Rightarrow> string option option" where
  "get_one i m = (if i \<in> set (match_ids m) then Some (match_values m i) else None)"

datatype parse_outcome = ParserExits nat | Matches "(string \<times> arg_matches) option"

text \<open>An argument that can only be the name of a subcommand.\<close>

definition external_name :: "string \<Rightarrow> bool" where
  "external_name s \<longleftrightarrow> s \<noteq> [] \<and> hd s \<noteq> CHR ''-'' \<and> s \<noteq> ''help''"

locale clap_parser =
  fixes get_matches :: "command \<Rightarrow> string list \<Rightarrow> parse_outcome"
  assumes subcommand_present:
      "cmd_subcommand_required cmd \<Longrightarrow> get_matches cmd argv = Matches s \<Longrightarrow> s \<noteq> None"
    and subcommand_declared:
      "get_matches cmd argv = Matches (Some (name, m)) \<Longrightarrow>
       find (\<lambda>s. cmd_name s = name) (cmd_subcommands cmd) = Some sub \<Longrightarrow>
       match_ids m = map arg_id (cmd_args sub) \<and>
       (\<forall>a \<in> set (cmd_args sub). arg_required a \<longrightarrow> match_values m (arg_id a) \<noteq> None)"
    and subcommand_external:
      "get_matches cmd argv = Matches (Some (name, m)) \<Longrightarrow> name \<notin> cmd_name ` set (cmd_subcommands cmd) \<Longrightarrow>
       cmd_allow_external cmd \<and> match_ids m = [[]]"
    and external_passed:
      "cmd_allow_external cmd \<Longrightarrow> cmd_args cmd = [] \<Longrightarrow> name \<notin> cmd_name ` set (cmd_subcommands cmd) \<Longrightarrow>
       external_name name \<Longrightarrow> \<exists>m. get_matches cmd (name # rest) = Matches (Some (name, m))"

subsection \<open>The main function\<close>

datatype ('io, 'y, 'e, 'r) process_end =
    ExitCode nat
  | ProcessPanics
  | ReportInstall 'r
  | Finished "(unit, ('io, 'y, 'e) app_error) result"

text \<open>
  \<open>main\<close>; \<open>install\<close> is the result of installing the error reporter, and the application itself may
  panic.
\<close>

definition main ::
  "(unit, 'r) result \<Rightarrow> (command \<Rightarrow> string list \<Rightarrow> parse_outcome) \<Rightarrow> string \<Rightarrow> string \<Rightarrow>
     ('f, 'c, 'io, 'y) os_ops \<Rightarrow> 'c nf_config_trait \<Rightarrow> ('c, 'st, 'e) nf_instance \<Rightarrow> 'st race \<Rightarrow>
     string list \<Rightarrow> ('io, 'y, 'e, 'r) process_end" where
  "main install get_matches crate_name crate_description os conf omnipath race argv =
     (case install of
        Err r \<Rightarrow> ReportInstall r
      | Ok _ \<Rightarrow>
          (case get_matches (get_clap_app crate_name crate_description) argv of
             ParserExits c \<Rightarrow> ExitCode c
           | Matches None \<Rightarrow> ProcessPanics
           | Matches (Some (nf_type, matches)) \<Rightarrow>
               (case get_one ''config'' matches of
                  Some (Some config_path) \<Rightarrow>
                    (case start_app os conf omnipath race nf_type config_path of
                       Some r \<Rightarrow> Finished r
                     | None \<Rightarrow> ProcessPanics)
                | _ \<Rightarrow> ProcessPanics)))"

subsection \<open>What the commands mean\<close>

lemma app_subcommands:
  "cmd_name ` set (cmd_subcommands (get_clap_app name about)) = set clap_subcommands"
  "sub \<in> set (cmd_subcommands (get_clap_app name about)) \<Longrightarrow>
     map arg_id (cmd_args sub) = [''config''] \<and> list_all arg_required (cmd_args sub)"
  by (auto simp: get_clap_app_def get_nf_subcommand_def clap_subcommands_def Let_def)

context clap_parser
begin

lemma config_of_declared:
  assumes "get_matches (get_clap_app name about) argv = Matches (Some (nf, m))" and "nf \<in> set clap_subcommands"
  obtains path where "get_one ''config'' m = Some (Some path)" "match_values m ''config'' = Some path"
proof -
  let ?subs = "cmd_subcommands (get_clap_app name about)"
  have "find (\<lambda>s. cmd_name s = nf) ?subs \<noteq> None"
    using assms(2) unfolding app_subcommands(1) [of name about, symmetric] find_None_iff by blast
  then obtain sub where sub: "find (\<lambda>s. cmd_name s = nf) ?subs = Some sub"
    by blast
  then have "sub \<in> set ?subs"
    by (auto simp: find_Some_iff)
  from app_subcommands(2) [OF this] obtain a where "cmd_args sub = [a]" "arg_id a = ''config''" "arg_required a"
    by auto
  with subcommand_declared [OF assms(1) sub] obtain path
    where "match_ids m = [''config'']" "match_values m ''config'' = Some path"
    by auto
  then show thesis
    by (intro that [of path]) (simp_all add: get_one_def)
qed

lemma config_of_external:
  assumes "get_matches (get_clap_app name about) argv = Matches (Some (nf, m))" and "nf \<notin> set clap_subcommands"
  shows "get_one ''config'' m = None"
proof -
  have "match_ids m = [[]]"
    using subcommand_external [OF assms(1)] assms(2) unfolding app_subcommands by blast
  then show ?thesis
    by (simp add: get_one_def)
qed

end

text \<open>
  A parser for a name and one option with its value, as an instance of the contract.
\<close>

definition parse_args :: "arg_def list \<Rightarrow> string list \<Rightarrow> arg_matches option" where
  "parse_args args rest =
     (case (args, rest) of
        ([], []) \<Rightarrow> Some \<lparr>match_ids = [], match_values = Map.empty\<rparr>
      | ([a], [flag, v]) \<Rightarrow>
          if flag = ''--'' @ arg_long a \<or> flag = [CHR ''-'', arg_short a]
          then Some \<lparr>match_ids = [arg_id a], match_values = [arg_id a \<mapsto> v]\<rparr> else None
      | _ \<Rightarrow> None)"

definition clap_ref :: "command \<Rightarrow> string list \<Rightarrow> parse_outcome" where
  "clap_ref cmd argv =
     (case argv of
        [] \<Rightarrow> if cmd_subcommand_required cmd \<or> cmd_arg_required_else_help cmd then ParserExits 2 else Matches None
      | name # rest \<Rightarrow>
          (case find (\<lambda>s. cmd_name s = name) (cmd_subcommands cmd) of
             Some sub \<Rightarrow>
               (case parse_args (cmd_args sub) rest of
                  Some m \<Rightarrow> Matches (Some (name, m))
                | None \<Rightarrow> ParserExits 2)
           | None \<Rightarrow>
               if name = ''help'' then ParserExits 0
               else if cmd_allow_external cmd
               then Matches (Some (name, \<lparr>match_ids = [[]], match_values = Map.empty\<rparr>))
               else ParserExits 2))"

lemma parse_args_sound:
  "parse_args args rest = Some m \<Longrightarrow>
     match_ids m = map arg_id args \<and> (\<forall>a \<in> set args. match_values m (arg_id a) \<noteq> None)"
  by (auto simp: parse_args_def split: list.splits if_splits)

interpretation ref_clap: clap_parser clap_ref
proof
  fix cmd argv s
  assume "cmd_subcommand_required cmd" "clap_ref cmd argv = Matches s"
  then show "s \<noteq> None"
    by (auto simp: clap_ref_def split: list.splits option.splits if_splits)
next
  fix cmd argv name m sub
  assume "clap_ref cmd argv = Matches (Some (name, m))"
    and "find (\<lambda>s. cmd_name s = name) (cmd_subcommands cmd) = Some sub"
  then show "match_ids m = map arg_id (cmd_args sub) \<and>
      (\<forall>a \<in> set (cmd_args sub). arg_required a \<longrightarrow> match_values m (arg_id a) \<noteq> None)"
    using parse_args_sound [of "cmd_args sub" "tl argv" m]
    by (auto simp: clap_ref_def split: list.splits option.splits if_splits)
next
  fix cmd argv name m
  assume "clap_ref cmd argv = Matches (Some (name, m))" "name \<notin> cmd_name ` set (cmd_subcommands cmd)"
  moreover from this(2) have "find (\<lambda>s. cmd_name s = name) (cmd_subcommands cmd) = None"
    by (auto simp: find_None_iff)
  ultimately show "cmd_allow_external cmd \<and> match_ids m = [[]]"
    by (auto simp: clap_ref_def split: list.splits if_splits option.splits)
next
  fix cmd name rest
  assume "cmd_allow_external cmd" "name \<notin> cmd_name ` set (cmd_subcommands cmd)" "external_name name"
  moreover from this(2) have "find (\<lambda>s. cmd_name s = name) (cmd_subcommands cmd) = None"
    by (auto simp: find_None_iff)
  ultimately show "\<exists>m. clap_ref cmd (name # rest) = Matches (Some (name, m))"
    by (auto simp: clap_ref_def external_name_def)
qed

lemma clap_names: "set clap_subcommands = {''datawarp'', ''infinisync'', ''omnipath''}"
  by (simp add: clap_subcommands_def DATAWARP_STR_def INFINISYNC_STR_def OMNIPATH_STR_def)

lemma main_parsed:
  assumes "clap_parser get_matches" and "install = Ok ()"
    and "get_matches (get_clap_app name about) argv = Matches s"
  shows "\<exists>nf m. s = Some (nf, m) \<and>
    (if nf = OMNIPATH_STR
     then \<exists>path. match_values m ''config'' = Some path \<and>
       main install get_matches name about os conf omnipath race argv =
         (case app_run os conf omnipath race path of Some r \<Rightarrow> Finished r | None \<Rightarrow> ProcessPanics)
     else main install get_matches name about os conf omnipath race argv = ProcessPanics)"
proof -
  have "cmd_subcommand_required (get_clap_app name about)"
    by (simp add: get_clap_app_def)
  with clap_parser.subcommand_present [OF assms(1) _ assms(3)] obtain nf m where s: "s = Some (nf, m)"
    by auto
  note parsed = assms(3) [unfolded s]
  show ?thesis
  proof (cases "nf \<in> set clap_subcommands")
    case True
    with clap_parser.config_of_declared [OF assms(1) parsed] obtain path
      where "get_one ''config'' m = Some (Some path)" "match_values m ''config'' = Some path"
      by blast
    with s assms(2) parsed show ?thesis
      by (simp add: main_def start_app_def)
  next
    case False
    then have "nf \<noteq> OMNIPATH_STR"
      by (auto simp: clap_subcommands_def)
    with clap_parser.config_of_external [OF assms(1) parsed False] s assms(2) parsed show ?thesis
      by (simp add: main_def)
  qed
qed

subsection \<open>Property\<close>

text \<open>
  C39: the command line.  When the parser lets the arguments through, they name a subcommand.  If it
  is \<open>omnipath\<close>, the configuration path is present and the process does what the AMF does with
  it; every other name panics.  Those are the two functions that are declared and not
  implemented, and, because external subcommands are allowed, every name that is not declared: a
  command line that begins with a misspelt name is never refused by the parser as an unknown
  command, but ends in a panic, whatever follows the name.
\<close>

theorem main_outcome:
  assumes "clap_parser get_matches" and "install = Ok ()"
  shows "(\<forall>s. get_matches (get_clap_app name about) argv = Matches s \<longrightarrow>
      (\<exists>nf m. s = Some (nf, m) \<and>
        (if nf = OMNIPATH_STR
         then \<exists>path. match_values m ''config'' = Some path \<and>
           main install get_matches name about os conf omnipath race argv =
             (case app_run os conf omnipath race path of Some r \<Rightarrow> Finished r | None \<Rightarrow> ProcessPanics)
         else main install get_matches name about os conf omnipath race argv = ProcessPanics))) \<and>
    (\<forall>nf rest. argv = nf # rest \<and> nf \<notin> {''datawarp'', ''infinisync'', ''omnipath''} \<and> external_name nf \<longrightarrow>
      (\<exists>m. get_matches (get_clap_app name about) argv = Matches (Some (nf, m))) \<and>
      main install get_matches name about os conf omnipath race argv = ProcessPanics)"
proof -
  have outcome: "\<exists>nf m. s = Some (nf, m) \<and>
      (if nf = OMNIPATH_STR
       then \<exists>path. match_values m ''config'' = Some path \<and>
         main install get_matches name about os conf omnipath race argv =
           (case app_run os conf omnipath race path of Some r \<Rightarrow> Finished r | None \<Rightarrow> ProcessPanics)
       else main install get_matches name about os conf omnipath race argv = ProcessPanics)"
    if "get_matches (get_clap_app name about) argv = Matches s" for s
    using main_parsed [OF assms that] .
  have "\<exists>m. get_matches (get_clap_app name about) argv = Matches (Some (nf, m))"
    if "argv = nf # rest" "nf \<notin> {''datawarp'', ''infinisync'', ''omnipath''}" "external_name nf" for nf rest
  proof -
    have "cmd_allow_external (get_clap_app name about)" "cmd_args (get_clap_app name about) = []"
      "nf \<notin> cmd_name ` set (cmd_subcommands (get_clap_app name about))"
      using that(2) unfolding app_subcommands clap_names by (simp_all add: get_clap_app_def)
    from clap_parser.external_passed [OF assms(1) this that(3)] that(1) show ?thesis by simp
  qed
  then show ?thesis
    using outcome by (fastforce simp: OMNIPATH_STR_def)
qed

definition demo_os :: "(unit, unit, unit, unit) os_ops" where
  "demo_os = \<lparr>file_open = (\<lambda>p. if p = ''amf.yaml'' then Some () else None), read_to_string = (\<lambda>_. Ok []),
     yaml_from_str = (\<lambda>_. Ok ()), multi_thread_build = Ok (), current_thread_build = Ok ()\<rparr>"

definition demo_conf :: "unit nf_config_trait" where
  "demo_conf = \<lparr>get_log_config = (\<lambda>_. logger demo_config), get_runtime_config = (\<lambda>_. runtime demo_config)\<rparr>"

definition demo_main :: "string list \<Rightarrow> (unit, unit, string, unit) process_end" where
  "demo_main argv = main (Ok ()) clap_ref ''lightning'' ''cli'' demo_os demo_conf demo_inst WorkFirst argv"

theorem main_outcome_witness:
  "demo_main [''omnipath'', ''-c'', ''amf.yaml''] =
     (case app_run demo_os demo_conf demo_inst WorkFirst ''amf.yaml'' of
        Some r \<Rightarrow> Finished r | None \<Rightarrow> ProcessPanics) \<and>
   demo_main [''omnipaht'', ''-c'', ''amf.yaml''] = ProcessPanics"
proof -
  let ?m = "\<lparr>match_ids = [''config''], match_values = [''config'' \<mapsto> ''amf.yaml'']\<rparr>"
  have ok: "clap_ref (get_clap_app ''lightning'' ''cli'') [''omnipath'', ''-c'', ''amf.yaml''] =
      Matches (Some (''omnipath'', ?m))"
    by (simp add: clap_ref_def parse_args_def get_clap_app_def get_nf_subcommand_def Let_def
        OMNIPATH_STR_def DATAWARP_STR_def INFINISYNC_STR_def)
  note outcome = main_outcome [OF ref_clap.clap_parser_axioms, of "Ok () :: (unit, unit) result" "''lightning''" "''cli''" _
      demo_os demo_conf demo_inst WorkFirst, OF refl]
  from outcome [of "[''omnipath'', ''-c'', ''amf.yaml'']"] ok
  have "demo_main [''omnipath'', ''-c'', ''amf.yaml''] =
      (case app_run demo_os demo_conf demo_inst WorkFirst ''amf.yaml'' of
         Some r \<Rightarrow> Finished r | None \<Rightarrow> ProcessPanics)"
    by (simp add: demo_main_def OMNIPATH_STR_def)
  moreover have "external_name ''omnipaht''"
    by (simp add: external_name_def)
  with outcome [of "[''omnipaht'', ''-c'', ''amf.yaml'']"]
  have "demo_main [''omnipaht'', ''-c'', ''amf.yaml''] = ProcessPanics"
    by (simp add: demo_main_def)
  ultimately show ?thesis ..
qed

end
