(* ===== verification/Monitor_Driver.thy ===== *)
theory Monitor_Driver
  imports Packet_Monitor
begin

text \<open>
  The driver of the packet monitor, \<open>tests/integration/src/main.rs\<close>: the commands it runs to clean
  up and to start the containers, the opening of the capture, and its main function.

  The commands it has run or spawned are a list, the trace; \<open>answer\<close> gives what a command answers
  after the commands before it.  The devices, the capture library and the packets are arguments.
\<close>

subsection \<open>Commands\<close>

datatype action = Ran "string list" | Spawned "string list"

record cmd_output =
  out_success :: bool
  out_stdout :: string
  out_stderr :: string

type_synonym 'e shell = "action list \<Rightarrow> string list \<Rightarrow> (cmd_output, 'e) result"

definition run_command :: "'e shell \<Rightarrow> string list \<Rightarrow> action list \<Rightarrow> (cmd_output, 'e) result \<times> action list" where
  "run_command answer cmd trace = (answer trace cmd, trace @ [Ran cmd])"

text \<open>\<open>str::contains\<close>, and \<open>str::lines\<close>: the pieces between line feeds, without a final empty one.\<close>

fun str_contains :: "string \<Rightarrow> string \<Rightarrow> bool" where
  "str_contains pat [] = (pat = [])"
| "str_contains pat (c # s) = (starts_with pat (c # s) \<or> str_contains pat s)"

fun split_lines :: "string \<Rightarrow> string \<Rightarrow> string list" where
  "split_lines acc [] = (if acc = [] then [] else [rev acc])"
| "split_lines acc (c # s) =
     (if c = CHR 0x0A
      then rev (case acc of d # acc' \<Rightarrow> if d = CHR 0x0D then acc' else acc | [] \<Rightarrow> []) # split_lines [] s
      else split_lines (c # acc) s)"

definition str_lines :: "string \<Rightarrow> string list" where
  "str_lines s = split_lines [] s"

definition remove_network :: "string \<Rightarrow> string list" where
  "remove_network network = [''docker'', ''network'', ''rm'', network]"

fun remove_networks :: "'e shell \<Rightarrow> string list \<Rightarrow> action list \<Rightarrow> action list" where
  "remove_networks answer [] trace = trace"
| "remove_networks answer (network # rest) trace =
     (if str_contains ''bridge'' network \<or> str_contains ''nf-network'' network
      then case run_command answer (remove_network network) trace of (_, trace) \<Rightarrow>
        remove_networks answer rest trace
      else remove_networks answer rest trace)"

datatype 'e driver_error =
    ComposeFileMissing
  | ComposeExecError 'e
  | ComposeFailed
  | BridgeError "'e bridge_error"
  | CaptureCreateError 'e
  | CaptureOpenError 'e
  | CaptureFilterError 'e

definition cleanup_docker_resources ::
  "'e shell \<Rightarrow> action list \<Rightarrow> (unit, 'e driver_error) result \<times> action list" where
  "cleanup_docker_resources answer trace =
     (let (_, trace) = run_command answer [''docker-compose'', ''down'', ''--remove-orphans''] trace;
          (_, trace) = run_command answer [''docker'', ''network'', ''rm'', ''omnipath_nf-network''] trace;
          (_, trace) = run_command answer [''docker'', ''network'', ''prune'', ''-f''] trace;
          (output, trace) = run_command answer
            [''docker'', ''network'', ''ls'', ''--format'', ''{{.Name}}''] trace;
          trace = (case output of
              Ok out \<Rightarrow> remove_networks answer (str_lines (out_stdout out)) trace
            | Err _ \<Rightarrow> trace)
      in (Ok (), trace))"

definition start_docker_compose ::
  "'e shell \<Rightarrow> action list \<Rightarrow> (unit, 'e driver_error) result \<times> action list" where
  "start_docker_compose answer trace =
     (case run_command answer [''docker'', ''compose'', ''up'', ''--build''] trace of
        (Err e, trace) \<Rightarrow> (Err (ComposeExecError e), trace)
      | (Ok output, trace) \<Rightarrow> (if out_success output then Ok () else Err ComposeFailed, trace))"

text \<open>The background task only prints how the command ended.\<close>

definition start_docker_compose_background :: "action list \<Rightarrow> (unit, 'e driver_error) result \<times> action list" where
  "start_docker_compose_background trace = (Ok (), trace @ [Spawned [''docker-compose'', ''up'', ''--build'']])"

subsection \<open>The capture\<close>

record ('d, 'c, 'e) pcap_ops =
  from_device :: "string \<Rightarrow> ('d, 'e) result"
  open_device :: "bool \<Rightarrow> nat \<Rightarrow> nat \<Rightarrow> 'd \<Rightarrow> ('c, 'e) result"
  set_filter :: "string \<Rightarrow> bool \<Rightarrow> 'c \<Rightarrow> ('c, 'e) result"

definition start_packet_capture ::
  "('d, 'c, 'e) pcap_ops \<Rightarrow> (nat \<Rightarrow> (string list, 'e) result) \<Rightarrow> ('c, 'e driver_error) result" where
  "start_packet_capture pcap devices =
     and_then (map_err BridgeError (find_bridge devices 0)) (\<lambda>device.
     and_then (map_err CaptureCreateError (from_device pcap device)) (\<lambda>inactive.
     and_then (map_err CaptureOpenError (open_device pcap True 65535 1000 inactive)) (\<lambda>capture.
     map_err CaptureFilterError (set_filter pcap [] True capture))))"

text \<open>
  \<open>main\<close>, with what it has printed of the packets; \<open>packets\<close> are the answers of an open capture
  before the deadline of thirty seconds.
\<close>

definition main_fn ::
  "bool \<Rightarrow> 'e shell \<Rightarrow> (action list \<Rightarrow> nat \<Rightarrow> (string list, 'e) result) \<Rightarrow> ('d, 'c, 'e) pcap_ops \<Rightarrow>
     ('c \<Rightarrow> (packet, 'e capture_error) result list) \<Rightarrow>
     (monitor, 'e driver_error) result \<times> action list" where
  "main_fn compose_file_exists answer devices pcap packets =
     (if \<not> compose_file_exists then (Err ComposeFileMissing, [])
      else case cleanup_docker_resources answer [] of
          (Err e, trace) \<Rightarrow> (Err e, trace)
        | (Ok _, trace) \<Rightarrow>
            (case start_docker_compose_background trace of
               (Err e, trace) \<Rightarrow> (Err e, trace)
             | (Ok _, trace) \<Rightarrow>
                 (map_ok (\<lambda>capture. process_filtered_packets (packets capture))
                    (start_packet_capture pcap (devices trace)), trace)))"

subsection \<open>Lemmas\<close>

definition doomed :: "string \<Rightarrow> bool" where
  "doomed network \<longleftrightarrow> str_contains ''bridge'' network \<or> str_contains ''nf-network'' network"

lemma remove_networks_eq:
  "remove_networks answer networks trace = trace @ map (Ran \<circ> remove_network) (filter doomed networks)"
  by (induction networks arbitrary: trace) (simp_all add: run_command_def doomed_def)

lemma str_contains_iff: "str_contains pat s \<longleftrightarrow> (\<exists>a b. s = a @ pat @ b)"
proof (induction s)
  case (Cons c s)
  have "starts_with pat (c # s) \<longleftrightarrow> (\<exists>b. c # s = pat @ b)"
    unfolding starts_with_def by (metis append_take_drop_id append_eq_conv_conj)
  with Cons show ?case
    by (auto simp: Cons_eq_append_conv)
qed simp

text \<open>The lines of a text, and the text of lines without line ends.\<close>

lemma split_lines_run:
  assumes "CHR 0x0A \<notin> set line"
  shows "split_lines acc (line @ s) = split_lines (rev line @ acc) s"
  using assms by (induction line arbitrary: acc) auto

lemma str_lines_join:
  assumes "\<forall>l \<in> set ls. CHR 0x0A \<notin> set l \<and> CHR 0x0D \<notin> set l"
  shows "str_lines (concat (map (\<lambda>l. l @ [CHR 0x0A]) ls)) = ls"
  using assms
proof (induction ls)
  case (Cons l ls)
  have "str_lines (l @ CHR 0x0A # s) = l # str_lines s" for s
  proof (cases "rev l")
    case (Cons d r)
    with Cons.prems have "d \<noteq> CHR 0x0D"
      by (metis list.set_intros(1) set_rev)
    with Cons Cons.prems show ?thesis
      by (simp add: str_lines_def split_lines_run) (metis rev_rev_ident rev.simps(2))
  qed (simp add: str_lines_def)
  with Cons show ?case
    by simp
qed (simp add: str_lines_def)

subsection \<open>Properties\<close>

definition cleanup_commands :: "action list" where
  "cleanup_commands = map Ran
     [[''docker-compose'', ''down'', ''--remove-orphans''],
      [''docker'', ''network'', ''rm'', ''omnipath_nf-network''],
      [''docker'', ''network'', ''prune'', ''-f''],
      [''docker'', ''network'', ''ls'', ''--format'', ''{{.Name}}'']]"

text \<open>
  Cleaning up never fails: it runs its four commands whatever they answer, and then removes, in
  order, exactly the listed networks whose name contains one of the two texts.
\<close>

theorem cleanup_outcome:
  "cleanup_docker_resources answer trace =
     (Ok (), trace @ cleanup_commands @
       (case answer (trace @ butlast cleanup_commands) [''docker'', ''network'', ''ls'', ''--format'', ''{{.Name}}''] of
          Ok out \<Rightarrow> map (Ran \<circ> remove_network) (filter doomed (str_lines (out_stdout out)))
        | Err _ \<Rightarrow> []))"
  by (simp add: cleanup_docker_resources_def run_command_def remove_networks_eq cleanup_commands_def
      Let_def split: result.splits)

text \<open>
  A run of the monitor.  Without the compose file nothing is run.  Otherwise the containers are
  started after the clean-up, once, and the run succeeds exactly when a bridge appears within the
  thirty attempts and the capture opens on it; its result are the statistics of the packets.
  Nothing is run after the start, so the containers are not stopped.
\<close>

theorem monitor_run_outcome:
  "main_fn exists answer devices pcap packets =
     (if exists
      then let trace = snd (cleanup_docker_resources answer []) @ [Spawned [''docker-compose'', ''up'', ''--build'']]
        in (map_ok (\<lambda>capture. process_filtered_packets (packets capture))
              (start_packet_capture pcap (devices trace)), trace)
      else (Err ComposeFileMissing, [])) \<and>
   (start_packet_capture pcap devs = Ok capture \<longleftrightarrow>
      (\<exists>name device inactive. find_bridge devs 0 = Ok name \<and> from_device pcap name = Ok device \<and>
         open_device pcap True 65535 1000 device = Ok inactive \<and> set_filter pcap [] True inactive = Ok capture))"
  by (auto simp: main_fn_def cleanup_outcome start_docker_compose_background_def start_packet_capture_def
      and_then_eq_Ok Let_def)

end
