(* ===== verification/Unit_Tests.thy ===== *)
theory Unit_Tests
  imports Ngap_Convert Token_Store
begin

text \<open>
  The unit tests of the repository, run on the definitions: \<open>mcc_mnc_plmnid.rs\<close>, \<open>tac.rs\<close>,
  \<open>snssai.rs\<close> and \<open>fiveg_s_tmsi.rs\<close> under \<open>utils\<close> of the AMF, and \<open>token_store.rs\<close> of the client
  crate (that of the header serialiser is in \<open>Sbi_Headers\<close>).  All of them hold of the model but
  the one of \<open>fiveg_s_tmsi.rs\<close>: with bit vectors that begin at the first bit of their storage, as
  those of \<open>bitvec_ref\<close> do, the code produces another text than the test expects.
\<close>

subsection \<open>Conversions\<close>

lemma test_mcc_mnc_to_plmn_id_interconversion:
  "convert_mcc_mnc_to_plmn_id ''208'' ''93'' = Some (0x02, 0xF8, 0x39)"
  "convert_plmn_id_to_mcc_mnc (0x02, 0xF8, 0x39) = Ok \<lparr>mcc = ''208'', mnc = ''93''\<rparr>"
  "convert_mcc_mnc_to_plmn_id ''234'' ''15'' = Some (0x32, 0xF4, 0x51)"
  "convert_plmn_id_to_mcc_mnc (0x32, 0xF4, 0x51) = Ok \<lparr>mcc = ''234'', mnc = ''15''\<rparr>"
  "convert_mcc_mnc_to_plmn_id ''001'' ''001'' = Some (0x00, 0x01, 0x10)"
  "convert_plmn_id_to_mcc_mnc (0x00, 0x01, 0x10) = Ok \<lparr>mcc = ''001'', mnc = ''001''\<rparr>"
  by code_simp+

lemma test_ngap_to_sbi_tac_conversion:
  "convert_ngap_tac_to_sbi_tac hex_ref (0x12, 0x34, 0x56) = ''123456''"
  "convert_sbi_tac_to_ngap_tac hex_ref ''123456'' = Some (0x12, 0x34, 0x56)"
  "convert_ngap_tac_to_sbi_tac hex_ref (0, 0, 0) = ''000000''"
  "convert_sbi_tac_to_ngap_tac hex_ref ''000000'' = Some (0, 0, 0)"
  "convert_ngap_tac_to_sbi_tac hex_ref (0xFF, 0xFF, 0xFF) = ''ffffff''"
  "convert_sbi_tac_to_ngap_tac hex_ref ''ffffff'' = Some (0xFF, 0xFF, 0xFF)"
  by code_simp+

lemma test_snssai_conversions:
  "convert_ngap_snssai_to_sbi_snssai hex_ref \<lparr>ngap_sst = 1, ngap_sd = None\<rparr> = \<lparr>sst = 1, sd = None\<rparr>"
  "convert_sbi_snssai_to_ngap_snssai hex_ref \<lparr>sst = 1, sd = None\<rparr> = Some \<lparr>ngap_sst = 1, ngap_sd = None\<rparr>"
  "convert_ngap_snssai_to_sbi_snssai hex_ref \<lparr>ngap_sst = 2, ngap_sd = Some (0xAB, 0xCD, 0xEF)\<rparr> =
     \<lparr>sst = 2, sd = Some ''abcdef''\<rparr>"
  "convert_sbi_snssai_to_ngap_snssai hex_ref \<lparr>sst = 2, sd = Some ''abcdef''\<rparr> =
     Some \<lparr>ngap_sst = 2, ngap_sd = Some (0xAB, 0xCD, 0xEF)\<rparr>"
  "convert_ngap_snssai_to_sbi_snssai hex_ref \<lparr>ngap_sst = 0, ngap_sd = Some (0, 0, 0)\<rparr> =
     \<lparr>sst = 0, sd = Some ''000000''\<rparr>"
  "convert_sbi_snssai_to_ngap_snssai hex_ref \<lparr>sst = 0, sd = Some ''000000''\<rparr> =
     Some \<lparr>ngap_sst = 0, ngap_sd = Some (0, 0, 0)\<rparr>"
  "convert_ngap_snssai_to_sbi_snssai hex_ref \<lparr>ngap_sst = 255, ngap_sd = Some (0xFF, 0xFF, 0xFF)\<rparr> =
     \<lparr>sst = 255, sd = Some ''ffffff''\<rparr>"
  "convert_sbi_snssai_to_ngap_snssai hex_ref \<lparr>sst = 255, sd = Some ''ffffff''\<rparr> =
     Some \<lparr>ngap_sst = 255, ngap_sd = Some (0xFF, 0xFF, 0xFF)\<rparr>"
  by code_simp+

text \<open>
  The test of the 5G-S-TMSI expects \<open>5aaa12345678\<close>.  The crate does not fix where a vector begins
  in its storage; on storage that begins with the first bit the octets \<open>80\<close> and \<open>a8\<close> are overlaid.
\<close>

lemma test_ngap_five_g_tmsi_conversion_aligned:
  "from_ngap_five_g_s_tmsi hex_ref bitvec_ref \<lparr>
     tmsi_amf_set_id = [False, True, False, True, True, False, True, False, True, False],
     tmsi_amf_pointer = [True, False, True, False, True, False],
     five_g_tmsi = (0x12, 0x34, 0x56, 0x78)\<rparr> = Some ''5aa812345678''"
  by code_simp

subsection \<open>The token store\<close>

lemma test_token_state:
  "is_ready (fst (new_ready v c)) \<and> \<not> is_updating (fst (new_ready v c))"
  "is_updating (fst (token_state_new n c)) \<and> \<not> is_ready (fst (token_state_new n c))"
  by (simp_all add: new_ready_def token_state_new_def is_ready_def is_updating_def increment_def)

text \<open>A store with one key, after \<open>set\<close> with the given outcome of the future.\<close>

definition test_store :: "(nat, string) result \<Rightarrow> string \<rightharpoonup> nat token_state" where
  "test_store future =
     snd (snd (token_set map_ops ''test_key'' future 0 counter_new (token_store_new map_ops)))"

lemma test_token_store_get_and_set:
  "\<exists>entry. (token_get map_ops ''test_key'' (\<lambda>_. test_store (Ok 123)) :: (nat, string) get_result) = Ok (Some entry) \<and>
     token_entry_get entry = Some 123"
  by (simp add: test_store_def token_get_def get_loop_done get_turn_def token_set_def set_check_def
      token_state_new_def set_complete_def set_update_def increment_def Let_def)

text \<open>
  A reader that waits for a writer at work is given the token when the future of the writer
  completes; the reader may have waited before, but not nine times.
\<close>

lemma test_token_store_updating:
  fixes v :: 'v
  assumes "scc_hash_map ops entries" and "entries (store_map s) key = Some old" and "i < 9"
    and "tasks s = [SetAwaiting key j n, Parked key i n]"
  shows "\<exists>t e. (store_step ops)\<^sup>*\<^sup>* s t \<and> tasks t = [SetDone (Ok e), GetDone (Ok (Some e))] \<and>
    token_entry_get e = Some v"
proof -
  let ?st = "\<lparr>token_id = j, token_inner = TokenReady v\<rparr>"
  let ?m = "set_update ops key ?st (store_map s)"
  let ?a = "s\<lparr>store_map := ?m, tasks := [SetNotifying n (Ok (TokenEntry ?st)), Parked key i n]\<rparr>"
  let ?b = "s\<lparr>store_map := ?m, tasks := [SetDone (Ok (TokenEntry ?st)), Reading key (Suc i)]\<rparr>"
  let ?c = "s\<lparr>store_map := ?m, tasks := [SetDone (Ok (TokenEntry ?st)), GetDone (Ok (Some (TokenEntry ?st)))]\<rparr>"
  have stored: "entries ?m key = Some ?st"
    using assms(2) by (simp add: set_update_def scc_hash_map.entries_update [OF assms(1)])
  have "store_step ops s ?a"
    using store_step.complete [of s "[]" key j n "[Parked key i n]" "Ok v" ?st "Ok (TokenEntry ?st)" ops] assms(4)
    by (simp add: set_complete_def Let_def)
  moreover have "store_step ops ?a ?b"
    using store_step_notify [of ?a "[]" n "Ok (TokenEntry ?st)" "[Parked key i n]" ops] by simp
  moreover have "store_step ops ?b ?c"
    using store_step_read [of ?b "[SetDone (Ok (TokenEntry ?st))]" key "Suc i" "[]" ops] assms(3) stored
    by (simp add: read_next_def get_turn_def scc_hash_map.read_eq [OF assms(1)])
  ultimately have "(store_step ops)\<^sup>*\<^sup>* s ?c"
    by (meson converse_rtranclp_into_rtranclp rtranclp.rtrancl_refl)
  then show ?thesis
    by (intro exI [where x = ?c] exI [where x = "TokenEntry ?st"]) simp
qed

lemma test_token_store_failed:
  "\<exists>i. (token_get map_ops ''test_key'' (\<lambda>_. test_store (Err ''read error'')) :: (nat, string) get_result) =
     Err (StoreReadError i)"
  by (simp add: test_store_def token_get_def get_loop_done get_turn_def token_set_def set_check_def
      token_state_new_def set_complete_def set_update_def increment_def Let_def)

end
