(* ===== verification/Token_Requests.thy ===== *)
theory Token_Requests
  imports Nrf_Client
begin

text \<open>
  Concurrent calls of \<open>NrfClient::get_token\<close> (\<open>utils/client/src/nrf_client.rs\<close>).  Any
  number of tasks of the process share one client; each call reads the token store, and asks
  the NRF through the store when it read nothing.  The store is the transition system of
  \<open>Token_Store\<close>; here its tasks belong to callers and its futures are the requests of
  \<open>authentication_request\<close>.

  The steps are split: \<open>serve_step\<close> has those that work on the calls made so far, and
  \<open>token_step\<close> adds those of the environment, which calls, changes the configuration and uses
  the network.  The log of the requests that were answered is a history variable: nothing reads
  it.
\<close>

type_synonym ('p, 'te, 'e, 'm) token_store_sys =
  "(service_name list, access_token_rsp, ('p, 'te, 'e) nrf_authorization_error, 'm) store_sys"

type_synonym ('p, 'te, 'e) token_answer =
  "(access_token_rsp token_entry, ('p, 'te, 'e) nrf_authorization_error) result"

text \<open>
  A call of \<open>get_token\<close> waits for \<open>get\<close>, then for \<open>set\<close>, then has returned; the number is
  that of its task in the store.  The instance identifier is loaded when \<open>set\<close> is called.
\<close>

datatype ('n, 'p, 'te, 'e) token_caller =
    InGet nf_type "service_name list" nat
  | InSet nf_type 'n "service_name list" nat
  | TokenDone nf_type "service_name list" "('p, 'te, 'e) token_answer"

record ('n, 'u, 'p, 'te, 'e, 'm, 'net) token_sys =
  tk_init :: "'u init_config"
  tk_nf_id :: 'n
  tk_store :: "('p, 'te, 'e, 'm) token_store_sys"
  tk_callers :: "('n, 'p, 'te, 'e) token_caller list"
  tk_net :: 'net
  tk_log :: "(nf_type \<times> 'n \<times> service_name list \<times> (access_token_rsp, ('p, 'te, 'e) nrf_authorization_error) result) list"

text \<open>What \<open>get_token\<close> does with the result of \<open>get\<close>: it returns, or it calls \<open>set\<close>.\<close>

definition get_returned ::
  "nf_type \<Rightarrow> 'n \<Rightarrow> service_name list \<Rightarrow>
     (access_token_rsp, ('p, 'te, 'e) nrf_authorization_error) get_result \<Rightarrow>
     ('p, 'te, 'e, 'm) token_store_sys \<Rightarrow>
     ('n, 'p, 'te, 'e) token_caller \<times> ('p, 'te, 'e, 'm) token_store_sys" where
  "get_returned target inst names r st =
     (case r of
        Err e \<Rightarrow> (TokenDone target names (Err (TokenStoreError e)), st)
      | Ok (Some entry) \<Rightarrow> (TokenDone target names (Ok entry), st)
      | Ok None \<Rightarrow>
          (InSet target inst names (length (tasks st)), st\<lparr>tasks := tasks st @ [SetStarted names]\<rparr>))"

inductive serve_step ::
  "('n, 'u, 'prof, 'v, 'q, 's, 'p, 'te, 'e, 'resp, 'net) nrf_env \<Rightarrow>
     (service_name list, access_token_rsp token_state, 'm) scc_ops \<Rightarrow>
     ('n, 'u, 'p, 'te, 'e, 'm, 'net) token_sys \<Rightarrow> ('n, 'u, 'p, 'te, 'e, 'm, 'net) token_sys \<Rightarrow> bool"
  for env ops where
  store: "store_task_step ops (tk_store s) st \<Longrightarrow> serve_step env ops s (s\<lparr>tk_store := st\<rparr>)"
| got: "\<lbrakk>tk_callers s = cs @ InGet target names p # cs';
      p < length (tasks (tk_store s)); tasks (tk_store s) ! p = GetDone r;
      get_returned target (tk_nf_id s) names r (tk_store s) = (c, st)\<rbrakk> \<Longrightarrow>
    serve_step env ops s (s\<lparr>tk_store := st, tk_callers := cs @ c # cs'\<rparr>)"
| answered: "\<lbrakk>InSet target inst names (length ts) \<in> set (tk_callers s);
      tasks (tk_store s) = ts @ SetAwaiting key i n # ts';
      authentication_request env (init_url (tk_init s)) inst (init_source (tk_init s)) target names
        (tk_net s) = Some (fut, net);
      set_complete i fut = (st, r)\<rbrakk> \<Longrightarrow>
    serve_step env ops s (s\<lparr>
      tk_store := (tk_store s)\<lparr>store_map := set_update ops key st (store_map (tk_store s)),
        tasks := ts @ SetNotifying n r # ts'\<rparr>,
      tk_net := net, tk_log := tk_log s @ [(target, inst, names, fut)]\<rparr>)"
| returned: "\<lbrakk>tk_callers s = cs @ InSet target inst names p # cs';
      p < length (tasks (tk_store s)); tasks (tk_store s) ! p = SetDone r\<rbrakk> \<Longrightarrow>
    serve_step env ops s (s\<lparr>tk_callers := cs @ TokenDone target names (map_err TokenStoreError r) # cs'\<rparr>)"

inductive token_step ::
  "('n, 'u, 'prof, 'v, 'q, 's, 'p, 'te, 'e, 'resp, 'net) nrf_env \<Rightarrow>
     (service_name list, access_token_rsp token_state, 'm) scc_ops \<Rightarrow>
     ('n, 'u, 'p, 'te, 'e, 'm, 'net) token_sys \<Rightarrow> ('n, 'u, 'p, 'te, 'e, 'm, 'net) token_sys \<Rightarrow> bool"
  for env ops where
  serve: "serve_step env ops s t \<Longrightarrow> token_step env ops s t"
| call: "token_step env ops s (s\<lparr>
      tk_store := (tk_store s)\<lparr>tasks := tasks (tk_store s) @ [Reading names 1]\<rparr>,
      tk_callers := tk_callers s @ [InGet target names (length (tasks (tk_store s)))]\<rparr>)"
| configured: "token_step env ops s (s\<lparr>tk_nf_id := inst\<rparr>)"
| network: "token_step env ops s (s\<lparr>tk_net := net\<rparr>)"

text \<open>The client begins as \<open>nrf_client_new\<close> makes it.\<close>

definition token_sys_new ::
  "(service_name list, access_token_rsp token_state, 'm) scc_ops \<Rightarrow> 'n \<Rightarrow> 'u init_config \<Rightarrow> 'net \<Rightarrow>
     ('n, 'u, 'p, 'te, 'e, 'm, 'net) token_sys" where
  "token_sys_new ops inst cfg net =
     \<lparr>tk_init = cfg, tk_nf_id = inst,
      tk_store = \<lparr>store_map = token_store_new ops, store_counter = counter_new, next_notify = 0, tasks = []\<rparr>,
      tk_callers = [], tk_net = net, tk_log = []\<rparr>"

inductive token_reachable ::
  "('n, 'u, 'prof, 'v, 'q, 's, 'p, 'te, 'e, 'resp, 'net) nrf_env \<Rightarrow>
     (service_name list, access_token_rsp token_state, 'm) scc_ops \<Rightarrow>
     ('n, 'u, 'p, 'te, 'e, 'm, 'net) token_sys \<Rightarrow> bool"
  for env ops where
  init: "token_reachable env ops (token_sys_new ops inst cfg net)"
| step: "token_reachable env ops s \<Longrightarrow> token_step env ops s t \<Longrightarrow> token_reachable env ops t"

fun caller_names :: "('n, 'p, 'te, 'e) token_caller \<Rightarrow> service_name list" where
  "caller_names (InGet _ names _) = names"
| "caller_names (InSet _ _ names _) = names"
| "caller_names (TokenDone _ names _) = names"

fun caller_task :: "('n, 'p, 'te, 'e) token_caller \<Rightarrow> nat option" where
  "caller_task (InGet _ _ p) = Some p"
| "caller_task (InSet _ _ _ p) = Some p"
| "caller_task (TokenDone _ _ _) = None"

subsection \<open>The store of the system\<close>

lemma get_returned_store:
  "get_returned target inst names r st = (c, st') \<Longrightarrow> st' = st \<or> store_step ops st st'"
  by (auto simp: get_returned_def store_step.start_set split: result.splits option.splits)

lemma token_step_store:
  assumes "token_step env ops s t"
  shows "tk_store t = tk_store s \<or> store_step ops (tk_store s) (tk_store t)"
  using assms
proof cases
  case serve
  then show ?thesis
  proof cases
    case (got cs target names p cs' r c st)
    with get_returned_store [OF got(5), of ops] show ?thesis by auto
  next
    case (answered target inst names ts key i n ts' fut net st r)
    with store_step.complete [OF answered(3) answered(5), of ops] show ?thesis by simp
  qed (auto intro: store_step.task)
qed (auto intro: store_step.start_get simp del: One_nat_def)

lemma token_reachable_store: "token_reachable env ops s \<Longrightarrow> store_reachable ops (tk_store s)"
proof (induction rule: token_reachable.induct)
  case (init inst cfg net)
  show ?case
    by (simp add: token_sys_new_def store_reachable.init [of ops, simplified])
next
  case (step s t)
  with token_step_store [OF step.hyps(2)] show ?case
    by (auto intro: store_reachable.step)
qed

subsection \<open>One task of the store\<close>

text \<open>How a step of the store moves each of its tasks, whichever task it was made for.\<close>

inductive task_move ::
  "('k, 'v token_state, 'm) scc_ops \<Rightarrow> 'm \<Rightarrow> ('k, 'v, 'e) store_task \<Rightarrow> ('k, 'v, 'e) store_task \<Rightarrow> bool"
  for ops m where
  same: "task_move ops m t t"
| woken: "task_move ops m (Parked key i n) (Reading key (Suc i))"
| read: "task_move ops m (Reading key i) (read_next ops key i m)"
| park: "task_move ops m (HasRead key i n) (Parked key i n)"
| create: "task_move ops m (SetStarted key) (SetChecking key i n)"
| check: "task_move ops m (SetChecking key i n) (check_next ops key i n m)"
| upsert: "task_move ops m (SetUpserting key i n) (SetAwaiting key i n)"
| notify: "task_move ops m (SetNotifying n r) (SetDone r)"

lemma wake_move: "task_move ops m t (wake n t)"
  by (cases t) (auto intro: task_move.intros)

lemma moves_at:
  assumes "task_move ops m x y" and "\<And>t. task_move ops m t (f t)" and "p < Suc (length ts + length ts')"
  shows "task_move ops m ((ts @ x # ts') ! p) ((map f ts @ y # map f ts') ! p)"
  using assms by (auto simp: nth_append nth_Cons split: nat.splits)

lemma moves_here:
  assumes "task_move ops m x y" and "p < Suc (length ts + length ts')"
  shows "task_move ops m ((ts @ x # ts') ! p) ((ts @ y # ts') ! p)"
  using moves_at [OF assms(1) _ assms(2), of "\<lambda>t. t"] by (simp add: task_move.same)

lemma store_task_step_moves:
  assumes "store_task_step ops s t"
  shows "length (tasks t) = length (tasks s) \<and>
    (\<forall>p < length (tasks s). task_move ops (store_map s) (tasks s ! p) (tasks t ! p))"
  using assms
proof cases
  case (create ts key ts' u c)
  then obtain i where "u = SetChecking key i (next_notify s)"
    by (auto simp: create_next_def split_beta)
  with create show ?thesis
    by (simp add: moves_here task_move.create)
qed (simp_all add: moves_here moves_at wake_move task_move.intros)

lemma task_step_entries:
  assumes "scc_hash_map ops entries" and "store_task_step ops s t"
    and "entries (store_map t) k = Some u"
  shows "entries (store_map s) k = Some u \<or> is_updating u"
  using assms(2,3)
  by cases (auto simp: scc_hash_map.entries_upsert [OF assms(1)] is_updating_def split: if_splits)

subsection \<open>The invariant\<close>

text \<open>What the NRF has answered for some names.\<close>

definition granted ::
  "('n, 'u, 'p, 'te, 'e, 'm, 'net) token_sys \<Rightarrow> service_name list \<Rightarrow> access_token_rsp \<Rightarrow> bool" where
  "granted s names rsp \<longleftrightarrow> (\<exists>target inst. (target, inst, names, Ok rsp) \<in> set (tk_log s))"

definition denied ::
  "('n, 'u, 'p, 'te, 'e, 'm, 'net) token_sys \<Rightarrow> service_name list \<Rightarrow> ('p, 'te, 'e) nrf_authorization_error \<Rightarrow> bool" where
  "denied s names err \<longleftrightarrow> (\<exists>target inst. (target, inst, names, Err err) \<in> set (tk_log s))"

definition state_justified ::
  "('n, 'u, 'p, 'te, 'e, 'm, 'net) token_sys \<Rightarrow> service_name list \<Rightarrow> access_token_rsp token_state \<Rightarrow> bool" where
  "state_justified s names t = (case token_inner t of
     TokenReady rsp \<Rightarrow> granted s names rsp
   | Failed \<Rightarrow> \<exists>err. denied s names err
   | Updating _ \<Rightarrow> True)"

definition entry_justified ::
  "('n, 'u, 'p, 'te, 'e, 'm, 'net) token_sys \<Rightarrow> service_name list \<Rightarrow> access_token_rsp token_entry \<Rightarrow> bool" where
  "entry_justified s names e \<longleftrightarrow> (\<exists>rsp. token_entry_get e = Some rsp \<and> granted s names rsp)"

fun error_justified ::
  "('n, 'u, 'p, 'te, 'e, 'm, 'net) token_sys \<Rightarrow> nat \<Rightarrow> service_name list \<Rightarrow>
     ('p, 'te, 'e) nrf_authorization_error store_error \<Rightarrow> bool" where
  "error_justified s c names (StoreReadError _) = (\<exists>err. denied s names err)"
| "error_justified s c names (InnerFutureError err) = denied s names err"
| "error_justified s c names (UpdateAlreadyInProgress _) = True"
| "error_justified s c names _ = False"

text \<open>The tasks that the caller \<open>c\<close>, which asked for \<open>names\<close>, can have in \<open>get\<close> and in \<open>set\<close>.\<close>

fun get_task ::
  "('n, 'u, 'p, 'te, 'e, 'm, 'net) token_sys \<Rightarrow> nat \<Rightarrow> service_name list \<Rightarrow>
     (service_name list, access_token_rsp, ('p, 'te, 'e) nrf_authorization_error) store_task \<Rightarrow> bool" where
  "get_task s c names (Reading key _) = (key = names)"
| "get_task s c names (HasRead key _ _) = (key = names)"
| "get_task s c names (Parked key _ _) = (key = names)"
| "get_task s c names (GetDone (Ok None)) = True"
| "get_task s c names (GetDone (Ok (Some e))) = entry_justified s names e"
| "get_task s c names (GetDone (Err e)) = error_justified s c names e"
| "get_task s c names _ = False"

fun set_task ::
  "('n, 'u, 'p, 'te, 'e, 'm, 'net) token_sys \<Rightarrow> nat \<Rightarrow> service_name list \<Rightarrow>
     (service_name list, access_token_rsp, ('p, 'te, 'e) nrf_authorization_error) store_task \<Rightarrow> bool" where
  "set_task s c names (SetStarted key) = (key = names)"
| "set_task s c names (SetChecking key _ _) = (key = names)"
| "set_task s c names (SetUpserting key _ _) = (key = names)"
| "set_task s c names (SetAwaiting key _ _) = (key = names)"
| "set_task s c names (SetNotifying _ (Ok e)) = entry_justified s names e"
| "set_task s c names (SetNotifying _ (Err e)) = error_justified s c names e"
| "set_task s c names (SetDone (Ok e)) = entry_justified s names e"
| "set_task s c names (SetDone (Err e)) = error_justified s c names e"
| "set_task s c names _ = False"

fun caller_justified ::
  "('n, 'u, 'p, 'te, 'e, 'm, 'net) token_sys \<Rightarrow> nat \<Rightarrow> ('n, 'p, 'te, 'e) token_caller \<Rightarrow> bool" where
  "caller_justified s c (InGet _ names p) \<longleftrightarrow>
     p < length (tasks (tk_store s)) \<and> get_task s c names (tasks (tk_store s) ! p)"
| "caller_justified s c (InSet _ _ names p) \<longleftrightarrow>
     p < length (tasks (tk_store s)) \<and> set_task s c names (tasks (tk_store s) ! p)"
| "caller_justified s c (TokenDone _ names (Ok e)) = entry_justified s names e"
| "caller_justified s c (TokenDone _ names (Err (TokenStoreError e))) = error_justified s c names e"
| "caller_justified s c (TokenDone _ names (Err _)) = False"

fun task_done :: "('k, 'v, 'e) store_task \<Rightarrow> bool" where
  "task_done (GetDone _) = True"
| "task_done (SetDone _) = True"
| "task_done _ = False"

definition token_inv ::
  "('m \<Rightarrow> service_name list \<Rightarrow> access_token_rsp token_state option) \<Rightarrow>
     ('n, 'u, 'p, 'te, 'e, 'm, 'net) token_sys \<Rightarrow> bool" where
  "token_inv entries s \<longleftrightarrow>
     (\<forall>k t. entries (store_map (tk_store s)) k = Some t \<longrightarrow> state_justified s k t) \<and>
     (\<forall>c < length (tk_callers s). caller_justified s c (tk_callers s ! c)) \<and>
     (\<forall>p < length (tasks (tk_store s)). \<not> task_done (tasks (tk_store s) ! p) \<longrightarrow>
        (\<exists>c < length (tk_callers s). caller_task (tk_callers s ! c) = Some p))"

text \<open>What justifies an answer stays: the log and the callers only grow.\<close>

definition grows ::
  "('n, 'u, 'p, 'te, 'e, 'm, 'net) token_sys \<Rightarrow> ('n, 'u, 'p, 'te, 'e, 'm, 'net) token_sys \<Rightarrow> bool" where
  "grows s t \<longleftrightarrow> set (tk_log s) \<subseteq> set (tk_log t) \<and> length (tk_callers s) \<le> length (tk_callers t) \<and>
     (\<forall>c < length (tk_callers s). caller_names (tk_callers t ! c) = caller_names (tk_callers s ! c))"

lemma grows_granted: "grows s t \<Longrightarrow> granted s names rsp \<Longrightarrow> granted t names rsp"
  by (auto simp: grows_def granted_def)

lemma grows_denied: "grows s t \<Longrightarrow> denied s names err \<Longrightarrow> denied t names err"
  by (auto simp: grows_def denied_def)

lemma grows_state: "grows s t \<Longrightarrow> state_justified s names u \<Longrightarrow> state_justified t names u"
  by (cases "token_inner u") (auto simp: state_justified_def dest: grows_granted grows_denied)

lemma grows_entry: "grows s t \<Longrightarrow> entry_justified s names e \<Longrightarrow> entry_justified t names e"
  by (auto simp: entry_justified_def grows_granted)

lemma grows_error: "grows s t \<Longrightarrow> error_justified s c names e \<Longrightarrow> error_justified t c names e"
  by (cases e) (auto intro: grows_denied)

lemmas grows_justified = grows_entry grows_error

lemma grows_get: "grows s t \<Longrightarrow> get_task s c names u \<Longrightarrow> get_task t c names u"
  by (induction s c names u rule: get_task.induct) (auto intro: grows_justified)

lemma grows_set: "grows s t \<Longrightarrow> set_task s c names u \<Longrightarrow> set_task t c names u"
  by (induction s c names u rule: set_task.induct) (auto intro: grows_justified)

lemma grows_tasks:
  "\<lbrakk>grows s t; p < length (tasks (tk_store s)); p < length (tasks (tk_store t));
    tasks (tk_store t) ! p = tasks (tk_store s) ! p; caller_justified s c u; caller_task u = Some p\<rbrakk> \<Longrightarrow>
   caller_justified t c u"
  by (cases u) (auto intro: grows_get grows_set)

lemma grows_done:
  "grows s t \<Longrightarrow> caller_justified s c u \<Longrightarrow> caller_task u = None \<Longrightarrow> caller_justified t c u"
  by (induction s c u rule: caller_justified.induct) (auto intro: grows_justified)

text \<open>What a reader and a writer find in the map is justified.\<close>

lemma read_next_justified:
  assumes "scc_hash_map ops entries" and "token_inv entries s"
  shows "get_task s c names (read_next ops names i (store_map (tk_store s)))"
proof -
  from assms(2) have "state_justified s names t" if "entries (store_map (tk_store s)) names = Some t" for t
    using that by (auto simp: token_inv_def)
  then show ?thesis
    by (auto simp: read_next_def get_turn_def scc_hash_map.read_eq [OF assms(1)] state_justified_def
        entry_justified_def split: option.splits token_state_inner.splits)
qed

lemma caller_of_task:
  assumes "token_inv entries s" and "SetAwaiting key i n \<in> set (tasks (tk_store s))"
  obtains p c where "tasks (tk_store s) ! p = SetAwaiting key i n" "p < length (tasks (tk_store s))"
    "c < length (tk_callers s)" "caller_task (tk_callers s ! c) = Some p" "caller_names (tk_callers s ! c) = key"
proof -
  from assms(2) obtain p where p: "p < length (tasks (tk_store s))" "tasks (tk_store s) ! p = SetAwaiting key i n"
    by (metis in_set_conv_nth)
  then have "\<not> task_done (tasks (tk_store s) ! p)"
    by simp
  with assms(1) p obtain c where c: "c < length (tk_callers s)" "caller_task (tk_callers s ! c) = Some p"
    by (auto simp: token_inv_def)
  with assms(1) have "caller_justified s c (tk_callers s ! c)"
    by (simp add: token_inv_def)
  with c(2) p(2) have "caller_names (tk_callers s ! c) = key"
    by (cases "tk_callers s ! c") auto
  with that p c show thesis by blast
qed

lemma is_updating_iff: "is_updating t \<longleftrightarrow> (\<exists>n. token_inner t = Updating n)"
  by (cases "token_inner t") (simp_all add: is_updating_def)

lemma check_next_justified: "set_task s c names (check_next ops names i n m)"
  by (auto simp: check_next_def set_check_def split: option.splits if_splits)

lemma get_task_move:
  assumes "task_move ops (store_map (tk_store s)) x y" and "get_task s c names x"
    and "scc_hash_map ops entries" and "token_inv entries s"
  shows "get_task s c names y"
  using assms(1,2) by cases (auto intro: read_next_justified [OF assms(3,4)])

lemma set_task_move:
  assumes "task_move ops (store_map (tk_store s)) (tasks (tk_store s) ! p) y"
    and "set_task s c names (tasks (tk_store s) ! p)"
  shows "set_task s c names y"
  using assms(1)
proof cases
  case (check key i n)
  with assms(2) have "key = names" by simp
  with check check_next_justified [of s c names] show ?thesis by simp
next
  case (notify n r)
  with assms(2) show ?thesis by (cases r) auto
qed (use assms(2) in auto)

lemma done_move: "task_move ops m x y \<Longrightarrow> task_done x \<Longrightarrow> task_done y"
  by (induction rule: task_move.induct) auto

text \<open>The invariant is kept by a step of the store, by an answer of the NRF, and by the callers.\<close>

lemma token_inv_store:
  assumes scc: "scc_hash_map ops entries" and inv: "token_inv entries s"
    and step: "store_task_step ops (tk_store s) st"
  shows "token_inv entries (s\<lparr>tk_store := st\<rparr>)"
proof -
  let ?t = "s\<lparr>tk_store := st\<rparr>"
  have grows: "grows s ?t"
    by (simp add: grows_def)
  from store_task_step_moves [OF step] have len: "length (tasks st) = length (tasks (tk_store s))"
    and move: "\<And>p. p < length (tasks (tk_store s)) \<Longrightarrow>
      task_move ops (store_map (tk_store s)) (tasks (tk_store s) ! p) (tasks st ! p)"
    by auto
  have "state_justified ?t k u" if "entries (store_map st) k = Some u" for k u
    using task_step_entries [OF scc step that] inv grows_state [OF grows]
    by (auto simp: token_inv_def is_updating_iff state_justified_def [of ?t])
  moreover have "caller_justified ?t c (tk_callers s ! c)" if "c < length (tk_callers s)" for c
  proof -
    from that inv have just: "caller_justified s c (tk_callers s ! c)"
      by (simp add: token_inv_def)
    show ?thesis
    proof (cases "tk_callers s ! c")
      case (InGet target names p)
      with just len get_task_move [OF move _ scc inv, of p c names] grows_get [OF grows] show ?thesis
        by simp
    next
      case (InSet target inst names p)
      with just len set_task_move [OF move, of p c names] grows_set [OF grows] show ?thesis
        by simp
    next
      case (TokenDone target names r)
      with just show ?thesis
        using grows_done [OF grows, of c "tk_callers s ! c"] by simp
    qed
  qed
  moreover have "\<not> task_done (tasks (tk_store s) ! p)"
    if "p < length (tasks (tk_store s))" "\<not> task_done (tasks st ! p)" for p
    using done_move [OF move [OF that(1)]] that(2) by blast
  ultimately show ?thesis
    using inv len by (simp add: token_inv_def)
qed

lemma answer_justified:
  assumes "set_complete i fut = (st, r)" and "(target, inst, names, fut) \<in> set (tk_log s)"
  shows "state_justified s names st \<and> set_task s c names (SetNotifying n r)"
proof (cases fut)
  case (Ok rsp)
  with assms have "granted s names rsp"
    unfolding granted_def by blast
  with assms Ok show ?thesis
    by (auto simp: set_complete_def Let_def state_justified_def entry_justified_def)
next
  case (Err err)
  with assms have "denied s names err"
    unfolding denied_def by blast
  with assms Err show ?thesis
    by (auto simp: set_complete_def Let_def state_justified_def)
qed

lemma token_inv_answered:
  assumes scc: "scc_hash_map ops entries" and inv: "token_inv entries s"
    and caller: "InSet target inst names (length ts) \<in> set (tk_callers s)"
    and tasks: "tasks (tk_store s) = ts @ SetAwaiting key i n # ts'"
    and complete: "set_complete i fut = (st, r)"
  shows "token_inv entries (s\<lparr>
      tk_store := (tk_store s)\<lparr>store_map := set_update ops key st (store_map (tk_store s)),
        tasks := ts @ SetNotifying n r # ts'\<rparr>,
      tk_net := net, tk_log := tk_log s @ [(target, inst, names, fut)]\<rparr>)" (is "token_inv entries ?t")
proof -
  have grows: "grows s ?t"
    by (auto simp: grows_def)
  from caller obtain c0 where "c0 < length (tk_callers s)" "tk_callers s ! c0 = InSet target inst names (length ts)"
    by (metis in_set_conv_nth)
  with inv have "caller_justified s c0 (InSet target inst names (length ts))"
    by (metis token_inv_def)
  with tasks have key: "key = names" by simp
  have log: "(target, inst, names, fut) \<in> set (tk_log ?t)" by simp
  note new = answer_justified [OF complete log]
  have "state_justified ?t k u" if "entries (store_map (tk_store ?t)) k = Some u" for k u
  proof (cases "k = key")
    case True
    with that new key show ?thesis
      by (auto simp: set_update_def scc_hash_map.entries_update [OF scc])
  next
    case False
    with that have "entries (store_map (tk_store s)) k = Some u"
      by (auto simp: set_update_def scc_hash_map.entries_update [OF scc])
    with inv show ?thesis
      by (intro grows_state [OF grows]) (simp add: token_inv_def)
  qed
  moreover have "caller_justified ?t c (tk_callers s ! c)" if "c < length (tk_callers s)" for c
  proof -
    from that inv have just: "caller_justified s c (tk_callers s ! c)"
      by (simp add: token_inv_def)
    consider "caller_task (tk_callers s ! c) = None"
      | p where "caller_task (tk_callers s ! c) = Some p" "p \<noteq> length ts"
      | "caller_task (tk_callers s ! c) = Some (length ts)"
      by blast
    then show ?thesis
    proof cases
      case 1
      with grows_done [OF grows just] show ?thesis by simp
    next
      case 2
      from just 2(1) have p: "p < length (tasks (tk_store s))"
        by (cases "tk_callers s ! c") auto
      have "tasks (tk_store ?t) ! p = tasks (tk_store s) ! p"
        using 2(2) tasks by (simp add: nth_append nth_Cons split: nat.splits)
      with p 2(1) tasks grows_tasks [OF grows _ _ _ just] show ?thesis by simp
    next
      case 3
      with just tasks new key show ?thesis
        by (cases "tk_callers s ! c") simp_all
    qed
  qed
  moreover have "\<not> task_done (tasks (tk_store s) ! p)"
    if "p < length (tasks (tk_store s))" "\<not> task_done (tasks (tk_store ?t) ! p)" for p
    using that tasks by (auto simp: nth_append nth_Cons split: nat.splits if_splits)
  ultimately show ?thesis
    using inv tasks by (simp add: token_inv_def)
qed

text \<open>One caller is new or goes on; the store has at most tasks for it at its end.\<close>

lemma token_inv_caller:
  fixes s t :: "('n, 'u, 'p, 'te, 'e, 'm, 'net) token_sys"
  assumes inv: "token_inv entries s"
    and same: "tk_log t = tk_log s" "store_map (tk_store t) = store_map (tk_store s)"
      "tasks (tk_store t) = tasks (tk_store s) @ new" "length (tk_callers s) \<le> length (tk_callers t)"
    and here: "k < length (tk_callers t)"
    and others: "\<And>c. c < length (tk_callers t) \<Longrightarrow> c \<noteq> k \<Longrightarrow>
      c < length (tk_callers s) \<and> tk_callers t ! c = tk_callers s ! c"
    and old: "k < length (tk_callers s) \<Longrightarrow> caller_names (tk_callers t ! k) = caller_names (tk_callers s ! k) \<and>
      (\<forall>p. caller_task (tk_callers s ! k) = Some p \<longrightarrow> task_done (tasks (tk_store s) ! p))"
    and just: "caller_justified t k (tk_callers t ! k)"
    and owner: "\<And>p. p < length new \<Longrightarrow> caller_task (tk_callers t ! k) = Some (length (tasks (tk_store s)) + p)"
  shows "token_inv entries t"
proof -
  have "caller_names (tk_callers t ! c) = caller_names (tk_callers s ! c)" if "c < length (tk_callers s)" for c
    using that same(4) old others [of c] by (cases "c = k") auto
  with same have grows: "grows s t"
    by (simp add: grows_def)
  have "state_justified t key u" if "entries (store_map (tk_store t)) key = Some u" for key u
    using that same(2) inv by (intro grows_state [OF grows]) (simp add: token_inv_def)
  moreover have "caller_justified t c (tk_callers t ! c)" if "c < length (tk_callers t)" for c
  proof (cases "c = k")
    case False
    with that others have c: "c < length (tk_callers s)" "tk_callers t ! c = tk_callers s ! c"
      by auto
    with inv have was: "caller_justified s c (tk_callers t ! c)"
      by (simp add: token_inv_def)
    show ?thesis
    proof (cases "caller_task (tk_callers t ! c)")
      case None
      with grows_done [OF grows was] show ?thesis by simp
    next
      case (Some p)
      with was have "p < length (tasks (tk_store s))"
        by (cases "tk_callers t ! c") auto
      with Some same(3) grows_tasks [OF grows _ _ _ was] show ?thesis
        by (simp add: nth_append)
    qed
  qed (use just in simp)
  moreover have "\<exists>c < length (tk_callers t). caller_task (tk_callers t ! c) = Some p"
    if p: "p < length (tasks (tk_store t))" "\<not> task_done (tasks (tk_store t) ! p)" for p
  proof (cases "p < length (tasks (tk_store s))")
    case True
    with p same(3) have "\<not> task_done (tasks (tk_store s) ! p)"
      by (simp add: nth_append)
    with True inv obtain c where c: "c < length (tk_callers s)" "caller_task (tk_callers s ! c) = Some p"
      by (auto simp: token_inv_def)
    with \<open>\<not> task_done (tasks (tk_store s) ! p)\<close> old have "c \<noteq> k"
      by auto
    with c same(4) others [of c] show ?thesis
      by (intro exI [where x = c]) simp
  next
    case False
    with p(1) same(3) owner [of "p - length (tasks (tk_store s))"] here show ?thesis
      by (intro exI [where x = k]) simp
  qed
  ultimately show ?thesis
    by (simp add: token_inv_def)
qed

lemma caller_here:
  assumes "token_inv entries s" and "tk_callers s = cs @ u # cs'"
  shows "caller_justified s (length cs) u"
proof -
  have "length cs < length (tk_callers s)" "tk_callers s ! length cs = u"
    using assms(2) by simp_all
  with assms(1) show ?thesis
    by (metis token_inv_def)
qed

lemma justified_cong:
  fixes s t :: "('n, 'u, 'p, 'te, 'e, 'm, 'net) token_sys"
  assumes "tk_log t = tk_log s" and "map caller_names (tk_callers t) = map caller_names (tk_callers s)"
  shows "entry_justified t names e = entry_justified s names e"
    and "error_justified t c names x = error_justified s c names x"
proof -
  from assms(2) have "length (tk_callers t) = length (tk_callers s)"
    "\<And>c. c < length (tk_callers s) \<Longrightarrow> caller_names (tk_callers t ! c) = caller_names (tk_callers s ! c)"
    by (auto dest: map_eq_imp_length_eq) (metis length_map nth_map)
  with assms(1) have "grows s t" "grows t s"
    by (simp_all add: grows_def)
  then show "entry_justified t names e = entry_justified s names e"
    "error_justified t c names x = error_justified s c names x"
    by (blast intro: grows_justified)+
qed

lemma token_inv_got:
  assumes inv: "token_inv entries s" and callers: "tk_callers s = cs @ InGet target names p # cs'"
    and fin: "tasks (tk_store s) ! p = GetDone r"
    and nxt: "get_returned target inst names r (tk_store s) = (u, st)"
  shows "token_inv entries (s\<lparr>tk_store := st, tk_callers := cs @ u # cs'\<rparr>)" (is "token_inv entries ?t")
proof -
  from caller_here [OF inv callers] fin have res: "get_task s (length cs) names (GetDone r)"
    by simp
  from nxt have names: "caller_names u = names"
    by (auto simp: get_returned_def split: result.splits option.splits)
  with callers have "map caller_names (tk_callers ?t) = map caller_names (tk_callers s)"
    by simp
  note cong = justified_cong [of ?t s, OF _ this, simplified]
  show ?thesis
  proof (cases "r = Ok None")
    case True
    with nxt show ?thesis
      by (intro token_inv_caller [OF inv, where k = "length cs" and new = "[SetStarted names]"])
        (use callers fin in \<open>auto simp: get_returned_def nth_append nth_Cons split: nat.splits if_splits\<close>)
  next
    case False
    with nxt res cong have "caller_justified ?t (length cs) u" "st = tk_store s"
      by (auto simp: get_returned_def split: result.splits option.splits)
    with names show ?thesis
      by (intro token_inv_caller [OF inv, where k = "length cs" and new = "[]"])
        (use callers fin in \<open>auto simp: nth_append nth_Cons split: nat.splits if_splits\<close>)
  qed
qed

lemma token_inv_returned:
  assumes inv: "token_inv entries s" and callers: "tk_callers s = cs @ InSet target inst names p # cs'"
    and fin: "tasks (tk_store s) ! p = SetDone r"
  shows "token_inv entries (s\<lparr>tk_callers := cs @ TokenDone target names (map_err TokenStoreError r) # cs'\<rparr>)"
    (is "token_inv entries ?t")
proof -
  from caller_here [OF inv callers] fin have "set_task s (length cs) names (SetDone r)"
    by simp
  moreover from callers have "map caller_names (tk_callers ?t) = map caller_names (tk_callers s)"
    by simp
  note justified_cong [of ?t s, OF _ this, simplified]
  ultimately have "caller_justified ?t (length cs) (TokenDone target names (map_err TokenStoreError r))"
    by (cases r) auto
  then show ?thesis
    by (intro token_inv_caller [OF inv, where k = "length cs" and new = "[]"])
      (use callers fin in \<open>auto simp: nth_append nth_Cons split: nat.splits if_splits\<close>)
qed

lemma token_inv_cong:
  fixes s t :: "('n, 'u, 'p, 'te, 'e, 'm, 'net) token_sys"
  assumes inv: "token_inv entries s"
    and same: "tk_log t = tk_log s" "tk_store t = tk_store s" "tk_callers t = tk_callers s"
  shows "token_inv entries t"
proof -
  from same have grows: "grows s t"
    by (simp add: grows_def)
  have "caller_justified t c u" if "caller_justified s c u" for c u
    using that same(2)
    by (cases u) (auto intro: grows_get [OF grows] grows_set [OF grows] grows_done [OF grows])
  with inv same grows_state [OF grows] show ?thesis
    by (auto simp: token_inv_def)
qed

lemma token_inv_step:
  assumes scc: "scc_hash_map ops entries" and inv: "token_inv entries s"
    and step: "token_step env ops s t"
  shows "token_inv entries t"
  using step
proof cases
  case serve
  then show ?thesis
  proof cases
    case (store st)
    with token_inv_store [OF scc inv] show ?thesis by simp
  next
    case (got cs target names p cs' r c st)
    with token_inv_got [OF inv] show ?thesis by simp
  next
    case (answered target inst names ts key i n ts' fut net st r)
    with token_inv_answered [OF scc inv] show ?thesis by simp
  next
    case (returned cs target inst names p cs' r)
    with token_inv_returned [OF inv] show ?thesis by simp
  qed
next
  case (call target names)
  then show ?thesis
    by (intro token_inv_caller [OF inv, where k = "length (tk_callers s)" and new = "[Reading names 1]"])
      (auto simp: nth_append)
next
  case (configured inst)
  then show ?thesis
    by (intro token_inv_cong [OF inv]) simp_all
next
  case (network net)
  then show ?thesis
    by (intro token_inv_cong [OF inv]) simp_all
qed

lemma token_inv_reachable:
  assumes scc: "scc_hash_map ops entries" and "token_reachable env ops s"
  shows "token_inv entries s"
  using assms(2)
proof (induction rule: token_reachable.induct)
  case init
  show ?case
    by (simp add: token_inv_def token_sys_new_def scc_hash_map.entries_with_capacity [OF scc])
next
  case (step s t)
  show ?case by (rule token_inv_step [OF scc step.IH step.hyps(2)])
qed

subsection \<open>Refused calls\<close>

text \<open>
  The caller \<open>c\<close> is at the check of \<open>set\<close> while the future of another caller for the same names
  is running, under the token identifier \<open>i\<close>.
\<close>

definition served_elsewhere ::
  "('n, 'u, 'p, 'te, 'e, 'm, 'net) token_sys \<Rightarrow> nat \<Rightarrow> service_name list \<Rightarrow> u32 \<Rightarrow> bool" where
  "served_elsewhere s c names i \<longleftrightarrow>
     (\<exists>target inst p j n. c < length (tk_callers s) \<and> tk_callers s ! c = InSet target inst names p \<and>
        p < length (tasks (tk_store s)) \<and> tasks (tk_store s) ! p = SetChecking names j n) \<and>
     (\<exists>c' target inst p n. c' < length (tk_callers s) \<and> c' \<noteq> c \<and> tk_callers s ! c' = InSet target inst names p \<and>
        p < length (tasks (tk_store s)) \<and> tasks (tk_store s) ! p = SetAwaiting names i n)"

text \<open>The refusal that a task of the store, and a caller, will end with or has ended with.\<close>

fun task_refusal :: "('k, 'v, 'e) store_task \<Rightarrow> u32 option" where
  "task_refusal (GetDone (Err (UpdateAlreadyInProgress i))) = Some i"
| "task_refusal (SetNotifying _ (Err (UpdateAlreadyInProgress i))) = Some i"
| "task_refusal (SetDone (Err (UpdateAlreadyInProgress i))) = Some i"
| "task_refusal _ = None"

fun caller_refusal ::
  "('p, 'te, 'e, 'm) token_store_sys \<Rightarrow> ('n, 'p, 'te, 'e) token_caller \<Rightarrow> u32 option" where
  "caller_refusal st (InGet _ _ p) = task_refusal (tasks st ! p)"
| "caller_refusal st (InSet _ _ _ p) = task_refusal (tasks st ! p)"
| "caller_refusal st (TokenDone _ _ (Err (TokenStoreError (UpdateAlreadyInProgress i)))) = Some i"
| "caller_refusal st (TokenDone _ _ _) = None"

lemma task_refusal_move:
  assumes "task_move ops m x y" and "task_refusal y = Some i"
  shows "task_refusal x = Some i \<or>
    (\<exists>key j n. x = SetChecking key j n \<and> y = SetDone (Err (UpdateAlreadyInProgress i)) \<and>
       y = check_next ops key j n m)"
  using assms
proof cases
  case (read key k)
  with assms(2) show ?thesis
    by (auto simp: read_next_def get_turn_def split: if_splits sum.splits option.splits token_state_inner.splits)
next
  case (check key j n)
  moreover from check assms(2) have "y = SetDone (Err (UpdateAlreadyInProgress i))"
    by (auto simp: check_next_def set_check_def split: option.splits if_splits)
  ultimately show ?thesis by blast
next
  case (notify n r)
  with assms(2) show ?thesis
    by (cases "SetDone r" rule: task_refusal.cases) auto
qed auto

lemma refused_served:
  fixes s :: "('n, 'u, 'p, 'te, 'e, 'm, 'net) token_sys"
  assumes scc: "scc_hash_map ops entries" and inv: "token_inv entries s" and st: "store_inv entries (tk_store s)"
    and c: "c < length (tk_callers s)" "caller_task (tk_callers s ! c) = Some p"
    and p: "tasks (tk_store s) ! p = SetChecking key j n"
    and refused: "check_next ops key j n (store_map (tk_store s)) = (SetDone (Err (UpdateAlreadyInProgress i)) ::
      (service_name list, access_token_rsp, ('p, 'te, 'e) nrf_authorization_error) store_task)"
  shows "served_elsewhere s c (caller_names (tk_callers s ! c)) i"
proof -
  from inv c(1) have just: "caller_justified s c (tk_callers s ! c)"
    by (simp add: token_inv_def)
  with c(2) p obtain target inst where
    here: "tk_callers s ! c = InSet target inst key p" "p < length (tasks (tk_store s))"
    by (cases "tk_callers s ! c") auto
  from refused obtain t m where "entries (store_map (tk_store s)) key = Some t" "token_inner t = Updating m" "token_id t = i"
    by (auto simp: check_next_def set_check_def is_updating_iff scc_hash_map.get_eq [OF scc]
        split: option.splits if_splits)
  with st have "SetAwaiting key i m \<in> set (tasks (tk_store s))"
    by (auto simp: store_inv_def)
  with inv obtain q c' where other: "tasks (tk_store s) ! q = SetAwaiting key i m" "q < length (tasks (tk_store s))"
    "c' < length (tk_callers s)" "caller_task (tk_callers s ! c') = Some q"
    by (rule caller_of_task)
  with inv have "caller_justified s c' (tk_callers s ! c')"
    by (simp add: token_inv_def)
  with other obtain target' inst' where "tk_callers s ! c' = InSet target' inst' key q"
    by (cases "tk_callers s ! c'") auto
  moreover from this other here p have "c' \<noteq> c" by auto
  ultimately show ?thesis
    using c(1) here p other unfolding served_elsewhere_def by auto
qed

lemma refusal_cong:
  "(\<And>p. caller_task u = Some p \<Longrightarrow> tasks st ! p = tasks st' ! p) \<Longrightarrow> caller_refusal st u = caller_refusal st' u"
  by (induction st u rule: caller_refusal.induct) simp_all

lemma error_refusal:
  "caller_refusal st (TokenDone target names (Err (TokenStoreError e))) =
     (case e of UpdateAlreadyInProgress i \<Rightarrow> Some i | _ \<Rightarrow> None)"
  "task_refusal (GetDone (Err e)) = (case e of UpdateAlreadyInProgress i \<Rightarrow> Some i | _ \<Rightarrow> None)"
  "task_refusal (SetDone (Err e)) = (case e of UpdateAlreadyInProgress i \<Rightarrow> Some i | _ \<Rightarrow> None)"
  by (cases e; simp)+

lemma complete_refusal: "set_complete i fut = (st, r) \<Longrightarrow> task_refusal (SetNotifying n r) = None"
  by (cases fut) (auto simp: set_complete_def Let_def)

text \<open>A step makes a new refusal only at the check.\<close>

lemma refusal_step:
  assumes scc: "scc_hash_map ops entries" and inv: "token_inv entries s" and st: "store_inv entries (tk_store s)"
    and step: "token_step env ops s t" and c: "c < length (tk_callers t)"
    and refused: "caller_refusal (tk_store t) (tk_callers t ! c) = Some i"
  shows "c < length (tk_callers s) \<and> caller_names (tk_callers t ! c) = caller_names (tk_callers s ! c) \<and>
    (caller_refusal (tk_store s) (tk_callers s ! c) = Some i \<or>
     served_elsewhere s c (caller_names (tk_callers s ! c)) i)"
proof -
  have bound: "p < length (tasks (tk_store s))"
    if "c < length (tk_callers s)" "caller_task (tk_callers s ! c) = Some p" for p
  proof -
    from inv that(1) have "caller_justified s c (tk_callers s ! c)"
      by (simp add: token_inv_def)
    with that(2) show ?thesis
      by (cases "tk_callers s ! c") auto
  qed
  have same: ?thesis if "tk_callers t = tk_callers s"
    and "\<And>p. caller_task (tk_callers s ! c) = Some p \<Longrightarrow> p < length (tasks (tk_store s)) \<Longrightarrow>
      task_refusal (tasks (tk_store t) ! p) = Some i \<Longrightarrow> task_refusal (tasks (tk_store s) ! p) = Some i \<or>
      served_elsewhere s c (caller_names (tk_callers s ! c)) i"
    using that c refused bound refusal_cong [of "tk_callers s ! c" "tk_store t" "tk_store s"]
    by (cases "tk_callers s ! c") auto
  show ?thesis
    using step
  proof cases
    case serve
    then show ?thesis
    proof cases
      case (store st')
      show ?thesis
      proof (rule same)
        fix p
        assume p: "caller_task (tk_callers s ! c) = Some p" "p < length (tasks (tk_store s))"
          and "task_refusal (tasks (tk_store t) ! p) = Some i"
        with store store_task_step_moves [OF store(2)]
        show "task_refusal (tasks (tk_store s) ! p) = Some i \<or> served_elsewhere s c (caller_names (tk_callers s ! c)) i"
          using task_refusal_move [of ops "store_map (tk_store s)" "tasks (tk_store s) ! p" "tasks st' ! p" i]
            refused_served [OF scc inv st _ p(1)] c by auto
      qed (use store in simp)
    next
      case (got cs target names p cs' r u st')
      have kept: "tasks st' ! q = tasks (tk_store s) ! q" if "q < length (tasks (tk_store s))" for q
        using got(5) that by (auto simp: get_returned_def nth_append split: result.splits option.splits)
      show ?thesis
      proof (cases "c = length cs")
        case True
        with got c refused show ?thesis
          by (auto simp: get_returned_def error_refusal split: result.splits option.splits)
      next
        case False
        with got c have "c < length (tk_callers s)" "tk_callers t ! c = tk_callers s ! c"
          by (auto simp: nth_append nth_Cons split: nat.splits)
        with got refused kept bound refusal_cong [of "tk_callers s ! c" st' "tk_store s"] show ?thesis
          by simp
      qed
    next
      case (answered target inst names ts key k n ts' fut net st' r)
      show ?thesis
      proof (rule same)
        fix p
        assume p: "p < length (tasks (tk_store s))" "task_refusal (tasks (tk_store t) ! p) = Some i"
        with answered have "task_refusal (tasks (tk_store s) ! p) = Some i"
          by (auto simp: complete_refusal [OF answered(5)] nth_append nth_Cons split: nat.splits if_splits)
        then show "task_refusal (tasks (tk_store s) ! p) = Some i \<or>
            served_elsewhere s c (caller_names (tk_callers s ! c)) i" ..
      qed (use answered in simp)
    next
      case (returned cs target inst names p cs' r)
      show ?thesis
      proof (cases "c = length cs")
        case True
        with returned c refused show ?thesis
          by (cases r) (auto simp: error_refusal)
      next
        case False
        with returned c have "c < length (tk_callers s)" "tk_callers t ! c = tk_callers s ! c"
          by (auto simp: nth_append nth_Cons split: nat.splits)
        with returned refused show ?thesis by simp
      qed
    qed
  next
    case (call names target)
    show ?thesis
    proof (cases "c < length (tk_callers s)")
      case True
      with call refused bound refusal_cong [of "tk_callers s ! c" "tk_store t" "tk_store s"] show ?thesis
        by (simp add: nth_append)
    next
      case False
      with call c refused show ?thesis
        by (auto simp: nth_append less_Suc_eq)
    qed
  qed (use c refused in auto)
qed

text \<open>So every refused caller was at its check in an earlier state in which another was being served.\<close>

lemma refusal_reachable:
  assumes scc: "scc_hash_map ops entries" and "token_reachable env ops s"
    and "c < length (tk_callers s)" and "caller_refusal (tk_store s) (tk_callers s ! c) = Some i"
  shows "\<exists>s0. token_reachable env ops s0 \<and> (token_step env ops)\<^sup>*\<^sup>* s0 s \<and>
    served_elsewhere s0 c (caller_names (tk_callers s ! c)) i"
  using assms(2-)
proof (induction rule: token_reachable.induct)
  case (init inst cfg net)
  then show ?case by (simp add: token_sys_new_def)
next
  case (step s t)
  from refusal_step [OF scc token_inv_reachable [OF scc step.hyps(1)]
      store_inv_reachable [OF scc token_reachable_store [OF step.hyps(1)]] step.hyps(2) step.prems]
  consider "served_elsewhere s c (caller_names (tk_callers t ! c)) i"
    | "c < length (tk_callers s)" "caller_names (tk_callers t ! c) = caller_names (tk_callers s ! c)"
      "caller_refusal (tk_store s) (tk_callers s ! c) = Some i"
    by auto
  then show ?case
  proof cases
    case 1
    with step.hyps show ?thesis by blast
  next
    case 2
    with step.IH step.hyps(2) show ?thesis
      by (metis rtranclp.rtrancl_into_rtrancl)
  qed
qed

subsection \<open>Properties\<close>

lemma log_true:
  assumes "token_reachable env ops s" and "(target, inst, names, fut) \<in> set (tk_log s)"
  shows "\<exists>net net'. authentication_request env (init_url (tk_init s)) inst (init_source (tk_init s)) target names net =
    Some (fut, net')"
  using assms
proof (induction arbitrary: target inst names fut rule: token_reachable.induct)
  case (init inst cfg net)
  then show ?case
    by (simp add: token_sys_new_def)
next
  case (step s t)
  from step.hyps(2) show ?case
  proof cases
    case serve
    then show ?thesis
      by cases (use step in auto)
  qed (use step in auto)
qed

text \<open>
  C17: concurrent token requests.  Whatever calls of \<open>get_token\<close> run at the same time, a call
  that has returned for some service names has an entry whose value can be read and was granted
  by the NRF for exactly these names, or an error with its cause: a request for these names was
  turned down (by this call, or by an earlier one whose failure the store kept), or, in the state
  of the run in which this call was checked, another call for the same names was waiting for its answer
  from the NRF, under the token identifier that the error names.  No other error is possible; the
  answers in the log are those of \<open>authentication_request\<close>.
\<close>

theorem token_request_outcomes:
  assumes "scc_hash_map ops entries" and "token_reachable env ops s"
    and "c < length (tk_callers s)" and "tk_callers s ! c = TokenDone target names r"
  shows "(case r of
      Ok e \<Rightarrow> \<exists>rsp. token_entry_get e = Some rsp \<and> granted s names rsp
    | Err (TokenStoreError (InnerFutureError err)) \<Rightarrow> denied s names err
    | Err (TokenStoreError (StoreReadError _)) \<Rightarrow> \<exists>err. denied s names err
    | Err (TokenStoreError (UpdateAlreadyInProgress i)) \<Rightarrow>
        \<exists>s0. token_reachable env ops s0 \<and> (token_step env ops)\<^sup>*\<^sup>* s0 s \<and> served_elsewhere s0 c names i
    | _ \<Rightarrow> False) \<and>
    (\<forall>target inst names fut. (target, inst, names, fut) \<in> set (tk_log s) \<longrightarrow>
      (\<exists>net net'. authentication_request env (init_url (tk_init s)) inst (init_source (tk_init s)) target names net =
         Some (fut, net')))"
proof -
  from token_inv_reachable [OF assms(1,2)] assms(3,4) have "caller_justified s c (TokenDone target names r)"
    by (metis token_inv_def)
  moreover have "\<exists>s0. token_reachable env ops s0 \<and> (token_step env ops)\<^sup>*\<^sup>* s0 s \<and> served_elsewhere s0 c names i"
    if "r = Err (TokenStoreError (UpdateAlreadyInProgress i))" for i
    using refusal_reachable [OF assms(1-3), of i] assms(4) that by simp
  ultimately have "case r of
      Ok e \<Rightarrow> \<exists>rsp. token_entry_get e = Some rsp \<and> granted s names rsp
    | Err (TokenStoreError (InnerFutureError err)) \<Rightarrow> denied s names err
    | Err (TokenStoreError (StoreReadError _)) \<Rightarrow> \<exists>err. denied s names err
    | Err (TokenStoreError (UpdateAlreadyInProgress i)) \<Rightarrow>
        \<exists>s0. token_reachable env ops s0 \<and> (token_step env ops)\<^sup>*\<^sup>* s0 s \<and> served_elsewhere s0 c names i
    | _ \<Rightarrow> False"
    by (auto simp: entry_justified_def split: result.splits nrf_authorization_error.splits store_error.splits)
  with log_true [OF assms(2)] show ?thesis by blast
qed

subsection \<open>Two calls for the same names\<close>

text \<open>
  Both read an empty store before either has stored anything; the first is being served when the
  second calls \<open>set\<close>.
\<close>

type_synonym demo_token_sys =
  "(nat, string, unit, unit, unit, service_name list \<rightharpoonup> access_token_rsp token_state, string request list) token_sys"

abbreviation demo_names :: "service_name list" where
  "demo_names \<equiv> [NnrfNfm]"

definition demo_tk where
  "demo_tk m c n ts callers net log = (\<lparr>tk_init = \<lparr>init_url = ''http://nrf'', init_source = NfTypeAmf\<rparr>, tk_nf_id = 3,
     tk_store = \<lparr>store_map = m, store_counter = c, next_notify = n, tasks = ts\<rparr>,
     tk_callers = callers, tk_net = net, tk_log = log\<rparr> :: demo_token_sys)"

lemma demo_call: "token_reachable env map_ops (demo_tk m c n ts callers net log) \<Longrightarrow>
   token_reachable env map_ops (demo_tk m c n (ts @ [Reading names 1])
     (callers @ [InGet target names (length ts)]) net log)"
  using token_reachable.step [OF _ token_step.call, of env map_ops "demo_tk m c n ts callers net log" target names]
  by (simp add: demo_tk_def)

lemma demo_task: "token_reachable env map_ops (demo_tk m c n ts callers net log) \<Longrightarrow>
   store_task_step map_ops \<lparr>store_map = m, store_counter = c, next_notify = n, tasks = ts\<rparr>
     \<lparr>store_map = m', store_counter = c', next_notify = n', tasks = ts'\<rparr> \<Longrightarrow>
   token_reachable env map_ops (demo_tk m' c' n' ts' callers net log)"
  using token_reachable.step [OF _ token_step.serve [OF serve_step.store], of env map_ops
      "demo_tk m c n ts callers net log" "\<lparr>store_map = m', store_counter = c', next_notify = n', tasks = ts'\<rparr>"]
  by (simp add: demo_tk_def)

lemma demo_got: "token_reachable env map_ops (demo_tk m c n ts (cs @ InGet target names p # cs') net log) \<Longrightarrow>
   p < length ts \<Longrightarrow> ts ! p = GetDone (Ok None) \<Longrightarrow>
   token_reachable env map_ops (demo_tk m c n (ts @ [SetStarted names])
     (cs @ InSet target 3 names (length ts) # cs') net log)"
  using token_reachable.step [OF _ token_step.serve [OF serve_step.got [where cs = cs and cs' = cs']], of env map_ops
      "demo_tk m c n ts (cs @ InGet target names p # cs') net log" target names p "Ok None"]
  by (simp add: demo_tk_def get_returned_def)

lemma demo_returned: "token_reachable env map_ops (demo_tk m c n ts (cs @ InSet target inst names p # cs') net log) \<Longrightarrow>
   p < length ts \<Longrightarrow> ts ! p = SetDone r \<Longrightarrow>
   token_reachable env map_ops (demo_tk m c n ts
     (cs @ TokenDone target names (map_err TokenStoreError r) # cs') net log)"
  using token_reachable.step [OF _ token_step.serve [OF serve_step.returned [where cs = cs and cs' = cs']], of env map_ops
      "demo_tk m c n ts (cs @ InSet target inst names p # cs') net log" target inst names p r]
  by (simp add: demo_tk_def)

abbreviation demo_id :: u32 where
  "demo_id \<equiv> fst (increment counter_new)"

abbreviation demo_counter :: "32 counter" where
  "demo_counter \<equiv> snd (increment counter_new)"

abbreviation demo_update :: "service_name list \<rightharpoonup> access_token_rsp token_state" where
  "demo_update \<equiv> [demo_names \<mapsto> \<lparr>token_id = demo_id, token_inner = Updating 0\<rparr>]"

lemma demo_first:
  "token_reachable (demo_nrf True) map_ops (demo_tk demo_update demo_counter 1
     [GetDone (Ok None), GetDone (Ok None), SetAwaiting demo_names demo_id 0]
     [InSet NfTypeNrf 3 demo_names 2, InGet NfTypeNrf demo_names 1] [] [])"
proof -
  let ?r = "\<lambda>m c n ts callers. token_reachable (demo_nrf True) map_ops (demo_tk m c n ts callers [] [])"
  let ?A = "InGet NfTypeNrf demo_names 0 :: (nat, unit, unit, unit) token_caller"
    and ?B = "InGet NfTypeNrf demo_names 1 :: (nat, unit, unit, unit) token_caller"
    and ?S = "InSet NfTypeNrf 3 demo_names 2 :: (nat, unit, unit, unit) token_caller"
    and ?G = "GetDone (Ok None)"
  have "?r Map.empty counter_new 0 [] []"
    using token_reachable.init [of "demo_nrf True" map_ops 3 "\<lparr>init_url = ''http://nrf'', init_source = NfTypeAmf\<rparr>" "[]"]
    by (simp add: token_sys_new_def demo_tk_def)
  from demo_call [OF demo_call [OF this, where names = demo_names and target = NfTypeNrf],
      where names = demo_names and target = NfTypeNrf] have "?r Map.empty counter_new 0 [Reading demo_names 1, Reading demo_names 1] [?A, ?B]"
    by simp
  then have "?r Map.empty counter_new 0 [?G, Reading demo_names 1] [?A, ?B]"
    by (rule demo_task) (use store_task_step.read [of "\<lparr>store_map = Map.empty, store_counter = counter_new, next_notify = 0,
        tasks = [Reading demo_names 1, Reading demo_names 1]\<rparr>" "[]" demo_names 1 "[Reading demo_names 1]" map_ops] in
        \<open>simp add: read_next_def get_turn_def\<close>)
  then have "?r Map.empty counter_new 0 [?G, ?G] [?A, ?B]"
    by (rule demo_task) (use store_task_step.read [of "\<lparr>store_map = Map.empty, store_counter = counter_new, next_notify = 0,
        tasks = [?G, Reading demo_names 1]\<rparr>" "[?G]" demo_names 1 "[]" map_ops] in
        \<open>simp add: read_next_def get_turn_def\<close>)
  from demo_got [where cs = "[]" and cs' = "[?B]", unfolded append_Nil, OF this] have "?r Map.empty counter_new 0 [?G, ?G, SetStarted demo_names] [?S, ?B]"
    by (simp add: numeral_2_eq_2 numeral_3_eq_3)
  then have "?r Map.empty demo_counter 1 [?G, ?G, SetChecking demo_names demo_id 0] [?S, ?B]"
    by (rule demo_task) (use store_task_step.create [of "\<lparr>store_map = Map.empty, store_counter = counter_new, next_notify = 0,
        tasks = [?G, ?G, SetStarted demo_names]\<rparr>" "[?G, ?G]" demo_names "[]" "SetChecking demo_names demo_id 0"
        demo_counter map_ops] in \<open>simp add: create_next_def token_state_new_def split_beta\<close>)
  then have "?r Map.empty demo_counter 1 [?G, ?G, SetUpserting demo_names demo_id 0] [?S, ?B]"
    by (rule demo_task) (use store_task_step.check [of "\<lparr>store_map = Map.empty, store_counter = demo_counter, next_notify = 1,
        tasks = [?G, ?G, SetChecking demo_names demo_id 0]\<rparr>" "[?G, ?G]" demo_names demo_id 0 "[]" map_ops] in
        \<open>simp add: check_next_def set_check_def\<close>)
  then show ?thesis
    by (rule demo_task) (use store_task_step.upsert [of "\<lparr>store_map = Map.empty, store_counter = demo_counter, next_notify = 1,
        tasks = [?G, ?G, SetUpserting demo_names demo_id 0]\<rparr>" "[?G, ?G]" demo_names demo_id 0 "[]" map_ops] in simp)
qed

text \<open>The second call finds the update of the first and is refused.\<close>

abbreviation demo_refused :: "(nat, unit, unit, unit) token_caller" where
  "demo_refused \<equiv> TokenDone NfTypeNrf demo_names (Err (TokenStoreError (UpdateAlreadyInProgress demo_id)))"

definition demo_busy :: demo_token_sys where
  "demo_busy = demo_tk demo_update (snd (increment demo_counter)) 2
     [GetDone (Ok None), GetDone (Ok None), SetAwaiting demo_names demo_id 0,
      SetDone (Err (UpdateAlreadyInProgress demo_id))]
     [InSet NfTypeNrf 3 demo_names 2, demo_refused] [] []"

lemma demo_busy_reachable: "token_reachable (demo_nrf True) map_ops demo_busy"
proof -
  let ?r = "\<lambda>c n ts callers. token_reachable (demo_nrf True) map_ops (demo_tk demo_update c n ts callers [] [])"
  let ?S = "InSet NfTypeNrf 3 demo_names 2 :: (nat, unit, unit, unit) token_caller"
    and ?B = "InSet NfTypeNrf 3 demo_names 3 :: (nat, unit, unit, unit) token_caller"
    and ?G = "GetDone (Ok None)" and ?W = "SetAwaiting demo_names demo_id 0"
  let ?j = "fst (increment demo_counter)" and ?c = "snd (increment demo_counter)"
  from demo_got [where cs = "[?S]" and cs' = "[]", unfolded append_Cons append_Nil, OF demo_first]
  have "?r demo_counter 1 [?G, ?G, ?W, SetStarted demo_names] [?S, ?B]"
    by (simp add: numeral_2_eq_2 numeral_3_eq_3)
  then have "?r ?c 2 [?G, ?G, ?W, SetChecking demo_names ?j 1] [?S, ?B]"
    by (rule demo_task) (use store_task_step.create [of "\<lparr>store_map = demo_update, store_counter = demo_counter, next_notify = 1,
        tasks = [?G, ?G, ?W, SetStarted demo_names]\<rparr>" "[?G, ?G, ?W]" demo_names "[]" "SetChecking demo_names ?j 1"
        ?c map_ops] in \<open>simp add: create_next_def token_state_new_def split_beta numeral_2_eq_2\<close>)
  then have "?r ?c 2 [?G, ?G, ?W, SetDone (Err (UpdateAlreadyInProgress demo_id))] [?S, ?B]"
    by (rule demo_task) (use store_task_step.check [of "\<lparr>store_map = demo_update, store_counter = ?c, next_notify = 2,
        tasks = [?G, ?G, ?W, SetChecking demo_names ?j 1]\<rparr>" "[?G, ?G, ?W]" demo_names ?j 1 "[]" map_ops] in
        \<open>simp add: check_next_def set_check_def is_updating_def\<close>)
  from demo_returned [where cs = "[?S]" and cs' = "[]", unfolded append_Cons append_Nil, OF this] show ?thesis
    by (simp add: demo_busy_def)
qed

text \<open>The first call gets its token all the same.\<close>

abbreviation demo_rsp :: access_token_rsp where
  "demo_rsp \<equiv> \<lparr>access_token = ''t'', token_type = Bearer\<rparr>"

abbreviation demo_token_entry :: "access_token_rsp token_state" where
  "demo_token_entry \<equiv> \<lparr>token_id = demo_id, token_inner = TokenReady demo_rsp\<rparr>"

definition demo_token_request :: "string request" where
  "demo_token_request = \<lparr>req_method = PUT, req_url = ''http://nrf/nnrf?'',
     req_headers = [''content-type'' \<mapsto> ''application/x-www-form-urlencoded''], req_body = Some []\<rparr>"

definition demo_raced :: demo_token_sys where
  "demo_raced = demo_tk [demo_names \<mapsto> demo_token_entry] (snd (increment demo_counter)) 2
     [GetDone (Ok None), GetDone (Ok None), SetDone (Ok (TokenEntry demo_token_entry)),
      SetDone (Err (UpdateAlreadyInProgress demo_id))]
     [TokenDone NfTypeNrf demo_names (Ok (TokenEntry demo_token_entry)), demo_refused] [demo_token_request]
     [(NfTypeNrf, 3, demo_names, Ok demo_rsp)]"

lemma demo_raced_reachable: "token_reachable (demo_nrf True) map_ops demo_raced"
proof -
  let ?c = "snd (increment demo_counter)"
  let ?r = "\<lambda>ts callers. token_reachable (demo_nrf True) map_ops (demo_tk [demo_names \<mapsto> demo_token_entry] ?c 2
    ts callers [demo_token_request] [(NfTypeNrf, 3, demo_names, Ok demo_rsp)])"
  let ?S = "InSet NfTypeNrf 3 demo_names 2 :: (nat, unit, unit, unit) token_caller"
  let ?G = "GetDone (Ok None)" and ?D = "SetDone (Err (UpdateAlreadyInProgress demo_id))"
  let ?e = "Ok (TokenEntry demo_token_entry)"
  have "authentication_request (demo_nrf True) ''http://nrf'' 3 NfTypeAmf NfTypeNrf demo_names [] =
      Some (Ok demo_rsp, [demo_token_request])"
    using demo_token [of True] by (simp add: demo_token_request_def)
  moreover have "(set_complete demo_id (Ok demo_rsp) :: _ \<times> (_, (unit, unit, unit) nrf_authorization_error) set_result) =
      (demo_token_entry, ?e)"
    by (simp add: set_complete_def Let_def)
  ultimately have "?r [?G, ?G, SetNotifying 0 ?e, ?D] [?S, demo_refused]"
    using token_reachable.step [OF demo_busy_reachable token_step.serve [OF serve_step.answered
        [of NfTypeNrf 3 demo_names "[?G, ?G]" _ demo_names demo_id 0 "[?D]" "demo_nrf True" "Ok demo_rsp" "[demo_token_request]"
          demo_token_entry ?e map_ops]]]
    by (simp add: demo_busy_def demo_tk_def set_update_def numeral_2_eq_2)
  then have "?r [?G, ?G, SetDone ?e, ?D] [?S, demo_refused]"
    by (rule demo_task) (use store_task_step.notify [of "\<lparr>store_map = [demo_names \<mapsto> demo_token_entry], store_counter = ?c,
        next_notify = 2, tasks = [?G, ?G, SetNotifying 0 ?e, ?D]\<rparr>" "[?G, ?G]" 0 ?e "[?D]" map_ops] in simp)
  from demo_returned [where cs = "[]" and cs' = "[demo_refused]", unfolded append_Nil, OF this] show ?thesis
    by (simp add: demo_raced_def)
qed

theorem token_request_outcomes_witness:
  "token_reachable (demo_nrf True) map_ops demo_raced \<and>
   granted demo_raced demo_names demo_rsp \<and> tk_callers demo_raced ! 1 = demo_refused \<and>
   (\<exists>s0. token_reachable (demo_nrf True) map_ops s0 \<and> (token_step (demo_nrf True) map_ops)\<^sup>*\<^sup>* s0 demo_raced \<and>
      served_elsewhere s0 1 demo_names demo_id)"
proof -
  have callers: "length (tk_callers demo_raced) = 2" "tk_callers demo_raced ! 1 = demo_refused"
    "tk_callers demo_raced ! 0 = TokenDone NfTypeNrf demo_names (Ok (TokenEntry demo_token_entry))"
    by (simp_all add: demo_raced_def demo_tk_def)
  note outcome = token_request_outcomes [OF map_scc.scc_hash_map_axioms demo_raced_reachable]
  from outcome [of 0, OF _ callers(3)] callers(1) have "granted demo_raced demo_names demo_rsp"
    by simp
  moreover from outcome [of 1, OF _ callers(2)] callers(1)
  have "\<exists>s0. token_reachable (demo_nrf True) map_ops s0 \<and> (token_step (demo_nrf True) map_ops)\<^sup>*\<^sup>* s0 demo_raced \<and>
      served_elsewhere s0 1 demo_names demo_id"
    by simp
  ultimately show ?thesis
    using demo_raced_reachable callers(2) by blast
qed

end
