(* ===== verification/Token_Serving.thy ===== *)
theory Token_Serving
  imports Token_Requests
begin

text \<open>
  Progress of concurrent token requests: the system of \<open>Token_Requests\<close> has no infinite run
  without new calls, and where it stops each call has returned or has lost its wake-up.  The last
  part shows that the sequential \<open>get_token\<close> is a run of the system.
\<close>

subsection \<open>Every call is served\<close>

text \<open>
  The requests for tokens have no headers to serialise, and the form encoding is one of the
  supported ones, so preparing them never panics.
\<close>

lemma authentication_request_runs: "\<exists>fut net'. authentication_request env url inst source target names net = Some (fut, net')"
proof -
  have "(prepare_request (env_serde env) (env_url env) url path meth None None (Some body) AppForm = None) = False"
    for path meth body
    by (cases "qs_to_writer (env_serde env) body")
      (auto simp: prepare_request_def extend_headers_def map_transpose_def Let_def)
  note runs = this
  show ?thesis
    by (auto simp: authentication_request_def Let_def runs split: result.splits option.splits prod.splits)
qed

text \<open>Steps that are left to a task of the store, and to a caller besides its task.\<close>

fun task_left :: "('k, 'v, 'e) store_task \<Rightarrow> nat" where
  "task_left (Reading _ i) = 3 * (10 - i) + 2"
| "task_left (HasRead _ i _) = 3 * (10 - Suc i) + 4"
| "task_left (Parked _ i _) = 3 * (10 - Suc i) + 3"
| "task_left (GetDone _) = 0"
| "task_left (SetStarted _) = 5"
| "task_left (SetChecking _ _ _) = 4"
| "task_left (SetUpserting _ _ _) = 3"
| "task_left (SetAwaiting _ _ _) = 2"
| "task_left (SetNotifying _ _) = 1"
| "task_left (SetDone _) = 0"

fun caller_left :: "('n, 'p, 'te, 'e) token_caller \<Rightarrow> nat" where
  "caller_left (InGet _ _ _) = 7"
| "caller_left (InSet _ _ _ _) = 1"
| "caller_left (TokenDone _ _ _) = 0"

definition serving_left :: "('n, 'u, 'p, 'te, 'e, 'm, 'net) token_sys \<Rightarrow> nat" where
  "serving_left s = sum_list (map task_left (tasks (tk_store s))) + sum_list (map caller_left (tk_callers s))"

lemma wake_left: "task_left (wake n t) \<le> task_left t"
  by (cases t) auto

lemma wakes_left: "sum_list (map (task_left \<circ> wake n) ts) \<le> sum_list (map task_left ts)"
  by (rule sum_list_mono) (simp add: wake_left)

lemma task_step_left:
  assumes "store_task_step ops s t"
  shows "sum_list (map task_left (tasks t)) < sum_list (map task_left (tasks s))"
  using assms
proof cases
  case (read ts key i ts')
  have "task_left (read_next ops key i (store_map s)) < task_left (Reading key i)"
    by (auto simp: read_next_def split: sum.splits)
  with read show ?thesis by simp
next
  case (create ts key ts' u c)
  then have "task_left u < task_left (SetStarted key)"
    by (auto simp: create_next_def split_beta)
  with create show ?thesis by simp
next
  case (check ts key i n ts')
  have "task_left (check_next ops key i n (store_map s)) < task_left (SetChecking key i n)"
    by (auto simp: check_next_def split: option.splits)
  with check show ?thesis by simp
next
  case (notify ts n r ts')
  with wakes_left [of n ts] wakes_left [of n ts'] show ?thesis by simp
qed simp_all

lemma serve_step_left:
  assumes "serve_step env ops s t"
  shows "serving_left t < serving_left s"
  using assms
proof cases
  case (store st)
  with task_step_left [OF store(2)] show ?thesis
    by (simp add: serving_left_def)
next
  case (got cs target names p cs' r c st)
  then show ?thesis
    by (auto simp: serving_left_def get_returned_def split: result.splits option.splits)
qed (auto simp: serving_left_def)

lemma serving_ends: "\<not> (\<forall>i. serve_step env ops (run i) (run (Suc i)))"
proof
  assume "\<forall>i. serve_step env ops (run i) (run (Suc i))"
  then have "(run (Suc i), run i) \<in> measure serving_left" for i
    using serve_step_left [of env ops "run i" "run (Suc i)"] by simp
  with wf_measure [of serving_left] show False
    unfolding wf_iff_no_infinite_down_chain by blast
qed

text \<open>A task that is neither finished nor waiting can step.\<close>

lemma task_can_step:
  fixes s :: "('n, 'u, 'p, 'te, 'e, 'm, 'net) token_sys"
  assumes inv: "token_inv entries s" and task: "t \<in> set (tasks (tk_store s))"
    and active: "\<not> task_done t" "\<forall>key i n. t \<noteq> Parked key i n"
  shows "\<exists>u. serve_step env ops s u"
proof -
  from task obtain ts ts' where tasks: "tasks (tk_store s) = ts @ t # ts'"
    by (meson split_list)
  have "\<exists>u. serve_step env ops s u" if "store_task_step ops (tk_store s) st" for st
    using serve_step.store [OF that] by blast
  note internal = this
  show ?thesis
  proof (cases t)
    case (SetAwaiting key i n)
    with tasks have "length ts < length (tasks (tk_store s))" "\<not> task_done (tasks (tk_store s) ! length ts)"
      by simp_all
    with inv obtain c where c: "c < length (tk_callers s)" "caller_task (tk_callers s ! c) = Some (length ts)"
      and just: "caller_justified s c (tk_callers s ! c)"
      unfolding token_inv_def by blast
    with tasks SetAwaiting obtain target inst names where "tk_callers s ! c = InSet target inst names (length ts)"
      by (cases "tk_callers s ! c") auto
    with c(1) have caller: "InSet target inst names (length ts) \<in> set (tk_callers s)"
      by (metis nth_mem)
    obtain fut net where request: "authentication_request env (init_url (tk_init s)) inst (init_source (tk_init s))
        target names (tk_net s) = Some (fut, net)"
      using authentication_request_runs [of env "init_url (tk_init s)" inst "init_source (tk_init s)" target names
          "tk_net s"] by blast
    obtain st r where "set_complete i fut = (st, r)"
      by fastforce
    from serve_step.answered [OF caller tasks [unfolded SetAwaiting] request this] show ?thesis by blast
  next
    case (SetStarted key)
    obtain u :: "(service_name list, access_token_rsp, ('p, 'te, 'e) nrf_authorization_error) store_task" and c
      where "create_next key (next_notify (tk_store s)) (store_counter (tk_store s)) = (u, c)"
      by fastforce
    from internal [OF store_task_step.create [OF tasks [unfolded SetStarted] this]] show ?thesis .
  qed (use active tasks internal in \<open>auto intro: store_task_step.read store_task_step.park store_task_step.check store_task_step.upsert
      store_task_step.notify\<close>)
qed

text \<open>Notifications that readers hold were created.\<close>

fun task_notify :: "('k, 'v, 'e) store_task \<Rightarrow> nat option" where
  "task_notify (HasRead _ _ n) = Some n"
| "task_notify (Parked _ _ n) = Some n"
| "task_notify (SetUpserting _ _ n) = Some n"
| "task_notify (SetChecking _ _ n) = Some n"
| "task_notify _ = None"

definition notified_below :: "('m \<Rightarrow> 'k \<Rightarrow> 'v token_state option) \<Rightarrow> ('k, 'v, 'e, 'm) store_sys \<Rightarrow> bool" where
  "notified_below entries s \<longleftrightarrow>
     (\<forall>k t n. entries (store_map s) k = Some t \<and> token_inner t = Updating n \<longrightarrow> n < next_notify s) \<and>
     (\<forall>t \<in> set (tasks s). \<forall>n. task_notify t = Some n \<longrightarrow> n < next_notify s)"

lemma wake_notify: "task_notify (wake m t) = Some n \<Longrightarrow> task_notify t = Some n"
  by (cases t) (auto split: if_splits)

lemma notified_below_task:
  assumes scc: "scc_hash_map ops entries" and "store_task_step ops s t" and "notified_below entries s"
  shows "notified_below entries t"
  using assms(2,3)
proof (induction rule: store_task_step.induct)
  case (read s ts key i ts')
  have "n < next_notify s" if "task_notify (read_next ops key i (store_map s)) = Some n" for n
    using that read
    by (auto simp: read_next_def get_turn_def scc_hash_map.read_eq [OF scc] notified_below_def
        split: if_splits sum.splits option.splits token_state_inner.splits)
  with read show ?case
    by (auto simp: notified_below_def)
next
  case (create s ts key ts' u c)
  then have "task_notify u = Some (next_notify s)"
    by (auto simp: create_next_def split_beta)
  with create show ?case
    by (fastforce simp: notified_below_def less_Suc_eq)
next
  case (check s ts key i n ts')
  have "m = n" if "task_notify (check_next ops key i n (store_map s)) = Some m" for m
    using that by (auto simp: check_next_def split: option.splits)
  moreover from check have "n < next_notify s"
    by (force simp: notified_below_def)
  ultimately show ?case
    using check by (auto simp: notified_below_def)
next
  case (upsert s ts key i n ts')
  then have "n < next_notify s"
    by (force simp: notified_below_def)
  with upsert show ?case
    by (auto simp: notified_below_def scc_hash_map.entries_upsert [OF scc] split: if_splits)
next
  case (notify s ts n r ts')
  then have "m < next_notify s" if "t \<in> set ts \<union> set ts'" "task_notify (wake n t) = Some m" for t m
    using that(1) wake_notify [OF that(2)] by (auto simp: notified_below_def)
  with notify show ?case
    by (auto simp: notified_below_def)
qed (auto simp: notified_below_def)

lemma notified_below_reachable:
  assumes scc: "scc_hash_map ops entries" and "store_reachable ops s"
  shows "notified_below entries s"
  using assms(2)
proof (induction rule: store_reachable.induct)
  case init
  show ?case
    by (simp add: notified_below_def scc_hash_map.entries_with_capacity [OF scc])
next
  case (step s t)
  from step.hyps(2) step.IH show ?case
  proof cases
    case task
    with notified_below_task [OF scc] step.IH show ?thesis by blast
  next
    case (complete ts key i n ts' fut st r)
    from set_complete_entry [OF complete(3)] have "token_inner st \<noteq> Updating m" for m
      by (auto simp: is_updating_iff)
    with step.IH complete show ?thesis
      by (auto simp: notified_below_def set_update_def scc_hash_map.entries_update [OF scc] split: if_splits)
  qed (auto simp: notified_below_def)
qed

subsection \<open>Readers that wait in time are woken\<close>

text \<open>
  A writer has its notification for itself until it has stored it; from then on it owes it to
  the readers.  A reader that waits, or is about to, knows the notification from the map.
\<close>

fun private_notify :: "nat \<Rightarrow> ('k, 'v, 'e) store_task \<Rightarrow> bool" where
  "private_notify n (SetChecking _ _ m) = (m = n)"
| "private_notify n (SetUpserting _ _ m) = (m = n)"
| "private_notify n _ = False"

fun owes_notify :: "nat \<Rightarrow> ('k, 'v, 'e) store_task \<Rightarrow> bool" where
  "owes_notify n (SetAwaiting _ _ m) = (m = n)"
| "owes_notify n (SetNotifying m _) = (m = n)"
| "owes_notify n _ = False"

fun reader_notify :: "nat \<Rightarrow> ('k, 'v, 'e) store_task \<Rightarrow> bool" where
  "reader_notify n (HasRead _ _ m) = (m = n)"
| "reader_notify n (Parked _ _ m) = (m = n)"
| "reader_notify n _ = False"

definition known_notify ::
  "('m \<Rightarrow> 'k \<Rightarrow> 'v token_state option) \<Rightarrow> ('k, 'v, 'e, 'm) store_sys \<Rightarrow> nat \<Rightarrow> bool" where
  "known_notify entries s n \<longleftrightarrow> (\<exists>t \<in> set (tasks s). reader_notify n t) \<or>
     (\<exists>k u. entries (store_map s) k = Some u \<and> token_inner u = Updating n)"

definition notify_inv :: "('m \<Rightarrow> 'k \<Rightarrow> 'v token_state option) \<Rightarrow> ('k, 'v, 'e, 'm) store_sys \<Rightarrow> bool" where
  "notify_inv entries s \<longleftrightarrow>
     (\<forall>n. length (filter (holds_notify n) (tasks s)) \<le> 1) \<and>
     (\<forall>t \<in> set (tasks s). \<forall>n. holds_notify n t \<longrightarrow> n < next_notify s) \<and>
     (\<forall>n. known_notify entries s n \<longrightarrow> (\<forall>t \<in> set (tasks s). \<not> private_notify n t))"

lemma holds_iff: "holds_notify n t \<longleftrightarrow> private_notify n t \<or> owes_notify n t"
  by (cases t) auto

lemma wake_kinds [simp]:
  "private_notify n (wake m t) = private_notify n t" "owes_notify n (wake m t) = owes_notify n t"
  "reader_notify n (wake m t) \<Longrightarrow> reader_notify n t"
  by (cases t; auto split: if_splits)+

lemma known_below: "notified_below entries s \<Longrightarrow> known_notify entries s n \<Longrightarrow> n < next_notify s"
proof -
  assume below: "notified_below entries s" and "known_notify entries s n"
  moreover have "task_notify t = Some n" if "reader_notify n t" for t :: "('b, 'c, 'd) store_task"
    using that by (cases t) auto
  ultimately show ?thesis
    by (fastforce simp: known_notify_def notified_below_def)
qed

lemma notify_inv_keep:
  assumes "notify_inv entries s" and "\<And>n. known_notify entries t n \<Longrightarrow> known_notify entries s n"
    and "\<And>n. length (filter (holds_notify n) (tasks t)) \<le> length (filter (holds_notify n) (tasks s))"
    and "next_notify t = next_notify s"
    and "\<And>n x. x \<in> set (tasks t) \<Longrightarrow> private_notify n x \<Longrightarrow> \<exists>y \<in> set (tasks s). private_notify n y"
  shows "notify_inv entries t"
proof -
  have "n < next_notify s" if x: "x \<in> set (tasks t)" "holds_notify n x" for n x
  proof -
    from x have "filter (holds_notify n) (tasks t) \<noteq> []"
      by (auto simp: filter_empty_conv)
    with assms(3) [of n] have "filter (holds_notify n) (tasks s) \<noteq> []"
      by auto
    with assms(1) show ?thesis
      by (auto simp: notify_inv_def filter_empty_conv)
  qed
  moreover have "length (filter (holds_notify n) (tasks t)) \<le> 1" for n
    using assms(1) assms(3) [of n] unfolding notify_inv_def by (meson le_trans)
  moreover have "\<not> private_notify n x" if "known_notify entries t n" "x \<in> set (tasks t)" for n x
    using assms(1) assms(2) [OF that(1)] assms(5) [OF that(2)] unfolding notify_inv_def by blast
  ultimately show ?thesis
    using assms(4) unfolding notify_inv_def by simp
qed

lemma notify_inv_task:
  assumes scc: "scc_hash_map ops entries" and "store_task_step ops s t"
    and below: "notified_below entries s" and "notify_inv entries s"
  shows "notify_inv entries t"
  using assms(2-)
proof (induction rule: store_task_step.induct)
  case (read s ts key i ts')
  have "known_notify entries s n" if "reader_notify n (read_next ops key i (store_map s))" for n
    using that by (auto simp: read_next_def get_turn_def scc_hash_map.read_eq [OF scc] known_notify_def
        split: if_splits sum.splits option.splits token_state_inner.splits)
  note known = this
  have "\<not> private_notify n (read_next ops key i (store_map s))" for n
    by (simp add: read_next_def split: sum.splits)
  note this [simp]
  show ?case
  proof (rule notify_inv_keep [OF read.prems(2)])
    fix n
    assume "known_notify entries (s\<lparr>tasks := ts @ read_next ops key i (store_map s) # ts'\<rparr>) n"
    with known [of n] read.hyps show "known_notify entries s n"
      by (auto simp: known_notify_def)
  qed (use read.hyps in auto)
next
  case (create s ts key ts' u c)
  then have u: "u = SetChecking key (token_id (fst (token_state_new (next_notify s) (store_counter s) ::
      'b token_state \<times> 32 counter))) (next_notify s)"
    by (auto simp: create_next_def split_beta)
  have "\<not> known_notify entries s (next_notify s)"
    using known_below [OF create.prems(1)] by blast
  moreover have "\<not> holds_notify (next_notify s) x" if "x \<in> set ts \<union> set ts'" for x
    using that create by (auto simp: notify_inv_def)
  then have "filter (holds_notify (next_notify s)) ts = []" "filter (holds_notify (next_notify s)) ts' = []"
    by (auto simp: filter_empty_conv)
  ultimately show ?case
    using create u by (auto simp: notify_inv_def known_notify_def less_Suc_eq)
next
  case (check s ts key i n ts')
  show ?case
    by (rule notify_inv_keep [OF check.prems(2)])
      (use check.hyps in \<open>auto simp: check_next_def known_notify_def split: option.splits if_splits\<close>)
next
  case (upsert s ts key i n ts')
  then have "length (filter (holds_notify n) (ts @ SetUpserting key i n # ts')) \<le> 1"
    by (metis notify_inv_def)
  then have "\<not> holds_notify n x" if "x \<in> set ts \<union> set ts'" for x
    using that by (auto simp: filter_empty_conv)
  then have "\<not> private_notify n x" if "x \<in> set ts \<union> set ts'" for x
    using that by (simp add: holds_iff)
  with upsert show ?case
    by (auto simp: notify_inv_def known_notify_def scc_hash_map.entries_upsert [OF scc] split: if_splits) blast+
next
  case (notify s ts m r ts')
  show ?case
  proof (rule notify_inv_keep [OF notify.prems(2)])
    fix n
    assume "known_notify entries (s\<lparr>tasks := map (wake m) ts @ SetDone r # map (wake m) ts'\<rparr>) n"
    with notify.hyps show "known_notify entries s n"
      by (auto simp: known_notify_def bex_Un dest: wake_kinds(3))
  qed (use notify.hyps in \<open>auto simp: filter_map comp_def\<close>)
qed (auto simp: notify_inv_def known_notify_def)

lemma notify_inv_reachable:
  assumes scc: "scc_hash_map ops entries" and "store_reachable ops s"
  shows "notify_inv entries s"
  using assms(2)
proof (induction rule: store_reachable.induct)
  case init
  show ?case
    by (simp add: notify_inv_def known_notify_def scc_hash_map.entries_with_capacity [OF scc])
next
  case (step s t)
  from step.hyps(2) show ?case
  proof cases
    case task
    with notify_inv_task [OF scc _ notified_below_reachable [OF scc step.hyps(1)]] step.IH show ?thesis by blast
  next
    case (complete ts key i n ts' fut st r)
    from set_complete_entry [OF complete(3)] have "token_inner st \<noteq> Updating m" for m
      by (auto simp: is_updating_iff)
    then have "known_notify entries s m" if "known_notify entries t m" for m
      using that complete by (auto simp: known_notify_def set_update_def scc_hash_map.entries_update [OF scc]
          split: if_splits)
    then show ?thesis
      by (rule notify_inv_keep [OF step.IH]) (use complete in auto)
  qed (use step.IH in \<open>auto simp: notify_inv_def known_notify_def\<close>)
qed

lemma parked_owed:
  assumes scc: "scc_hash_map ops entries" and reach: "store_reachable ops s"
    and p: "p < length (tasks s)" "tasks s ! p = Parked key i n" and owned: "\<not> unowned n s"
  shows "\<exists>t \<in> set (tasks s). owes_notify n t"
proof -
  from p have "Parked key i n \<in> set (tasks s)"
    by (metis nth_mem)
  then have known: "known_notify entries s n"
    unfolding known_notify_def by (metis reader_notify.simps(2))
  with known_below [OF notified_below_reachable [OF scc reach]] owned
  obtain t where "t \<in> set (tasks s)" "holds_notify n t"
    by (auto simp: unowned_def)
  with known notify_inv_reachable [OF scc reach] show ?thesis
    by (auto simp: notify_inv_def holds_iff)
qed

text \<open>A reader past a turn of its loop stays past it; one that is owed its notification is woken.\<close>

fun past_turn :: "nat \<Rightarrow> ('k, 'v, 'e) store_task \<Rightarrow> bool" where
  "past_turn i (Reading _ j) = (i < j)"
| "past_turn i (HasRead _ j _) = (i < j)"
| "past_turn i (Parked _ j _) = (i < j)"
| "past_turn i (GetDone _) = True"
| "past_turn i _ = False"

definition owed_or_past :: "nat \<Rightarrow> 'k \<Rightarrow> nat \<Rightarrow> nat \<Rightarrow> ('k, 'v, 'e, 'm) store_sys \<Rightarrow> bool" where
  "owed_or_past p key i n s \<longleftrightarrow> p < length (tasks s) \<and>
     (tasks s ! p = Parked key i n \<and> (\<exists>t \<in> set (tasks s). owes_notify n t) \<or> past_turn i (tasks s ! p))"

lemma past_turn_move: "task_move ops m x y \<Longrightarrow> past_turn i x \<Longrightarrow> past_turn i y"
  by (induction rule: task_move.induct) (auto simp: read_next_def split: sum.splits)

lemma owed_task:
  assumes "store_task_step ops s t" and "p < length (tasks s)" and "tasks s ! p = Parked key i n"
    and "\<exists>u \<in> set (tasks s). owes_notify n u"
  shows "owed_or_past p key i n t"
  using assms
proof (induction rule: store_task_step.induct)
  case (create s ts k ts' u c)
  then show ?case
    by (auto simp: owed_or_past_def nth_append nth_Cons split: nat.splits if_splits)
next
  case (notify s ts m r ts')
  have "(map (wake m) ts @ SetDone r # map (wake m) ts') ! p = wake m (Parked key i n)"
    using notify by (auto simp: nth_append nth_Cons split: nat.splits if_splits)
  with notify show ?case
    by (cases "m = n") (auto simp: owed_or_past_def bex_Un)
qed (auto simp: owed_or_past_def nth_append nth_Cons split: nat.splits if_splits)

lemma owed_step:
  assumes "store_step ops s t" and "owed_or_past p key i n s"
  shows "owed_or_past p key i n t"
  using assms
proof (induction rule: store_step.induct)
  case (task s t)
  show ?case
  proof (cases "past_turn i (tasks s ! p)")
    case True
    with task store_task_step_moves [OF task.hyps] past_turn_move show ?thesis
      unfolding owed_or_past_def by metis
  next
    case False
    with task.prems owed_task [OF task.hyps] show ?thesis
      by (simp add: owed_or_past_def)
  qed
next
  case (complete s ts k j m ts' fut st r)
  then show ?case
    by (auto simp: owed_or_past_def nth_append nth_Cons split: nat.splits if_splits)
qed (auto simp: owed_or_past_def nth_append)

lemma owed_steps:
  assumes "(token_step env ops)\<^sup>*\<^sup>* s t" and "owed_or_past p key i n (tk_store s)"
  shows "owed_or_past p key i n (tk_store t)"
  using assms(1)
proof (induction rule: rtranclp_induct)
  case (step t u)
  with token_step_store [OF step.hyps(2)] owed_step show ?case by metis
qed (rule assms(2))

text \<open>A caller whose reader waits for a notification that nobody will send.\<close>

definition waits_in_vain :: "('n, 'u, 'p, 'te, 'e, 'm, 'net) token_sys \<Rightarrow> nat \<Rightarrow> bool" where
  "waits_in_vain s c \<longleftrightarrow> c < length (tk_callers s) \<and>
     (\<exists>target names p i n. tk_callers s ! c = InGet target names p \<and> p < length (tasks (tk_store s)) \<and>
        tasks (tk_store s) ! p = Parked names i n \<and> unowned n (tk_store s))"

lemma stuck_tasks:
  assumes "token_inv entries s" and "\<nexists>u. serve_step env ops s u" and "p < length (tasks (tk_store s))"
  shows "task_done (tasks (tk_store s) ! p) \<or> (\<exists>key i n. tasks (tk_store s) ! p = Parked key i n)"
  using task_can_step [OF assms(1) nth_mem [OF assms(3)], of env ops] assms(2) by blast

lemma stuck_unowned:
  assumes scc: "scc_hash_map ops entries" and reach: "token_reachable env ops s"
    and stuck: "\<nexists>u. serve_step env ops s u"
    and p: "p < length (tasks (tk_store s))" "tasks (tk_store s) ! p = Parked key i n"
  shows "unowned n (tk_store s)"
proof -
  have "\<not> holds_notify n t" if "t \<in> set (tasks (tk_store s))" for t
  proof -
    from that obtain q where "q < length (tasks (tk_store s))" "t = tasks (tk_store s) ! q"
      by (metis in_set_conv_nth)
    with stuck_tasks [OF token_inv_reachable [OF scc reach] stuck, of q]
    have "task_done t \<or> (\<exists>key i m. t = Parked key i m)"
      by simp
    then show ?thesis
      by (cases t) auto
  qed
  moreover have "Parked key i n \<in> set (tasks (tk_store s))"
    using p by (metis nth_mem)
  with notified_below_reachable [OF scc token_reachable_store [OF reach]] have "n < next_notify (tk_store s)"
    by (auto simp: notified_below_def)
  ultimately show ?thesis
    by (simp add: unowned_def)
qed

lemma stuck_not_owed:
  assumes scc: "scc_hash_map ops entries" and reach: "token_reachable env ops t"
    and stuck: "\<nexists>u. serve_step env ops t u" and parked: "tasks (tk_store t) ! p = Parked key i n"
    and early: "token_reachable env ops s" "(token_step env ops)\<^sup>*\<^sup>* s t"
      "p < length (tasks (tk_store s))" "tasks (tk_store s) ! p = Parked key i n"
  shows "unowned n (tk_store s)"
proof (rule ccontr)
  assume "\<not> unowned n (tk_store s)"
  with parked_owed [OF scc token_reachable_store [OF early(1)] early(3,4)] early(3,4)
  have "owed_or_past p key i n (tk_store s)"
    by (simp add: owed_or_past_def)
  from owed_steps [OF early(2) this] parked
  obtain x where "x \<in> set (tasks (tk_store t))" and owes: "owes_notify n x"
    by (auto simp: owed_or_past_def)
  then obtain q where "q < length (tasks (tk_store t))" "x = tasks (tk_store t) ! q"
    by (metis in_set_conv_nth)
  with stuck_tasks [OF token_inv_reachable [OF scc reach] stuck, of q]
  have "task_done x \<or> (\<exists>key i m. x = Parked key i m)"
    by simp
  with owes show False
    by (cases x) auto
qed

lemma stuck_callers:
  assumes scc: "scc_hash_map ops entries" and reach: "token_reachable env ops s"
    and stuck: "\<nexists>u. serve_step env ops s u" and c: "c < length (tk_callers s)"
  shows "(\<exists>target names r. tk_callers s ! c = TokenDone target names r) \<or> waits_in_vain s c"
proof -
  note inv = token_inv_reachable [OF scc reach]
  with c have just: "caller_justified s c (tk_callers s ! c)"
    by (simp add: token_inv_def)
  from c obtain cs cs' where callers: "tk_callers s = cs @ tk_callers s ! c # cs'"
    by (metis id_take_nth_drop)
  show ?thesis
  proof (cases "tk_callers s ! c")
    case (InGet target names p)
    with just have p: "p < length (tasks (tk_store s))" and task: "get_task s c names (tasks (tk_store s) ! p)"
      by simp_all
    have "tasks (tk_store s) ! p \<noteq> GetDone r" for r
    proof
      assume "tasks (tk_store s) ! p = GetDone r"
      moreover obtain u st where "get_returned target (tk_nf_id s) names r (tk_store s) = (u, st)"
        by fastforce
      ultimately show False
        using serve_step.got [OF callers [unfolded InGet] p, of r u st env ops] stuck by blast
    qed
    with stuck_tasks [OF inv stuck p] task obtain i n where "tasks (tk_store s) ! p = Parked names i n"
      by (cases "tasks (tk_store s) ! p") auto
    with stuck_unowned [OF scc reach stuck p] c p InGet show ?thesis
      by (auto simp: waits_in_vain_def)
  next
    case (InSet target inst names p)
    with just have p: "p < length (tasks (tk_store s))" and task: "set_task s c names (tasks (tk_store s) ! p)"
      by simp_all
    with stuck_tasks [OF inv stuck p] obtain r where "tasks (tk_store s) ! p = SetDone r"
      by (cases "tasks (tk_store s) ! p") auto
    with serve_step.returned [OF callers [unfolded InSet] p, of r env ops] stuck show ?thesis by blast
  qed blast
qed

lemma waits_in_vain_step:
  assumes "token_step env ops s t" and "waits_in_vain s c"
  shows "waits_in_vain t c \<and> tk_callers t ! c = tk_callers s ! c"
proof -
  from assms(2) obtain target names p i n where c: "c < length (tk_callers s)" "tk_callers s ! c = InGet target names p"
    and p: "p < length (tasks (tk_store s))" "tasks (tk_store s) ! p = Parked names i n" "unowned n (tk_store s)"
    by (auto simp: waits_in_vain_def)
  from assms(1) c p(2) have "c < length (tk_callers t) \<and> tk_callers t ! c = InGet target names p"
  proof cases
    case serve
    then show ?thesis
      by cases (use c p(2) in \<open>auto simp: nth_append nth_Cons split: if_splits nat.splits\<close>)
  qed (auto simp: nth_append)
  moreover from token_step_store [OF assms(1)] p
  have "p < length (tasks (tk_store t)) \<and> tasks (tk_store t) ! p = Parked names i n \<and> unowned n (tk_store t)"
    using parked_step [OF _ p(3) p(1,2)] unowned_step [OF _ p(3)] by auto
  ultimately show ?thesis
    using c by (auto simp: waits_in_vain_def)
qed

lemma waits_in_vain_forever:
  assumes "(token_step env ops)\<^sup>*\<^sup>* s t" and "waits_in_vain s c"
  shows "waits_in_vain t c \<and> tk_callers t ! c = tk_callers s ! c"
  using assms(1)
  by (induction rule: rtranclp_induct) (use assms(2) waits_in_vain_step in fastforce)+

lemma serve_reachable: "(serve_step env ops)\<^sup>*\<^sup>* s t \<Longrightarrow> token_reachable env ops s \<Longrightarrow> token_reachable env ops t"
  by (induction rule: rtranclp_induct) (auto intro: token_reachable.step token_step.serve)

subsection \<open>A caller that is alone\<close>

text \<open>
  The sequential \<open>get_token\<close> of \<open>Nrf_Client\<close> is a run of this system: when no operation of
  the store is under way, a call can go through with the same result, the same map, counter and
  network.
\<close>

lemma wake_done: "list_all task_done ts \<Longrightarrow> map (wake n) ts = ts"
proof (induction ts)
  case (Cons t ts)
  then show ?case by (cases t) simp_all
qed simp

lemma lone_set_runs:
  fixes s :: "('n, 'u, 'p, 'te, 'e, 'm, 'net) token_sys"
  assumes callers: "tk_callers s = cs @ [InSet target inst names (length ts)]"
    and tasks: "tasks (tk_store s) = ts @ [SetStarted names]" and idle: "list_all task_done ts"
    and free: "(set_check ops names (store_map (tk_store s)) ::
      (access_token_rsp, ('p, 'te, 'e) nrf_authorization_error) set_result option) = None"
    and request: "authentication_request env (init_url (tk_init s)) inst (init_source (tk_init s)) target names
      (tk_net s) = Some (fut, net)"
    and set: "token_set ops names fut (next_notify (tk_store s)) (store_counter (tk_store s)) (store_map (tk_store s)) =
      (r, c, m)"
  shows "\<exists>t. (serve_step env ops)\<^sup>*\<^sup>* s t \<and> tk_callers t = cs @ [TokenDone target names (map_err TokenStoreError r)] \<and>
    store_map (tk_store t) = m \<and> store_counter (tk_store t) = c \<and>
    next_notify (tk_store t) = Suc (next_notify (tk_store s)) \<and> tk_net t = net"
proof -
  let ?n = "next_notify (tk_store s)" and ?m = "store_map (tk_store s)"
  let ?i = "fst (increment (store_counter (tk_store s)))"
  let ?up = "upsert_async ops names \<lparr>token_id = ?i, token_inner = Updating ?n\<rparr> ?m"
  obtain st a where "(set_complete ?i fut :: access_token_rsp token_state \<times>
      (access_token_rsp, ('p, 'te, 'e) nrf_authorization_error) set_result) = (st, a)"
    by fastforce
  with set free have c: "c = snd (increment (store_counter (tk_store s)))"
    and st: "set_complete ?i fut = (st, r)" and m: "m = set_update ops names st ?up"
    by (simp_all add: token_set_def token_state_new_def Let_def split_beta)
  let ?s = "\<lambda>m u callers net log. \<lparr>tk_init = tk_init s, tk_nf_id = tk_nf_id s,
    tk_store = \<lparr>store_map = m, store_counter = c, next_notify = Suc ?n, tasks = ts @ [u]\<rparr>,
    tk_callers = callers, tk_net = net, tk_log = log\<rparr>"
  let ?a = "\<lambda>m u. ?s m u (tk_callers s) (tk_net s) (tk_log s)"
  let ?b = "\<lambda>u callers. ?s m u callers net (tk_log s @ [(target, inst, names, fut)])"
  have "create_next names ?n (store_counter (tk_store s)) = (SetChecking names ?i ?n, c)"
    by (simp add: create_next_def token_state_new_def c split_beta)
  from store_task_step.create [OF tasks this, of ops]
  have "store_task_step ops (tk_store s) (tk_store (?a ?m (SetChecking names ?i ?n)))"
    by (cases "tk_store s") simp
  from serve_step.store [OF this, of env] have "serve_step env ops s (?a ?m (SetChecking names ?i ?n))"
    by (cases s) simp
  moreover have "serve_step env ops (?a ?m (SetChecking names ?i ?n)) (?a ?m (SetUpserting names ?i ?n))"
    using serve_step.store [OF store_task_step.check [of "tk_store (?a ?m (SetChecking names ?i ?n))" ts names ?i ?n "[]" ops],
        of env] free
    by (simp add: check_next_def)
  moreover have "serve_step env ops (?a ?m (SetUpserting names ?i ?n)) (?a ?up (SetAwaiting names ?i ?n))"
    using serve_step.store [OF store_task_step.upsert [of "tk_store (?a ?m (SetUpserting names ?i ?n))" ts names ?i ?n "[]" ops],
        of env] by simp
  moreover have "serve_step env ops (?a ?up (SetAwaiting names ?i ?n)) (?b (SetNotifying ?n r) (tk_callers s))"
    using serve_step.answered [of target inst names ts "?a ?up (SetAwaiting names ?i ?n)" names ?i ?n "[]" env fut net st r ops]
      callers request st m by simp
  moreover have "serve_step env ops (?b (SetNotifying ?n r) (tk_callers s)) (?b (SetDone r) (tk_callers s))"
    using serve_step.store [OF store_task_step.notify [of "tk_store (?b (SetNotifying ?n r) (tk_callers s))" ts ?n r "[]" ops],
        of env] by (simp add: wake_done [OF idle])
  moreover have "serve_step env ops (?b (SetDone r) (tk_callers s))
      (?b (SetDone r) (cs @ [TokenDone target names (map_err TokenStoreError r)]))"
    using serve_step.returned [of "?b (SetDone r) (tk_callers s)" cs target inst names "length ts" "[]" r env ops] callers
    by simp
  ultimately have "(serve_step env ops)\<^sup>*\<^sup>* s (?b (SetDone r) (cs @ [TokenDone target names (map_err TokenStoreError r)]))"
    by (meson converse_rtranclp_into_rtranclp rtranclp.rtrancl_refl)
  then show ?thesis
    by (intro exI [where x = "?b (SetDone r) (cs @ [TokenDone target names (map_err TokenStoreError r)])"]) simp
qed

lemma lone_get_runs:
  fixes s :: "('n, 'u, 'p, 'te, 'e, 'm, 'net) token_sys"
  assumes turn: "get_turn ops names (store_map (tk_store s)) = Inl r"
    and nxt: "get_returned target (tk_nf_id s) names r
      ((tk_store s)\<lparr>tasks := tasks (tk_store s) @ [GetDone r]\<rparr>) = (u, st)"
  shows "(token_step env ops)\<^sup>*\<^sup>* s (s\<lparr>tk_store := st, tk_callers := tk_callers s @ [u]\<rparr>)"
proof -
  let ?ts = "tasks (tk_store s)"
  let ?s = "\<lambda>u. \<lparr>tk_init = tk_init s, tk_nf_id = tk_nf_id s, tk_store = (tk_store s)\<lparr>tasks := ?ts @ [u]\<rparr>,
    tk_callers = tk_callers s @ [InGet target names (length ?ts)], tk_net = tk_net s, tk_log = tk_log s\<rparr>"
  have "token_step env ops s (?s (Reading names 1))"
    using token_step.call [of env ops s target names] by (cases s) simp
  moreover have "token_step env ops (?s (Reading names 1)) (?s (GetDone r))"
    using serve_step.store [OF store_task_step.read [of "tk_store (?s (Reading names 1))" ?ts names 1 "[]" ops],
        of env] turn
    by (intro token_step.serve) (simp add: read_next_def)
  moreover have "token_step env ops (?s (GetDone r)) (s\<lparr>tk_store := st, tk_callers := tk_callers s @ [u]\<rparr>)"
    using serve_step.got [of "?s (GetDone r)" "tk_callers s" target names "length ?ts" "[]" r u st env ops] nxt
    by (intro token_step.serve) (cases s; simp)
  ultimately show ?thesis
    by (meson converse_rtranclp_into_rtranclp rtranclp.rtrancl_refl)
qed

lemma idle_turn:
  assumes scc: "scc_hash_map ops entries" and "token_reachable env ops s"
    and idle: "list_all task_done (tasks (tk_store s))"
  shows "\<exists>r. get_turn ops names (store_map (tk_store s)) = Inl r"
    and "set_check ops names (store_map (tk_store s)) = None"
proof -
  have "\<not> is_updating t" if "entries (store_map (tk_store s)) names = Some t" for t
  proof
    assume "is_updating t"
    with that store_inv_reachable [OF scc token_reachable_store [OF assms(2)]]
    obtain n where "SetAwaiting names (token_id t) n \<in> set (tasks (tk_store s))"
      by (auto simp: is_updating_iff store_inv_def)
    with idle show False
      by (force simp: list_all_iff)
  qed
  then show "\<exists>r. get_turn ops names (store_map (tk_store s)) = Inl r"
    and "set_check ops names (store_map (tk_store s)) = None"
    by (auto simp: get_turn_def set_check_def is_updating_iff scc_hash_map.read_eq [OF scc]
        scc_hash_map.get_eq [OF scc] split: option.splits token_state_inner.splits)
qed

text \<open>The client that the sequential functions work on.\<close>

definition client_of :: "('n, 'u, 'm) nrf_client \<Rightarrow> ('n, 'u, 'p, 'te, 'e, 'm, 'net) token_sys \<Rightarrow> bool" where
  "client_of client s \<longleftrightarrow>
     init_url client = init_url (tk_init s) \<and> init_source client = init_source (tk_init s) \<and>
     nrf_get_nf_id client = tk_nf_id s \<and> token_map client = store_map (tk_store s) \<and>
     token_counter client = store_counter (tk_store s) \<and> token_notify client = next_notify (tk_store s)"

lemma lone_call_runs:
  fixes s :: "('n, 'u, 'p, 'te, 'e, 'm, 'net) token_sys"
    and env :: "('n, 'u, 'prof, 'v, 'q, 's, 'p, 'te, 'e, 'resp, 'net) nrf_env"
  assumes scc: "scc_hash_map ops entries" and reach: "token_reachable env ops s"
    and idle: "list_all task_done (tasks (tk_store s))" and client: "client_of client s"
    and run: "get_token env ops target names (\<lambda>_. token_map client) client (tk_net s) = Some (r, client', net)"
  shows "\<exists>t. (token_step env ops)\<^sup>*\<^sup>* s t \<and> tk_callers t = tk_callers s @ [TokenDone target names r] \<and>
    store_map (tk_store t) = token_map client' \<and> store_counter (tk_store t) = token_counter client' \<and>
    next_notify (tk_store t) = token_notify client' \<and> tk_net t = net"
proof -
  obtain g :: "(access_token_rsp, ('p, 'te, 'e) nrf_authorization_error) get_result"
    where turn: "get_turn ops names (store_map (tk_store s)) = Inl g"
    using idle_turn(1) [OF scc reach idle] by blast
  with client have get: "token_get ops names (\<lambda>_. token_map client) = g"
    by (simp add: token_get_def get_loop_done client_of_def)
  obtain u :: "('n, 'p, 'te, 'e) token_caller" and st where
    nxt: "get_returned target (tk_nf_id s) names g ((tk_store s)\<lparr>tasks := tasks (tk_store s) @ [GetDone g]\<rparr>) = (u, st)"
    by fastforce
  let ?t = "s\<lparr>tk_store := st, tk_callers := tk_callers s @ [u]\<rparr>"
  note got = lone_get_runs [OF turn nxt, of env]
  show ?thesis
  proof (cases "g = Ok None")
    case False
    with run get have "client' = client" "net = tk_net s"
      "(\<exists>e. g = Ok (Some e) \<and> r = Ok e) \<or> (\<exists>e. g = Err e \<and> r = Err (TokenStoreError e))"
      by (auto simp: get_token_def split: result.splits option.splits)
    with nxt client have "u = TokenDone target names r" "store_map st = token_map client'"
      "store_counter st = token_counter client'" "next_notify st = token_notify client'"
      by (auto simp: get_returned_def client_of_def)
    with got \<open>net = tk_net s\<close> show ?thesis
      by (intro exI [where x = ?t]) simp
  next
    case True
    let ?ts = "tasks (tk_store s) @ [GetDone g]"
    from nxt True have u: "u = InSet target (tk_nf_id s) names (length ?ts)"
      and st: "st = (tk_store s)\<lparr>tasks := ?ts @ [SetStarted names]\<rparr>"
      by (simp_all add: get_returned_def)
    obtain fut net' a c m where request: "authentication_request env (init_url (tk_init s)) (tk_nf_id s)
        (init_source (tk_init s)) target names (tk_net s) = Some (fut, net')"
      and set: "token_set ops names fut (next_notify (tk_store s)) (store_counter (tk_store s)) (store_map (tk_store s)) = (a, c, m)"
      using authentication_request_runs [of env "init_url (tk_init s)" "tk_nf_id s" "init_source (tk_init s)" target names "tk_net s"]
      by (metis prod_cases3)
    have free: "(set_check ops names (store_map (tk_store s)) ::
        (access_token_rsp, ('p, 'te, 'e) nrf_authorization_error) set_result option) = None"
      by (rule idle_turn(2) [OF scc reach idle])
    from run get True client request set free have "r = map_err TokenStoreError a" "net = net'"
      "token_map client' = m" "token_counter client' = c" "token_notify client' = Suc (next_notify (tk_store s))"
      by (auto simp: get_token_def client_of_def Let_def)
    moreover obtain t where "(serve_step env ops)\<^sup>*\<^sup>* ?t t"
      "tk_callers t = tk_callers s @ [TokenDone target names (map_err TokenStoreError a)]"
      "store_map (tk_store t) = m" "store_counter (tk_store t) = c"
      "next_notify (tk_store t) = Suc (next_notify (tk_store s))" "tk_net t = net'"
      using lone_set_runs [of ?t "tk_callers s" target "tk_nf_id s" names ?ts ops env fut net' a c m] u st idle free request set
      by auto
    moreover have "(token_step env ops)\<^sup>*\<^sup>* ?t t"
      using mono_rtranclp [of "serve_step env ops" "token_step env ops"] calculation token_step.serve by blast
    ultimately show ?thesis
      using got by (intro exI [where x = t]) auto
  qed
qed

text \<open>
  C18: every call is served or lost.  Without new calls there is no infinite run, from any
  reachable state; and when nothing is left to do, every call of \<open>get_token\<close> has returned, or
  its reader waits for a notification that had been sent before it began to wait: in every
  earlier state in which it was waiting already, on any run that leads here, no writer had the
  notification any more.  A reader that waits while a writer still has to notify it is therefore
  woken.  A lost reader stays where it is in every later state, whatever is called and answered
  afterwards.
\<close>

theorem token_requests_settle:
  assumes "scc_hash_map ops entries" and "token_reachable env ops s"
  shows "(\<nexists>run. run 0 = s \<and> (\<forall>i. serve_step env ops (run i) (run (Suc i)))) \<and>
    (\<forall>t. (serve_step env ops)\<^sup>*\<^sup>* s t \<and> (\<nexists>u. serve_step env ops t u) \<longrightarrow>
      (\<forall>c < length (tk_callers t).
        (\<exists>target names r. tk_callers t ! c = TokenDone target names r) \<or>
        (\<exists>target names p i n. tk_callers t ! c = InGet target names p \<and> p < length (tasks (tk_store t)) \<and>
          tasks (tk_store t) ! p = Parked names i n \<and>
          (\<forall>s0. token_reachable env ops s0 \<and> (token_step env ops)\<^sup>*\<^sup>* s0 t \<and> p < length (tasks (tk_store s0)) \<and>
             tasks (tk_store s0) ! p = Parked names i n \<longrightarrow> unowned n (tk_store s0)) \<and>
          (\<forall>u. (token_step env ops)\<^sup>*\<^sup>* t u \<longrightarrow> tk_callers u ! c = InGet target names p))))"
proof (intro conjI allI impI)
  show "\<nexists>run. run 0 = s \<and> (\<forall>i. serve_step env ops (run i) (run (Suc i)))"
    using serving_ends by blast
next
  fix t c
  assume run: "(serve_step env ops)\<^sup>*\<^sup>* s t \<and> (\<nexists>u. serve_step env ops t u)" and c: "c < length (tk_callers t)"
  with serve_reachable assms(2) have reach: "token_reachable env ops t" by blast
  from stuck_callers [OF assms(1) reach _ c] run
  consider "\<exists>target names r. tk_callers t ! c = TokenDone target names r" | "waits_in_vain t c"
    by blast
  then show "(\<exists>target names r. tk_callers t ! c = TokenDone target names r) \<or>
    (\<exists>target names p i n. tk_callers t ! c = InGet target names p \<and> p < length (tasks (tk_store t)) \<and>
      tasks (tk_store t) ! p = Parked names i n \<and>
      (\<forall>s0. token_reachable env ops s0 \<and> (token_step env ops)\<^sup>*\<^sup>* s0 t \<and> p < length (tasks (tk_store s0)) \<and>
         tasks (tk_store s0) ! p = Parked names i n \<longrightarrow> unowned n (tk_store s0)) \<and>
      (\<forall>u. (token_step env ops)\<^sup>*\<^sup>* t u \<longrightarrow> tk_callers u ! c = InGet target names p))"
  proof cases
    case 2
    then obtain target names p i n where here: "tk_callers t ! c = InGet target names p"
      "p < length (tasks (tk_store t))" "tasks (tk_store t) ! p = Parked names i n"
      by (auto simp: waits_in_vain_def)
    have "tk_callers u ! c = InGet target names p" if "(token_step env ops)\<^sup>*\<^sup>* t u" for u
      using waits_in_vain_forever [OF that 2] here(1) by simp
    moreover have "unowned n (tk_store s0)"
      if "token_reachable env ops s0" "(token_step env ops)\<^sup>*\<^sup>* s0 t" "p < length (tasks (tk_store s0))"
        "tasks (tk_store s0) ! p = Parked names i n" for s0
      using stuck_not_owed [OF assms(1) reach _ here(3) that] run by blast
    ultimately show ?thesis
      using here by blast
  qed blast
qed

theorem token_requests_settle_witness:
  "token_reachable (demo_nrf True) map_ops demo_busy \<and> tk_callers demo_busy ! 0 = InSet NfTypeNrf 3 demo_names 2 \<and>
   (\<nexists>run. run 0 = demo_busy \<and> (\<forall>i. serve_step (demo_nrf True) map_ops (run i) (run (Suc i))))"
proof -
  have "tk_callers demo_busy ! 0 = InSet NfTypeNrf 3 demo_names 2"
    by (simp add: demo_busy_def demo_tk_def)
  with token_requests_settle [OF map_scc.scc_hash_map_axioms demo_busy_reachable] demo_busy_reachable show ?thesis
    by blast
qed

end
