(* ===== verification/Token_Failure.thy ===== *)
theory Token_Failure
  imports Token_Requests
begin

text \<open>
  A refused token request in the system of \<open>Token_Requests\<close>: the store keeps the last answer of
  the NRF for the names of a request, and a failure that is kept is never asked about again.
\<close>

subsection \<open>The store keeps the last answer\<close>

definition answers ::
  "('n, 'u, 'p, 'te, 'e, 'm, 'net) token_sys \<Rightarrow> service_name list \<Rightarrow>
     (access_token_rsp, ('p, 'te, 'e) nrf_authorization_error) result list" where
  "answers s names = map (\<lambda>(_, _, _, fut). fut) (filter (\<lambda>(_, _, ns, _). ns = names) (tk_log s))"

primrec kept_state :: "(access_token_rsp, 'e) result \<Rightarrow> access_token_rsp token_state_inner" where
  "kept_state (Ok rsp) = TokenReady rsp"
| "kept_state (Err _) = Failed"

definition answer_kept ::
  "('n, 'u, 'p, 'te, 'e, 'm, 'net) token_sys \<Rightarrow> service_name list \<Rightarrow> access_token_rsp token_state option \<Rightarrow> bool" where
  "answer_kept s names entry = (case entry of
     None \<Rightarrow> answers s names = [] \<and> (\<forall>i n. SetAwaiting names i n \<notin> set (tasks (tk_store s)))
   | Some u \<Rightarrow> is_updating u \<or> answers s names \<noteq> [] \<and> token_inner u = kept_state (last (answers s names)))"

lemma set_complete_kept: "set_complete i fut = (st, r) \<Longrightarrow> token_inner st = kept_state fut"
  by (cases fut) (auto simp: set_complete_def Let_def)

lemma kept_same:
  assumes "answer_kept s names entry" and "tk_log t = tk_log s"
    and "\<And>i n. SetAwaiting names i n \<in> set (tasks (tk_store t)) \<Longrightarrow> SetAwaiting names i n \<in> set (tasks (tk_store s))"
  shows "answer_kept t names entry"
  using assms by (auto simp: answer_kept_def answers_def split: option.splits)

lemma kept_store:
  assumes scc: "scc_hash_map ops entries" and step: "store_task_step ops (tk_store s) st"
    and kept: "answer_kept s names (entries (store_map (tk_store s)) names)"
  shows "answer_kept (s\<lparr>tk_store := st\<rparr>) names (entries (store_map st) names)"
  using step
proof cases
  case (create ts key ts' u c)
  then have "SetAwaiting names i n \<noteq> u" for i n
    by (auto simp: create_next_def split_beta)
  with create show ?thesis
    using kept_same [OF kept, of "s\<lparr>tk_store := st\<rparr>"] by auto
next
  case (upsert ts key i n ts')
  show ?thesis
  proof (cases "names = key")
    case True
    with upsert show ?thesis
      by (simp add: scc_hash_map.entries_upsert [OF scc] answer_kept_def is_updating_def)
  next
    case False
    with upsert show ?thesis
      using kept_same [OF kept, of "s\<lparr>tk_store := st\<rparr>"] by (auto simp: scc_hash_map.entries_upsert [OF scc])
  qed
qed (use kept_same [OF kept, of "s\<lparr>tk_store := st\<rparr>"] in
    \<open>auto simp: wake_awaiting read_next_def check_next_def split: if_splits sum.splits option.splits\<close>)

lemma kept_answered:
  assumes scc: "scc_hash_map ops entries" and inv: "token_inv entries s"
    and caller: "InSet target inst names' (length ts) \<in> set (tk_callers s)"
    and tasks: "tasks (tk_store s) = ts @ SetAwaiting key i n # ts'"
    and complete: "set_complete i fut = (st, r)"
    and kept: "answer_kept s names (entries (store_map (tk_store s)) names)"
  shows "answer_kept (s\<lparr>
      tk_store := (tk_store s)\<lparr>store_map := set_update ops key st (store_map (tk_store s)),
        tasks := ts @ SetNotifying n r # ts'\<rparr>,
      tk_net := net, tk_log := tk_log s @ [(target, inst, names', fut)]\<rparr>) names
    (entries (set_update ops key st (store_map (tk_store s))) names)" (is "answer_kept ?t names _")
proof -
  from caller obtain c where "c < length (tk_callers s)" "tk_callers s ! c = InSet target inst names' (length ts)"
    by (metis in_set_conv_nth)
  with inv have "caller_justified s c (InSet target inst names' (length ts))"
    by (metis token_inv_def)
  with tasks have key: "key = names'" by simp
  show ?thesis
  proof (cases "names = key")
    case True
    with kept tasks have "entries (store_map (tk_store s)) names \<noteq> None"
      by (auto simp: answer_kept_def split: option.splits)
    with True key set_complete_kept [OF complete] show ?thesis
      by (auto simp: answer_kept_def answers_def set_update_def scc_hash_map.entries_update [OF scc])
  next
    case False
    then have "answers ?t names = answers s names"
      by (simp add: answers_def key)
    with False kept tasks show ?thesis
      by (auto simp: answer_kept_def set_update_def scc_hash_map.entries_update [OF scc] split: option.splits)
  qed
qed

lemma answer_kept_reachable:
  assumes scc: "scc_hash_map ops entries" and "token_reachable env ops s"
  shows "answer_kept s names (entries (store_map (tk_store s)) names)"
  using assms(2)
proof (induction rule: token_reachable.induct)
  case init
  show ?case
    by (simp add: answer_kept_def answers_def token_sys_new_def scc_hash_map.entries_with_capacity [OF scc])
next
  case (step s t)
  from step.hyps(2) show ?case
  proof cases
    case serve
    then show ?thesis
    proof cases
      case (store st)
      with kept_store [OF scc store(2) step.IH] show ?thesis by simp
    next
      case (got cs target names' p cs' r c st)
      then have "store_map st = store_map (tk_store s)"
        "\<And>i n. SetAwaiting names i n \<in> set (tasks st) \<Longrightarrow> SetAwaiting names i n \<in> set (tasks (tk_store s))"
        by (auto simp: get_returned_def split: result.splits option.splits)
      with got kept_same [OF step.IH, of t] show ?thesis by simp
    next
      case (answered target inst names' ts key i n ts' fut net st r)
      with kept_answered [OF scc token_inv_reachable [OF scc step.hyps(1)] answered(2,3,5) step.IH] show ?thesis
        by simp
    qed (use kept_same [OF step.IH, of t] in simp)
  qed (use kept_same [OF step.IH, of t] in auto)
qed

text \<open>When no call for some names is under way, the entry for them is the last answer.\<close>

definition calls_over :: "('n, 'u, 'p, 'te, 'e, 'm, 'net) token_sys \<Rightarrow> service_name list \<Rightarrow> bool" where
  "calls_over s names \<longleftrightarrow> (\<forall>c < length (tk_callers s). caller_names (tk_callers s ! c) = names \<longrightarrow>
     (\<exists>target r. tk_callers s ! c = TokenDone target names r))"

lemma failure_kept:
  assumes scc: "scc_hash_map ops entries" and reach: "token_reachable env ops s"
    and over: "calls_over s names" and last: "answers s names \<noteq> []" "last (answers s names) = Err err"
  obtains u where "entries (store_map (tk_store s)) names = Some u" "token_inner u = Failed"
proof -
  note kept = answer_kept_reachable [OF scc reach, of names]
  with last(1) obtain u where u: "entries (store_map (tk_store s)) names = Some u"
    by (auto simp: answer_kept_def split: option.splits)
  have "\<not> is_updating u"
  proof
    assume "is_updating u"
    with u store_inv_reachable [OF scc token_reachable_store [OF reach]]
    obtain n where "SetAwaiting names (token_id u) n \<in> set (tasks (tk_store s))"
      by (auto simp: is_updating_iff store_inv_def)
    with token_inv_reachable [OF scc reach] obtain p c where "c < length (tk_callers s)"
      "caller_task (tk_callers s ! c) = Some p" "caller_names (tk_callers s ! c) = names"
      by (rule caller_of_task)
    moreover from this over obtain target r where "tk_callers s ! c = TokenDone target names r"
      unfolding calls_over_def by blast
    ultimately show False by simp
  qed
  with kept u last(2) that show thesis
    by (auto simp: answer_kept_def)
qed

subsection \<open>A kept failure\<close>

text \<open>A call that has found the failure, or is about to read it.\<close>

inductive finds_failure ::
  "('p, 'te, 'e, 'm) token_store_sys \<Rightarrow> service_name list \<Rightarrow> u32 \<Rightarrow> ('n, 'p, 'te, 'e) token_caller \<Rightarrow> bool"
  for st names i where
  reads: "\<lbrakk>p < length (tasks st); tasks st ! p = Reading names 1\<rbrakk> \<Longrightarrow>
    finds_failure st names i (InGet target names p)"
| has_read: "\<lbrakk>p < length (tasks st); tasks st ! p = GetDone (Err (StoreReadError i))\<rbrakk> \<Longrightarrow>
    finds_failure st names i (InGet target names p)"
| returned: "finds_failure st names i (TokenDone target names (Err (TokenStoreError (StoreReadError i))))"

lemma finds_failureD:
  assumes "finds_failure st names i v"
  shows "(\<exists>target p. v = InGet target names p \<and> p < length (tasks st) \<and>
      (tasks st ! p = Reading names 1 \<or> tasks st ! p = GetDone (Err (StoreReadError i)))) \<or>
    (\<exists>target. v = TokenDone target names (Err (TokenStoreError (StoreReadError i))))"
  using assms by cases auto

text \<open>From a state with \<open>k\<close> callers on: the failure \<open>u\<close> is kept, and the later calls find it.\<close>

definition failing ::
  "('m \<Rightarrow> service_name list \<Rightarrow> access_token_rsp token_state option) \<Rightarrow> service_name list \<Rightarrow>
     access_token_rsp token_state \<Rightarrow> nat \<Rightarrow> ('n, 'u, 'p, 'te, 'e, 'm, 'net) token_sys \<Rightarrow> bool" where
  "failing entries names u k s \<longleftrightarrow> entries (store_map (tk_store s)) names = Some u \<and> k \<le> length (tk_callers s) \<and>
     (\<forall>c < k. caller_names (tk_callers s ! c) = names \<longrightarrow> caller_task (tk_callers s ! c) = None) \<and>
     (\<forall>c < length (tk_callers s). k \<le> c \<and> caller_names (tk_callers s ! c) = names \<longrightarrow>
        finds_failure (tk_store s) names (token_id u) (tk_callers s ! c))"

lemma failingD:
  assumes "failing entries names u k s" and "c < length (tk_callers s)" and "caller_names (tk_callers s ! c) = names"
  shows "caller_task (tk_callers s ! c) = None \<or> finds_failure (tk_store s) names (token_id u) (tk_callers s ! c)"
  using assms unfolding failing_def by (cases "c < k") auto

lemma failing_later:
  assumes "failing entries names u k s" and "c < length (tk_callers s)" and "k \<le> c"
    and "caller_names (tk_callers s ! c) = names"
  shows "finds_failure (tk_store s) names (token_id u) (tk_callers s ! c)"
  using assms unfolding failing_def by blast

lemma failing_no_set:
  assumes "failing entries names u k s"
  shows "InSet target inst names p \<notin> set (tk_callers s)"
proof
  assume "InSet target inst names p \<in> set (tk_callers s)"
  then obtain c where "c < length (tk_callers s)" "tk_callers s ! c = InSet target inst names p"
    by (metis in_set_conv_nth)
  with failingD [OF assms, of c] show False
    by (auto elim: finds_failure.cases)
qed

lemma finds_failure_tasks:
  assumes "finds_failure st names i u"
    and "\<And>p. p < length (tasks st) \<Longrightarrow> p < length (tasks st')"
    and "\<And>p. p < length (tasks st) \<Longrightarrow> tasks st ! p = Reading names 1 \<Longrightarrow>
      tasks st' ! p = Reading names 1 \<or> tasks st' ! p = GetDone (Err (StoreReadError i))"
    and "\<And>p. p < length (tasks st) \<Longrightarrow> tasks st ! p = GetDone (Err (StoreReadError i)) \<Longrightarrow>
      tasks st' ! p = GetDone (Err (StoreReadError i))"
  shows "finds_failure st' names i u"
  using assms(1)
proof cases
  case (reads p target)
  with assms(2,3) [of p] show ?thesis
    by (auto intro: finds_failure.intros)
next
  case (has_read p target)
  with assms(2,4) [of p] show ?thesis
    by (auto intro: finds_failure.intros)
qed (auto intro: finds_failure.intros)

text \<open>The callers stay; the entry for the names stays, and so do the tasks of the readers.\<close>

lemma failing_keep:
  fixes s t :: "('n, 'u, 'p, 'te, 'e, 'm, 'net) token_sys"
  assumes "failing entries names u k s" and "tk_callers t = tk_callers s"
    and "entries (store_map (tk_store t)) names = entries (store_map (tk_store s)) names"
    and "\<And>v :: ('n, 'p, 'te, 'e) token_caller.
      finds_failure (tk_store s) names (token_id u) v \<Longrightarrow> finds_failure (tk_store t) names (token_id u) v"
  shows "failing entries names u k t"
proof -
  from assms(1) have "finds_failure (tk_store t) names (token_id u) (tk_callers s ! c)"
    if "c < length (tk_callers s)" "k \<le> c" "caller_names (tk_callers s ! c) = names" for c
    using that by (intro assms(4) failing_later [OF assms(1)])
  with assms(1-3) show ?thesis
    unfolding failing_def by simp
qed

lemma failing_store:
  assumes scc: "scc_hash_map ops entries" and inv: "token_inv entries s"
    and step: "store_task_step ops (tk_store s) st" and failing: "failing entries names u k s"
    and u: "token_inner u = Failed"
  shows "failing entries names u k (s\<lparr>tk_store := st\<rparr>)"
proof (rule failing_keep [OF failing])
  from failing have entry: "entries (store_map (tk_store s)) names = Some u"
    by (simp add: failing_def)
  show "entries (store_map (tk_store (s\<lparr>tk_store := st\<rparr>))) names = entries (store_map (tk_store s)) names"
    using step
  proof cases
    case (upsert ts key i n ts')
    then have p: "length ts < length (tasks (tk_store s))" "tasks (tk_store s) ! length ts = SetUpserting key i n"
      by simp_all
    then have "\<not> task_done (tasks (tk_store s) ! length ts)"
      by simp
    with inv p(1) obtain c where c: "c < length (tk_callers s)" "caller_task (tk_callers s ! c) = Some (length ts)"
      unfolding token_inv_def by blast
    with inv have "caller_justified s c (tk_callers s ! c)"
      by (simp add: token_inv_def)
    with c(2) p obtain target inst where "tk_callers s ! c = InSet target inst key (length ts)"
      by (cases "tk_callers s ! c") auto
    with c(1) failing_no_set [OF failing] have "key \<noteq> names"
      by (metis nth_mem)
    with upsert show ?thesis
      by (simp add: scc_hash_map.entries_upsert [OF scc])
  qed simp_all
  fix v
  assume "finds_failure (tk_store s) names (token_id u) v"
  then have "finds_failure st names (token_id u) v"
  proof (rule finds_failure_tasks)
    fix p
    assume p: "p < length (tasks (tk_store s))"
    with store_task_step_moves [OF step] show "p < length (tasks st)" by simp
    from p store_task_step_moves [OF step]
    have move: "task_move ops (store_map (tk_store s)) (tasks (tk_store s) ! p) (tasks st ! p)" by simp
    show "tasks st ! p = Reading names 1 \<or> tasks st ! p = GetDone (Err (StoreReadError (token_id u)))"
      if "tasks (tk_store s) ! p = Reading names 1"
      using move that entry u
      by cases (auto simp: read_next_def get_turn_def scc_hash_map.read_eq [OF scc])
    show "tasks st ! p = GetDone (Err (StoreReadError (token_id u)))"
      if "tasks (tk_store s) ! p = GetDone (Err (StoreReadError (token_id u)))"
      using move that by cases auto
  qed
  then show "finds_failure (tk_store (s\<lparr>tk_store := st\<rparr>)) names (token_id u) v" by simp
qed simp

lemma finds_failure_append:
  assumes "finds_failure st names i v" and "tasks st' = tasks st @ new"
  shows "finds_failure st' names i v"
  by (rule finds_failure_tasks [OF assms(1)]) (simp_all add: assms(2) nth_append)

lemma failing_caller:
  assumes failing: "failing entries names u k s"
    and same: "store_map (tk_store t) = store_map (tk_store s)" "tasks (tk_store t) = tasks (tk_store s) @ new"
      "length (tk_callers s) \<le> length (tk_callers t)"
    and others: "\<And>c. c < length (tk_callers t) \<Longrightarrow> c \<noteq> j \<Longrightarrow>
      c < length (tk_callers s) \<and> tk_callers t ! c = tk_callers s ! c"
    and here: "caller_names (tk_callers t ! j) = names \<Longrightarrow>
      k \<le> j \<and> finds_failure (tk_store t) names (token_id u) (tk_callers t ! j)"
  shows "failing entries names u k t"
proof -
  have old: "c < length (tk_callers s)" "tk_callers t ! c = tk_callers s ! c" if "c < length (tk_callers t)" "c \<noteq> j" for c
    using others [OF that] by simp_all
  have "finds_failure (tk_store t) names (token_id u) (tk_callers t ! c)"
    if c: "c < length (tk_callers t)" "k \<le> c" "caller_names (tk_callers t ! c) = names" for c
  proof (cases "c = j")
    case False
    with c old [of c] failing_later [OF failing, of c]
    have "finds_failure (tk_store s) names (token_id u) (tk_callers t ! c)"
      by simp
    then show ?thesis
      by (rule finds_failure_append [OF _ same(2)])
  qed (use c here in simp)
  moreover have "caller_task (tk_callers t ! c) = None" if "c < k" "caller_names (tk_callers t ! c) = names" for c
  proof -
    from that failing same(3) have "c < length (tk_callers t)"
      by (simp add: failing_def)
    with that here old [of c] failing show ?thesis
      by (cases "c = j") (auto simp: failing_def)
  qed
  ultimately show ?thesis
    using failing same by (simp add: failing_def)
qed

lemma failing_answered:
  fixes s t :: "('n, 'u, 'p, 'te, 'e, 'm, 'net) token_sys"
  assumes scc: "scc_hash_map ops entries" and failing: "failing entries names u k s"
    and key: "key \<noteq> names" and tasks: "tasks (tk_store s) = ts @ SetAwaiting key i n # ts'"
    and t: "tk_callers t = tk_callers s" "tk_store t = (tk_store s)\<lparr>
      store_map := set_update ops key st (store_map (tk_store s)), tasks := ts @ SetNotifying n r # ts'\<rparr>"
  shows "failing entries names u k t"
proof (rule failing_keep [OF failing t(1)])
  show "entries (store_map (tk_store t)) names = entries (store_map (tk_store s)) names"
    using key by (simp add: t set_update_def scc_hash_map.entries_update [OF scc])
  fix v
  assume "finds_failure (tk_store s) names (token_id u) v"
  then show "finds_failure (tk_store t) names (token_id u) v"
    by (rule finds_failure_tasks) (auto simp: t tasks nth_append nth_Cons split: nat.splits if_splits)
qed

lemma failing_step:
  assumes scc: "scc_hash_map ops entries" and inv: "token_inv entries s"
    and step: "token_step env ops s t" and failing: "failing entries names u k s" and u: "token_inner u = Failed"
  shows "failing entries names u k t \<and> answers t names = answers s names"
  using step
proof cases
  case serve
  then show ?thesis
  proof cases
    case (store st)
    with failing_store [OF scc inv store(2) failing u] show ?thesis
      by (simp add: answers_def)
  next
    case (got cs target names' p cs' r c st)
    obtain new where new: "store_map st = store_map (tk_store s)" "tasks st = tasks (tk_store s) @ new"
      using got(5) by (auto simp: get_returned_def split: result.splits option.splits)
    have "failing entries names u k t"
    proof (rule failing_caller [OF failing, where j = "length cs" and new = new])
      assume "caller_names (tk_callers t ! length cs) = names"
      with got have names: "names' = names"
        by (auto simp: get_returned_def split: result.splits option.splits)
      have caller: "length cs < length (tk_callers s)" "tk_callers s ! length cs = InGet target names p"
        using got(2) names by simp_all
      with failing have "\<not> length cs < k"
        by (auto simp: failing_def)
      with caller failing_later [OF failing caller(1)]
      have "finds_failure (tk_store s) names (token_id u) (tk_callers s ! length cs)"
        by simp
      from this caller(2) got(4) have "r = Err (StoreReadError (token_id u))"
        by cases auto
      with got \<open>\<not> length cs < k\<close> names show "k \<le> length cs \<and>
          finds_failure (tk_store t) names (token_id u) (tk_callers t ! length cs)"
        by (auto simp: get_returned_def intro: finds_failure.returned)
    qed (use got new in \<open>auto simp: nth_append nth_Cons split: nat.splits if_splits\<close>)
    with got show ?thesis
      by (simp add: answers_def)
  next
    case (answered target inst names' ts key i n ts' fut net st r)
    from answered(2) failing_no_set [OF failing] have "names' \<noteq> names" by blast
    moreover from answered(2) obtain c where "c < length (tk_callers s)" "tk_callers s ! c = InSet target inst names' (length ts)"
      by (metis in_set_conv_nth)
    with inv have "caller_justified s c (InSet target inst names' (length ts))"
      by (metis token_inv_def)
    with answered(3) have "key = names'" by simp
    ultimately show ?thesis
      using failing_answered [OF scc failing _ answered(3), where t = t and st = st and r = r] answered(1) by (simp add: answers_def)
  next
    case (returned cs target inst names' p cs' r)
    with failing_no_set [OF failing] have "names' \<noteq> names" by fastforce
    with returned show ?thesis
      by (intro conjI failing_caller [OF failing, where j = "length cs" and new = "[]"])
        (auto simp: nth_append nth_Cons answers_def split: nat.splits if_splits)
  qed
next
  case (call target names')
  have "failing entries names u k t"
    by (rule failing_caller [OF failing, where j = "length (tk_callers s)" and new = "[Reading names' 1]"])
      (use call failing in \<open>auto simp: nth_append less_Suc_eq failing_def intro: finds_failure.reads\<close>)
  with call show ?thesis
    by (simp add: answers_def)
qed (use failing in \<open>auto simp: failing_def answers_def\<close>)

lemma failing_steps:
  assumes scc: "scc_hash_map ops entries" and reach: "token_reachable env ops s"
    and steps: "(token_step env ops)\<^sup>*\<^sup>* s t" and failing: "failing entries names u k s" and u: "token_inner u = Failed"
  shows "failing entries names u k t \<and> answers t names = answers s names \<and> token_reachable env ops t"
  using steps
proof (induction rule: rtranclp_induct)
  case base
  with failing reach show ?case by simp
next
  case (step t t')
  with failing_step [OF scc token_inv_reachable [OF scc] step.hyps(2) _ u] show ?case
    by (metis token_reachable.step)
qed

subsection \<open>Property\<close>

text \<open>
  C35: a refusal is final.  When the last answer of the NRF for some service names was a refusal,
  or the NRF could not be reached, and no call for these names is under way, then in every later
  state, whatever calls are made at the same time, the NRF has been asked no more for these
  names, and every call for them that was made since has failed on the stored state, has read it
  and is about to fail, or has yet to read it; none waits, and none asks the NRF.
\<close>

theorem token_failure_is_final:
  assumes "scc_hash_map ops entries" and "token_reachable env ops s"
    and "answers s names \<noteq> []" and "last (answers s names) = Err err"
    and "\<forall>c < length (tk_callers s). caller_names (tk_callers s ! c) = names \<longrightarrow>
      (\<exists>target r. tk_callers s ! c = TokenDone target names r)"
    and "(token_step env ops)\<^sup>*\<^sup>* s t"
  shows "answers t names = answers s names \<and>
    (\<exists>i. \<forall>c < length (tk_callers t). length (tk_callers s) \<le> c \<and> caller_names (tk_callers t ! c) = names \<longrightarrow>
       (\<exists>target p. tk_callers t ! c = InGet target names p \<and> p < length (tasks (tk_store t)) \<and>
          (tasks (tk_store t) ! p = Reading names 1 \<or> tasks (tk_store t) ! p = GetDone (Err (StoreReadError i)))) \<or>
       (\<exists>target. tk_callers t ! c = TokenDone target names (Err (TokenStoreError (StoreReadError i)))))"
proof -
  from assms(5) have over: "calls_over s names"
    by (simp add: calls_over_def)
  with assms(1-4) obtain u where u: "entries (store_map (tk_store s)) names = Some u" "token_inner u = Failed"
    by (blast elim: failure_kept)
  have "caller_task (tk_callers s ! c) = None"
    if "c < length (tk_callers s)" "caller_names (tk_callers s ! c) = names" for c
  proof -
    from assms(5) that obtain target r where "tk_callers s ! c = TokenDone target names r"
      by blast
    then show ?thesis by simp
  qed
  with u have "failing entries names u (length (tk_callers s)) s"
    by (simp add: failing_def)
  from failing_steps [OF assms(1,2,6) this u(2)]
  have "failing entries names u (length (tk_callers s)) t" and log: "answers t names = answers s names"
    by simp_all
  from finds_failureD [OF failing_later [OF this(1)]] log show ?thesis by blast
qed

subsection \<open>A refused request\<close>

abbreviation demo_failed_map :: "service_name list \<rightharpoonup> access_token_rsp token_state" where
  "demo_failed_map \<equiv> [demo_names \<mapsto> \<lparr>token_id = demo_id, token_inner = Failed\<rparr>]"

abbreviation demo_denial :: "(unit, unit, unit) nrf_authorization_error" where
  "demo_denial \<equiv> AccessTokenError ()"

abbreviation demo_denied :: "(nat, unit, unit, unit) token_caller" where
  "demo_denied \<equiv> TokenDone NfTypeNrf demo_names (Err (TokenStoreError (InnerFutureError demo_denial)))"

definition demo_failing where
  "demo_failing ts callers = demo_tk demo_failed_map demo_counter 1
     ([GetDone (Ok None), SetDone (Err (InnerFutureError demo_denial))] @ ts) (demo_denied # callers) [demo_token_request]
     [(NfTypeNrf, 3, demo_names, Err demo_denial)]"

lemma demo_failing_reachable: "token_reachable (demo_nrf False) map_ops (demo_failing [] [])"
proof -
  let ?r = "\<lambda>m c n ts callers. token_reachable (demo_nrf False) map_ops (demo_tk m c n ts callers [] [])"
  let ?G = "GetDone (Ok None)" and ?S = "InSet NfTypeNrf 3 demo_names 1 :: (nat, unit, unit, unit) token_caller"
  let ?E = "Err (InnerFutureError demo_denial)"
  let ?F = "\<lparr>token_id = demo_id, token_inner = Failed\<rparr> :: access_token_rsp token_state"
  have "?r Map.empty counter_new 0 [] []"
    using token_reachable.init [of "demo_nrf False" map_ops 3 "\<lparr>init_url = ''http://nrf'', init_source = NfTypeAmf\<rparr>" "[]"]
    by (simp add: token_sys_new_def demo_tk_def)
  from demo_call [OF this, where names = demo_names and target = NfTypeNrf]
  have "?r Map.empty counter_new 0 [Reading demo_names 1] [InGet NfTypeNrf demo_names 0]"
    by simp
  then have "?r Map.empty counter_new 0 [?G] [InGet NfTypeNrf demo_names 0]"
    by (rule demo_task) (use store_task_step.read [of "\<lparr>store_map = Map.empty, store_counter = counter_new, next_notify = 0,
        tasks = [Reading demo_names 1]\<rparr>" "[]" demo_names 1 "[]" map_ops] in \<open>simp add: read_next_def get_turn_def\<close>)
  from demo_got [where cs = "[]" and cs' = "[]", unfolded append_Nil, OF this]
  have "?r Map.empty counter_new 0 [?G, SetStarted demo_names] [?S]"
    by simp
  then have "?r Map.empty demo_counter 1 [?G, SetChecking demo_names demo_id 0] [?S]"
    by (rule demo_task) (use store_task_step.create [of "\<lparr>store_map = Map.empty, store_counter = counter_new, next_notify = 0,
        tasks = [?G, SetStarted demo_names]\<rparr>" "[?G]" demo_names "[]" "SetChecking demo_names demo_id 0"
        demo_counter map_ops] in \<open>simp add: create_next_def token_state_new_def split_beta\<close>)
  then have "?r Map.empty demo_counter 1 [?G, SetUpserting demo_names demo_id 0] [?S]"
    by (rule demo_task) (use store_task_step.check [of "\<lparr>store_map = Map.empty, store_counter = demo_counter, next_notify = 1,
        tasks = [?G, SetChecking demo_names demo_id 0]\<rparr>" "[?G]" demo_names demo_id 0 "[]" map_ops] in
        \<open>simp add: check_next_def set_check_def\<close>)
  then have asked: "?r demo_update demo_counter 1 [?G, SetAwaiting demo_names demo_id 0] [?S]"
    by (rule demo_task) (use store_task_step.upsert [of "\<lparr>store_map = Map.empty, store_counter = demo_counter, next_notify = 1,
        tasks = [?G, SetUpserting demo_names demo_id 0]\<rparr>" "[?G]" demo_names demo_id 0 "[]" map_ops] in simp)
  have "authentication_request (demo_nrf False) ''http://nrf'' 3 NfTypeAmf NfTypeNrf demo_names [] =
      Some (Err demo_denial, [demo_token_request])"
    using demo_token [of False] by (simp add: demo_token_request_def)
  moreover have "(set_complete demo_id (Err demo_denial) :: _ \<times> (access_token_rsp, _) set_result) = (?F, ?E)"
    by (simp add: set_complete_def Let_def)
  ultimately have "token_reachable (demo_nrf False) map_ops (demo_tk demo_failed_map demo_counter 1
      [?G, SetNotifying 0 ?E] [?S] [demo_token_request] [(NfTypeNrf, 3, demo_names, Err demo_denial)])"
    using token_reachable.step [OF asked token_step.serve [OF serve_step.answered
        [of NfTypeNrf 3 demo_names "[?G]" _ demo_names demo_id 0 "[]" "demo_nrf False" "Err demo_denial" "[demo_token_request]"
          ?F ?E map_ops]]]
    by (simp add: demo_tk_def set_update_def)
  then have "token_reachable (demo_nrf False) map_ops (demo_tk demo_failed_map demo_counter 1
      [?G, SetDone ?E] [?S] [demo_token_request] [(NfTypeNrf, 3, demo_names, Err demo_denial)])"
    by (rule demo_task) (use store_task_step.notify [of "\<lparr>store_map = demo_failed_map, store_counter = demo_counter,
        next_notify = 1, tasks = [?G, SetNotifying 0 ?E]\<rparr>" "[?G]" 0 ?E "[]" map_ops] in simp)
  from demo_returned [where cs = "[]" and cs' = "[]", unfolded append_Nil, OF this] show ?thesis
    by (simp add: demo_failing_def)
qed

text \<open>The next call reads the failure and returns.\<close>

lemma demo_failing_later:
  "(token_step (demo_nrf False) map_ops)\<^sup>*\<^sup>* (demo_failing [] [])
     (demo_failing [GetDone (Err (StoreReadError demo_id))] [InGet NfTypeNrf demo_names 2])"
proof -
  have "token_step (demo_nrf False) map_ops (demo_failing [] [])
      (demo_failing [Reading demo_names 1] [InGet NfTypeNrf demo_names 2])"
    using token_step.call [of "demo_nrf False" map_ops "demo_failing [] []" NfTypeNrf demo_names]
    by (simp add: demo_failing_def demo_tk_def numeral_2_eq_2)
  moreover have "token_step (demo_nrf False) map_ops (demo_failing [Reading demo_names 1] [InGet NfTypeNrf demo_names 2])
      (demo_failing [GetDone (Err (StoreReadError demo_id))] [InGet NfTypeNrf demo_names 2])"
    using serve_step.store [OF store_task_step.read [of "tk_store (demo_failing [Reading demo_names 1]
        [InGet NfTypeNrf demo_names 2])" "[GetDone (Ok None), SetDone (Err (InnerFutureError demo_denial))]" demo_names 1 "[]"
        map_ops], of "demo_nrf False"]
    by (intro token_step.serve) (simp add: demo_failing_def demo_tk_def read_next_def get_turn_def)
  ultimately show ?thesis
    by (meson converse_rtranclp_into_rtranclp rtranclp.rtrancl_refl)
qed

theorem token_failure_is_final_witness:
  "token_reachable (demo_nrf False) map_ops (demo_failing [] []) \<and>
   last (answers (demo_failing [] []) demo_names) = Err demo_denial \<and>
   answers (demo_failing [GetDone (Err (StoreReadError demo_id))] [InGet NfTypeNrf demo_names 2]) demo_names = [Err demo_denial]"
proof -
  have log: "answers (demo_failing [] []) demo_names = [Err demo_denial]"
    by (simp add: answers_def demo_failing_def demo_tk_def)
  moreover have "\<forall>c < length (tk_callers (demo_failing [] [])). caller_names (tk_callers (demo_failing [] []) ! c) = demo_names \<longrightarrow>
      (\<exists>target r. tk_callers (demo_failing [] []) ! c = TokenDone target demo_names r)"
    by (simp add: demo_failing_def demo_tk_def)
  ultimately show ?thesis
    using token_failure_is_final [OF map_scc.scc_hash_map_axioms demo_failing_reachable _ _ _ demo_failing_later,
        of demo_names demo_denial] demo_failing_reachable
    by simp
qed

end
