(* ===== verification/Context_Cycle.thy ===== *)
theory Context_Cycle
  imports Amf_System
begin

text \<open>
  What keeps the contexts of a gNB alive.  A UE context holds an \<open>Arc\<close> of the context of its
  gNB (\<open>context/ue_context.rs\<close>), which holds the table of its UE contexts
  (\<open>context/gnb_context.rs\<close>); \<open>close_ran_connection\<close> removes the gNB from the table of gNBs and
  nothing removes a UE.  The lemmas follow one table through every later step of the AMF.
\<close>

subsection \<open>Addresses of connections\<close>

fun conn_addr :: "('r, 'x, 's, 'a, 'um) conn \<Rightarrow> nat list" where
  "conn_addr (Running a) = [a]"
| "conn_addr (Broken a) = [a]"
| "conn_addr (Closed a) = [a]"
| "conn_addr _ = []"

definition conn_addrs :: "('r, 'x, 's, 'a, 'um) conn list \<Rightarrow> nat list" where
  "conn_addrs cs = concat (map conn_addr cs)"

lemma conn_addrs_simps [simp]:
  "conn_addrs [] = []"
  "conn_addrs (c # cs) = conn_addr c @ conn_addrs cs"
  "conn_addrs (cs @ cs') = conn_addrs cs @ conn_addrs cs'"
  by (simp_all add: conn_addrs_def)

lemma conn_addrs_mem: "c \<in> set cs \<Longrightarrow> a \<in> set (conn_addr c) \<Longrightarrow> a \<in> set (conn_addrs cs)"
  by (auto simp: conn_addrs_def)

definition addrs_ok :: "('r, 'x, 's, 'a, 'l, 'gm, 'um) amf_sys \<Rightarrow> bool" where
  "addrs_ok s \<longleftrightarrow> distinct (conn_addrs (amf_conns s)) \<and>
     (\<forall>a \<in> set (conn_addrs (amf_conns s)). a < next_gnb (amf_registry s))"

lemma register_gnb_next:
  "register_gnb env gnb reg = (r, reg') \<Longrightarrow>
     next_gnb reg' = Suc (next_gnb reg) \<and> (\<forall>a. r = Some a \<longrightarrow> a = next_gnb reg)"
  by (auto simp: register_gnb_def Let_def split: prod.splits result.splits)

lemma conn_step_addr:
  assumes "conn_step env config recvmsg c reg = (c', reg')"
  shows "next_gnb reg \<le> next_gnb reg' \<and>
    (conn_addr c' = conn_addr c \<or> conn_addr c' = [] \<or>
     conn_addr c = [] \<and> conn_addr c' = [next_gnb reg] \<and> next_gnb reg' = Suc (next_gnb reg))"
proof (cases c)
  case (Answered gnb)
  obtain r reg1 where "register_gnb env gnb reg = (r, reg1)"
    by force
  with Answered assms register_gnb_next [OF this] show ?thesis
    by (auto split: option.splits)
qed (use assms in \<open>auto simp: close_ran_connection_def split: option.splits result.splits if_splits\<close>)

lemma addrs_ok_conn:
  assumes "addrs_ok s" and "amf_conns s = cs @ c # cs'"
    and "conn_step env config recvmsg c (amf_registry s) = (c', reg)"
  shows "addrs_ok (s\<lparr>amf_registry := reg, amf_conns := cs @ c' # cs'\<rparr>)"
proof -
  from assms(1,2) have old: "distinct (conn_addrs (cs @ c # cs'))"
    "\<forall>a \<in> set (conn_addrs (cs @ c # cs')). a < next_gnb (amf_registry s)"
    by (simp_all add: addrs_ok_def)
  note moved = conn_step_addr [OF assms(3)]
  with old(2) have below: "\<forall>a \<in> set (conn_addrs (cs @ c # cs')). a < next_gnb reg"
    using order_less_le_trans by blast
  from moved show ?thesis
  proof (elim conjE disjE)
    assume "conn_addr c = []" "conn_addr c' = [next_gnb (amf_registry s)]"
      "next_gnb reg = Suc (next_gnb (amf_registry s))"
    with old show ?thesis
      by (auto simp: addrs_ok_def less_Suc_eq)
  qed (use old(1) below in \<open>auto simp: addrs_ok_def\<close>)
qed

lemma addrs_ok_step:
  assumes "par_step env config s t" and "addrs_ok (par_amf s)"
  shows "addrs_ok (par_amf t)"
  using assms(1)
proof cases
  case (par_accept ans)
  with assms(2) show ?thesis
    by (auto simp: addrs_ok_def run_accept_def split_beta split: result.splits)
next
  case (par_conn cs c cs' recvmsg c' reg)
  with addrs_ok_conn [OF assms(2) par_conn(2,4)] show ?thesis by simp
qed (use assms(2) in \<open>auto simp: addrs_ok_def with_gnb_def\<close>)

lemma addrs_ok_steps: "par_steps env config s t \<Longrightarrow> addrs_ok (par_amf s) \<Longrightarrow> addrs_ok (par_amf t)"
  by (induction rule: par_steps.induct) (auto intro: addrs_ok_step)

lemma closed_step:
  assumes "par_step env config s t" and "Closed a \<in> set (amf_conns (par_amf s))"
  shows "Closed a \<in> set (amf_conns (par_amf t))"
  using assms(1)
proof cases
  case (par_conn cs c cs' recvmsg c' reg)
  with assms(2) show ?thesis by auto
qed (use assms(2) in \<open>auto simp: run_accept_def with_gnb_def split_beta\<close>)

lemma closed_steps:
  "par_steps env config s t \<Longrightarrow> Closed a \<in> set (amf_conns (par_amf s)) \<Longrightarrow> Closed a \<in> set (amf_conns (par_amf t))"
  by (induction rule: par_steps.induct) (auto intro: closed_step)

text \<open>A closed connection shares its address with no running or broken one.\<close>

lemma closed_not_live:
  assumes "addrs_ok s" and "Closed a \<in> set (amf_conns s)"
  shows "Running a \<notin> set (amf_conns s) \<and> Broken a \<notin> set (amf_conns s)"
proof -
  from assms(2) obtain cs cs' where cs: "amf_conns s = cs @ Closed a # cs'"
    by (meson split_list)
  with assms(1) have "a \<notin> set (conn_addrs cs)" "a \<notin> set (conn_addrs cs')"
    by (auto simp: addrs_ok_def)
  with cs show ?thesis
    using conn_addrs_mem [of _ cs a] conn_addrs_mem [of _ cs' a] by fastforce
qed

subsection \<open>UE contexts stay\<close>

lemma task_step_table:
  assumes scc: "scc_hash_map (ue_ops env) entries"
    and inv: "ue_inv entries \<lparr>sys_gnb = gnb, sys_tasks = ps\<rparr>" and task: "p \<in> set ps"
    and step: "task_step env a p gnb = (p', gnb')" and here: "ue_table entries gnb i \<noteq> None"
  shows "ue_table entries gnb' i \<noteq> None"
proof -
  from inv task have mgr: "manager_inv entries (ue_context_manager gnb)"
    and ok: "task_ok (ue_table entries gnb) p"
    by (simp_all add: ue_inv_def list_all_iff)
  show ?thesis
  proof (cases p)
    case (Checked req)
    obtain r g where "iu_build env a req gnb = (r, g)"
      by force
    with Checked step here iu_build_effect [OF this] show ?thesis
      by (auto split: option.splits)
  next
    case (Built req ue)
    obtain r g where add: "iu_add env ue gnb = (r, g)"
      by force
    have "ue_table entries g i \<noteq> None"
    proof (cases "ue_table entries gnb (ran_ue_ngap_id ue)")
      case None
      from iu_add_vacant [OF scc mgr None add] here show ?thesis by simp
    next
      case (Some c)
      from iu_add_occupied [OF scc mgr Some add] here show ?thesis by simp
    qed
    with Built add step show ?thesis
      by (auto split: option.splits)
  next
    case (Registered req)
    obtain r g where w: "iu_with env req gnb = (r, g)"
      by force
    from Registered ok obtain c where "ue_table entries gnb (iu_ran_ue_ngap_id req) = Some c"
      by auto
    from iu_with_known [OF scc mgr this w] Registered w step here show ?thesis
      by (auto split: option.splits)
  qed (use step here in \<open>auto split: option.splits\<close>)
qed

lemma par_step_table:
  assumes scc: "scc_hash_map (ue_ops env) uentries" and inv: "par_inv env gentries uentries s"
    and step: "par_step env config s t"
    and gnb: "gnb_store (amf_registry (par_amf s)) a = Some gnb" and here: "ue_table uentries gnb i \<noteq> None"
  shows "\<exists>gnb'. gnb_store (amf_registry (par_amf t)) a = Some gnb' \<and> ue_table uentries gnb' i \<noteq> None"
  using step
proof cases
  case (par_accept ans)
  with gnb here show ?thesis
    by (auto simp: run_accept_def split_beta)
next
  case (par_conn cs c cs' recvmsg c' reg)
  have "a < next_gnb (amf_registry (par_amf s))"
    using par_invD(1) [OF inv] gnb unfolding registry_inv_def by blast
  with conn_step_store [OF par_conn(4,3)] par_conn(1) gnb here show ?thesis
    by auto
next
  case (par_message b recvmsg message)
  with gnb here show ?thesis by simp
next
  case (par_task ps b p ps' gnb0 p' gnb')
  show ?thesis
  proof (cases "b = a")
    case True
    with par_task gnb have "gnb0 = gnb" "p \<in> set (tasks_of a (par_tasks s))"
      by (simp_all add: set_tasks_of)
    with task_step_table [OF scc par_invD(2) [OF inv gnb], of p b p' gnb'] par_task(4) here True
    have "ue_table uentries gnb' i \<noteq> None" by simp
    with True par_task(1) show ?thesis
      by (simp add: with_gnb_def)
  next
    case False
    with par_task(1) gnb here show ?thesis
      by (simp add: with_gnb_def)
  qed
qed

lemma par_steps_table:
  assumes scc: "scc_hash_map (gnb_ops env) gentries" "scc_hash_map (ue_ops env) uentries"
    and "par_steps env config s t" and inv: "par_inv env gentries uentries s"
    and "length (par_tasks t) < 2 ^ 64 - 1"
    and "gnb_store (amf_registry (par_amf s)) a = Some gnb" "ue_table uentries gnb i \<noteq> None"
  shows "\<exists>gnb'. gnb_store (amf_registry (par_amf t)) a = Some gnb' \<and> ue_table uentries gnb' i \<noteq> None"
  using assms(3-7)
proof (induction rule: par_steps.induct)
  case (par_next s t u)
  from par_step_tasks [OF par_next.hyps(2)] par_next.prems have short: "length (par_tasks t) < 2 ^ 64 - 1"
    by linarith
  with par_next obtain gnb' where "gnb_store (amf_registry (par_amf t)) a = Some gnb'" "ue_table uentries gnb' i \<noteq> None"
    by blast
  with par_step_table [OF scc(2) par_inv_steps [OF scc par_next.hyps(1) par_next.prems(1) short] par_next.hyps(2)]
  show ?case by blast
qed blast

text \<open>
  C16: a gNB whose connection is closed while it has a UE is never released.  In the state in which
  the connection is closed and in every later one, no entry of the table of gNBs leads to its
  context any more, but the UE is still in the table of UEs of that context, and the context
  stored for the UE still refers to that context: the two hold each other.
\<close>

theorem closed_context_leaks:
  assumes "scc_hash_map (gnb_ops env) gentries" and "scc_hash_map (ue_ops env) uentries"
    and "par_steps env config (par_new env net) s" and "Closed a \<in> set (amf_conns (par_amf s))"
    and "gnb_store (amf_registry (par_amf s)) a = Some gnb" and "ue_table uentries gnb i \<noteq> None"
    and "par_steps env config s t" and "length (par_tasks t) < 2 ^ 64 - 1"
  shows "(\<forall>r. gentries (gnb_contexts (amf_registry (par_amf t))) r \<noteq> Some a) \<and>
    (\<exists>gnb' c. gnb_store (amf_registry (par_amf t)) a = Some gnb' \<and> ue_table uentries gnb' i = Some c \<and>
       gnb_context_ref c = a)"
proof -
  note reach = par_steps_trans [OF assms(3,7)]
  note i = par_invD [OF par_inv_steps [OF assms(1,2) reach par_inv_new [OF assms(1)] assms(8)]]
  have "addrs_ok (par_amf (par_new env net))"
    by (simp add: addrs_ok_def par_new_def ngap_context_new_def)
  from closed_not_live [OF addrs_ok_steps [OF reach this] closed_steps [OF assms(7,4)]]
  have "a \<notin> set (live_addrs (amf_conns (par_amf t)))"
    by (simp add: live_addrs_iff)
  with i(1) have "gentries (gnb_contexts (amf_registry (par_amf t))) r \<noteq> Some a" for r
    unfolding registry_inv_def by blast
  moreover have "length (par_tasks s) \<le> length (par_tasks t)"
    using assms(7) by (induction rule: par_steps.induct) (auto dest: par_step_tasks)
  then have "par_inv env gentries uentries s"
    using par_inv_steps [OF assms(1-3) par_inv_new [OF assms(1)]] assms(8) by linarith
  from par_steps_table [OF assms(1,2,7) this assms(8,5,6)]
  obtain gnb' c where "gnb_store (amf_registry (par_amf t)) a = Some gnb'" "ue_table uentries gnb' i = Some c"
    by blast
  moreover from this i(3) have "gnb_context_ref c = a"
    unfolding refs_ok_def by blast
  ultimately show ?thesis by blast
qed

text \<open>The gNB of \<open>demo_par_served\<close> with its UE, after the peer has closed the stream.\<close>

definition demo_closed where
  "demo_closed = \<lparr>par_amf = (with_gnb 0 demo_served (demo_state (Closed 0)))\<lparr>amf_registry :=
       close_ran_connection demo_amf demo_served (amf_registry (with_gnb 0 demo_served (demo_state (Running 0))))\<rparr>,
     par_tasks = [(0, Finished demo_first_ue (Ok EmptyResponse))]\<rparr>"

lemma demo_par_closed: "par_steps demo_amf demo_app (par_new demo_amf demo_net) demo_closed"
proof -
  let ?s = "with_gnb 0 demo_served (demo_state (Running 0))"
  let ?p = "\<lparr>par_amf = ?s, par_tasks = [(0, Finished demo_first_ue (Ok EmptyResponse))]\<rparr>"
  have conns: "amf_conns (par_amf ?p) = [] @ Running 0 # []"
    by (simp add: with_gnb_def demo_state_def)
  have quiet: "\<not> delivers (Running 0) (Ok (0, []))"
    by (simp add: read_data_def)
  have close: "conn_step demo_amf demo_app (Ok (0, [])) (Running 0) (amf_registry (par_amf ?p)) =
      (Closed 0, close_ran_connection demo_amf demo_served (amf_registry ?s))"
    by (simp add: with_gnb_def read_data_def)
  from par_steps.par_next [OF demo_par_served par_step.par_conn [OF conns quiet close]] show ?thesis
    by (simp add: demo_closed_def with_gnb_def demo_state_def)
qed

theorem closed_context_leaks_witness:
  "gnb_contexts (amf_registry (par_amf demo_closed)) 77 \<noteq> Some 0 \<and>
   (\<exists>gnb c. gnb_store (amf_registry (par_amf demo_closed)) 0 = Some gnb \<and> ue_table (\<lambda>m. m) gnb 9 = Some c \<and>
      gnb_context_ref c = 0)"
proof -
  have ops: "scc_hash_map (ue_ops demo_amf) (\<lambda>m. m)"
    by (simp add: demo_amf_def demo_env_def map_scc.scc_hash_map_axioms)
  have "Closed 0 \<in> set (amf_conns (par_amf demo_closed))"
    "gnb_store (amf_registry (par_amf demo_closed)) 0 = Some demo_served" "ue_table (\<lambda>m. m) demo_served 9 \<noteq> None"
    "length (par_tasks demo_closed) < 2 ^ 64 - 1"
    by (simp_all add: demo_closed_def with_gnb_def demo_state_def close_ran_connection_def demo_served_def
        demo_connected_eq contexts_def)
  from closed_context_leaks [OF demo_amf_laws(1) ops demo_par_closed this(1-3) par_steps.par_start this(4)]
  show ?thesis by blast
qed

end
