(* ===== verification/Spec2Isabelle.thy ===== *)
theory Spec2Isabelle
  imports
    Id_Counter Context_Manager Plmn_Identity Hex_Codec Procedure_Codes Ngap_Convert Network_Assoc
    App_Config Ngap_Messages Ng_Setup Initial_Ue Ngap_Controller Nas_Registration Token_Store
    Amf_System Sbi_Request Nrf_Client Nf_Clients Nf_App Packet_Monitor Manager_Tasks Asn_Limits
    Manager_Queues Sbi_Headers Cli Monitor_Driver Unit_Tests Token_Serving Token_Failure
    Context_Cycle
begin

text \<open>
  A verification library for \<open>unifyair-core\<close>: the AMF \<open>omnipath\<close>
  (\<open>src/lightning-nf/omnipath/app/src\<close>, below \<open>O/\<close>), the client and helper crates under
  \<open>src/utils\<close>, the command line driver \<open>src/lightning-cli/src\<close>, and the packet monitor
  \<open>src/tests/integration/src\<close>.

  \<^bold>\<open>The program.\<close>  The driver reads a configuration, initialises the AMF, registers it with
  the NRF over HTTP, and runs it until a signal arrives; then it deregisters.  The AMF accepts
  SCTP associations from gNBs.  Each association runs an NG Setup, is registered under the
  identifier of its gNB, and then answers NGAP messages, each message in a task of its own.  An
  Initial UE Message makes a context for the UE in a table kept per gNB; each UE context sits
  behind a queue that runs one operation at a time.  NGAP and SBI represent the same data
  differently, so both directions of conversion are part of the message handling.

  \<^bold>\<open>Theories.\<close>
  \<^item> \<open>Omnipath_Prelude\<close>: machine integers, \<open>Result\<close>, panics, asynchronous outcomes, decimal
    text, nibbles.
  \<^item> \<open>Id_Counter\<close> (\<open>utils/counter\<close>): the atomic counters; identifiers are distinct for exactly
    the first \<open>2 ^ w\<close> increments.  Locale \<open>id_source\<close>.
  \<^item> \<open>Scc_Map\<close>: the contract of the concurrent hash map of the crate \<open>scc\<close>, as the locale
    \<open>scc_hash_map\<close>, with an instance.
  \<^item> \<open>Context_Queue\<close> (\<open>O/ngap/manager/context_queue.rs\<close>): the queue of closures around a
    context, alone and as a transition system with concurrent clients and processors.  It is
    linearizable, exclusive and drains; after a panic it is wedged.  Locale \<open>serial_cell\<close>.
  \<^item> \<open>Context_Manager\<close> (\<open>context_manager.rs\<close>): the table of queues; sequences of operations
    refine a partial function.  Locale \<open>arc_table\<close>, which extends \<open>scc_hash_map\<close>.
  \<^item> \<open>Manager_Tasks\<close>: the same operations called by any number of tasks, as a transition system;
    every queue ever stored has exactly one owner, and a call ends after three steps of its own.
  \<^item> \<open>Manager_Queues\<close>: the composition of the last three, in which pushes, processor turns and table
    operations of all calls interleave; the manager is linearizable context by context.
  \<^item> \<open>Plmn_Identity\<close>, \<open>Hex_Codec\<close>, \<open>Ngap_Convert\<close> (\<open>O/utils\<close>): PLMN identities, tracking
    area codes, slices, AMF identifiers, GUAMI and PLMN support lists, 5G-S-TMSI; round trips
    and bounds.  Locales \<open>hex_codec\<close> and \<open>bitvec\<close>; the latter leaves open how a vector lies in
    its storage, so of the text of a 5G-S-TMSI only the length and freedom from panics are shown.
  \<^item> \<open>Procedure_Codes\<close> (\<open>O/ngap/procedure_code_enum.rs\<close>): the enumeration and its codes.
  \<^item> \<open>Network_Assoc\<close> (\<open>O/ngap/network\<close>): SCTP associations and their two indices, the listener.
  \<^item> \<open>App_Config\<close> (\<open>O/config\<close>, \<open>O/context/app_context.rs\<close>, \<open>O/builder/sbi/nrf.rs\<close>):
    configuration, validation, application context, NRF profile.
  \<^item> \<open>Ngap_Messages\<close> (\<open>O/ngap/engine/utils.rs\<close>, \<open>interfaces.rs\<close>, \<open>O/ngap/core/utils.rs\<close>):
    messages, decoding failures, response errors.
  \<^item> \<open>Ng_Setup\<close>, \<open>Initial_Ue\<close> (\<open>O/ngap/core\<close>): the two request handlers; the second also as a
    transition system of concurrent handlers of one gNB.
  \<^item> \<open>Asn_Limits\<close> (\<open>O/ngap/constants.rs\<close>): the sizes of the protocol's lists, and when a setup
    response has the types of the protocol.
  \<^item> \<open>Ngap_Controller\<close> (\<open>O/ngap/engine/controller.rs\<close>, \<open>ngap_route.rs\<close>): setup with retries,
    registration, message loop, and the whole AMF as a transition system over its connections,
    in which the task of a message is one step.  The answer of a setup and of a message is given
    exactly, down to what is handed to the socket.
  \<^item> \<open>Amf_System\<close>: the composition of the two previous ones, in which the tasks of all messages
    of all gNBs are interleaved with the connections.  Its invariant joins the registry of gNBs
    with the UE tables of all of them; the coarse system is one of its schedules; a connection
    is followed from setup to close.
  \<^item> \<open>Context_Cycle\<close>: the contexts that a closed gNB leaves behind, in all later states.
  \<^item> \<open>Nas_Registration\<close> (\<open>O/nas\<close>): the registration request and the mobility state machine.
  \<^item> \<open>Token_Store\<close> (\<open>utils/client/src/token_store.rs\<close>): the token cache, alone and with
    concurrent readers and writers.
  \<^item> \<open>Sbi_Request\<close>, \<open>Nrf_Client\<close> (\<open>utils/client/src\<close>): content types, headers, requests, and
    the NRF client with its tokens.  Locale \<open>mediatype\<close>.
  \<^item> \<open>Token_Requests\<close>, \<open>Token_Serving\<close>: concurrent calls of \<open>get_token\<close>, composed of the
    transition system of the token store and the requests of the NRF client.  Every answer has its
    cause in an answer of the NRF or in a call that was being served at that time; without new
    calls the system stops, and then each call has returned or waits for a notification that was
    sent before it began to wait; the sequential \<open>get_token\<close> is one of its runs.
  \<^item> \<open>Token_Failure\<close>: in the same system, a refusal of the NRF is final once no call that read the
    store before it is left.
  \<^item> \<open>Sbi_Headers\<close> (\<open>header_map_serializer.rs\<close>): what a structure of string, number and
    absent fields becomes on the wire.  Locale \<open>json_text\<close>, whose law on header values is stated
    for ASCII text only.
  \<^item> \<open>Nf_Clients\<close> (\<open>utils/client/src/nf_clients\<close>): clients of other network functions.
  \<^item> \<open>Nf_App\<close> (\<open>O/lib.rs\<close>, \<open>utils/nf-base\<close>, \<open>lightning-cli\<close>): start-up, registration and the
    driver.  Locale \<open>nf_lifecycle\<close>.
  \<^item> \<open>Cli\<close> (\<open>lightning-cli/src/app.rs\<close>, \<open>main.rs\<close>): the commands and the main function.  Locale
    \<open>clap_parser\<close>; an undeclared name gets through the parser and ends in a panic.
  \<^item> \<open>Packet_Monitor\<close> (\<open>tests/integration/src\<close>): the IPv4 parser, the capture loops and their
    statistics; \<open>Monitor_Driver\<close>: the commands its main function runs.
  \<^item> \<open>Unit_Tests\<close>: the unit tests of the repository, run on the definitions.

  \<^bold>\<open>Representation.\<close>  A structure is a record, an enumeration a datatype, an integer of \<open>w\<close>
  bits a word of that length.  \<open>Result\<close> is a datatype of its own; a panic is \<open>None\<close>.  Shared
  objects behind an \<open>Arc\<close> are values at addresses of a store (\<open>Context_Manager\<close>,
  \<open>Ngap_Controller\<close>).  Code outside the repository is an argument, a record of functions, and
  its documented laws are the assumptions of a locale with an instance: the hash map, the
  hexadecimal and bit vector libraries, the media type and command line parsers, the JSON writer,
  the ASN.1 codec, sockets, URLs, serialisers and the HTTP exchange.  Interleavings are
  \<open>inductive\<close> step relations whose steps are the operations the code performs between two
  suspension points.

  \<^bold>\<open>Loops.\<close>  Every loop terminates: those over lists by structure, the retry loop and the read
  loop of the token store by their bounds in the source (the constant
  \<open>INITIALIZATION_RETRIES\<close> and nine turns), the queue processor by the length of its queue, and
  a call of \<open>get_token\<close> by the number of steps that are left to it and its task in the store.
  The search of the packet monitor for a bridge device is bounded by its thirty attempts.  The
  accept loop, the message loop and the capture loops are driven by the answers of the socket.

  \<^bold>\<open>What the theorems show.\<close>  For the core: the table of gNBs has exactly the identifiers of
  the connections that run or were broken by a read error; setup is accepted exactly for new
  identifiers with a served tracking area; a UE is registered once, with an identifier no other
  UE of the gNB has, and refers to that gNB, also with all gNBs and messages interleaved;
  operations on one context never overlap and take effect in the order of their arrival; a
  stored context is never owned twice; and every access token that a caller gets was granted for
  its services.  For the codecs: round trips on all valid values.  Where the code departs from
  its comments or its intent, a theorem says how: the registration race that panics, the gNB
  that cannot return after a read error, the association that is never released, the contexts
  of a closed gNB that hold each other alive, the lost wake-up and the final refusal of the
  token store, the second of two simultaneous token requests that is refused, the instance
  identifier that the application context never takes from the NRF.

  \<^bold>\<open>Not modelled.\<close>  Logging, tracing and the other \<open>Debug\<close> output, the construction of the HTTP
  client stack of \<open>nf_clients\<close>, derived (de)serialisers, the empty NAS builders, and
  benchmarks.  The NAS messages never reach the state machine, because \<open>handle_nas\<close> is empty
  in the source; the machine is modelled on its own.

  \<^bold>\<open>Limits of the step relations.\<close>  A closure given to a context queue is a total function of
  the context, or panics: a future that never completes is not represented, and where a call
  waits for ever or panics the model of the single call (\<open>schedule_and_wait\<close>) has \<open>None\<close> for
  both; the two differ in the transition systems.  A future is not cancelled between two steps,
  in particular the writer of the token store between its insertion and its update.  A connection
  step that reads the end of the stream also removes the gNB from the table, although other tasks
  may run between the two.  \<open>get_token\<close> and \<open>token_get\<close> as functions are calls that run alone with
  a given view of the table; what concurrent calls do is in the step relations of \<open>Token_Store\<close>,
  \<open>Token_Requests\<close> and \<open>Token_Serving\<close>.  Parsers index lists only behind the length guard of
  the source.
\<close>

end
